(* ===== verification/Prelude.thy ===== *)
theory Prelude
  imports Main "HOL-Library.AList" "HOL-Library.Sublist"
begin

text \<open>
  Shared vocabulary of the development.

  A Go \<open>string\<close> or \<open>[]byte\<close> is a list of bytes (\<open>char list\<close>); this theory holds the
  functions of Go's \<open>strings\<close> and \<open>bytes\<close> packages that the modelled code calls, written
  out as Go documents them, with the lemmas about them that the components share. A Go
  \<open>map[string]T\<close> is an association list, read with \<^const>\<open>map_of\<close>, written with
  \<^const>\<open>AList.update\<close> and \<^const>\<open>AList.delete\<close>; a \<open>nil\<close> map reads as the empty one.
\<close>

named_theorems go_strings \<open>rewriting rules for the string functions of Go\<close>

section \<open>Bytes\<close>

abbreviation QUOTE :: char where "QUOTE \<equiv> CHR 0x22"
abbreviation BSLASH :: char where "BSLASH \<equiv> CHR 0x5C"
abbreviation TAB :: char where "TAB \<equiv> CHR 0x09"
abbreviation LF :: char where "LF \<equiv> CHR 0x0A"
abbreviation CR :: char where "CR \<equiv> CHR 0x0D"
abbreviation SPACE :: char where "SPACE \<equiv> CHR 0x20"

section \<open>Searching in strings\<close>

definition has_prefix :: "'a list \<Rightarrow> 'a list \<Rightarrow> bool" where
  "has_prefix s p \<longleftrightarrow> take (length p) s = p"

definition has_suffix :: "'a list \<Rightarrow> 'a list \<Rightarrow> bool" where
  "has_suffix s p \<longleftrightarrow> length p \<le> length s \<and> drop (length s - length p) s = p"

lemma has_prefix_Nil [simp]: "has_prefix s []"
  by (simp add: has_prefix_def)

lemma has_prefix_Nil_left [simp]: "has_prefix [] p \<longleftrightarrow> p = []"
  by (auto simp: has_prefix_def)

lemma has_prefix_Cons [simp]: "has_prefix (c # s) (d # p) \<longleftrightarrow> c = d \<and> has_prefix s p"
  by (auto simp: has_prefix_def)

lemma has_prefix_iff: "has_prefix s p \<longleftrightarrow> (\<exists>r. s = p @ r)"
  by (auto simp: has_prefix_def intro: append_take_drop_id [symmetric])
     (metis append_take_drop_id)

lemma has_suffix_iff: "has_suffix s p \<longleftrightarrow> (\<exists>r. s = r @ p)"
proof
  assume "has_suffix s p"
  then have "s = take (length s - length p) s @ p"
    by (metis append_take_drop_id has_suffix_def)
  then show "\<exists>r. s = r @ p" ..
qed (auto simp: has_suffix_def)

lemma has_suffix_last: "has_suffix s p \<Longrightarrow> p \<noteq> [] \<Longrightarrow> last s = last p"
  by (auto simp: has_suffix_iff)

text \<open>\<open>strings.Index\<close> and \<open>strings.LastIndex\<close>; \<^const>\<open>None\<close> is Go's \<open>-1\<close>.\<close>

fun index_of :: "'a list \<Rightarrow> 'a list \<Rightarrow> nat option" where
  "index_of p [] = (if p = [] then Some 0 else None)"
| "index_of p (c # s) = (if has_prefix (c # s) p then Some 0 else map_option Suc (index_of p s))"

fun last_index :: "'a list \<Rightarrow> 'a list \<Rightarrow> nat option" where
  "last_index p [] = (if p = [] then Some 0 else None)"
| "last_index p (c # s) =
     (case last_index p s of
        Some i \<Rightarrow> Some (Suc i)
      | None \<Rightarrow> if has_prefix (c # s) p then Some 0 else None)"

lemma index_of_Some_prefix: "index_of p s = Some i \<Longrightarrow> has_prefix (drop i s) p \<and> i \<le> length s"
  by (induction s arbitrary: i) (auto split: if_splits)

lemma last_index_Some_prefix: "last_index p s = Some i \<Longrightarrow> has_prefix (drop i s) p \<and> i \<le> length s"
  by (induction s arbitrary: i) (auto split: if_splits option.splits)

lemma last_index_single_None: "last_index [c] s = None \<longleftrightarrow> c \<notin> set s"
  by (induction s) (auto split: option.splits)

lemma last_index_single_Some:
  "last_index [c] s = Some i \<Longrightarrow> s = take i s @ c # drop (Suc i) s \<and> c \<notin> set (drop (Suc i) s) \<and> i < length s"
proof (induction s arbitrary: i)
  case (Cons a s)
  show ?case
  proof (cases "last_index [c] s")
    case None
    with Cons.prems have "a = c" "i = 0" by (auto split: if_splits)
    with None show ?thesis by (simp add: last_index_single_None)
  next
    case (Some j)
    with Cons.prems have "i = Suc j" by simp
    with Cons.IH [OF Some] show ?thesis by simp
  qed
qed simp

lemmas last_index_single_split = last_index_single_Some [THEN conjunct1]
lemmas last_index_single_rest = last_index_single_Some [THEN conjunct2, THEN conjunct1]
lemmas last_index_single_less = last_index_single_Some [THEN conjunct2, THEN conjunct2]

definition contains :: "'a list \<Rightarrow> 'a list \<Rightarrow> bool" where
  "contains s p \<longleftrightarrow> index_of p s \<noteq> None"

section \<open>Trimming\<close>

text \<open>\<open>strings.TrimRight(s, cutset)\<close> with an ASCII cutset.\<close>

definition trim_right :: "'a list \<Rightarrow> 'a list \<Rightarrow> 'a list" where
  "trim_right cs s = rev (dropWhile (\<lambda>c. c \<in> set cs) (rev s))"

lemma trim_right_Nil [simp]: "trim_right cs [] = []"
  by (simp add: trim_right_def)

lemma trim_right_snoc [simp]:
  "trim_right cs (s @ [c]) = (if c \<in> set cs then trim_right cs s else s @ [c])"
  by (simp add: trim_right_def)

lemma trim_right_split: "\<exists>r. s = trim_right cs s @ r \<and> set r \<subseteq> set cs"
proof (induction s rule: rev_induct)
  case (snoc c s)
  then obtain r where "s = trim_right cs s @ r" "set r \<subseteq> set cs" by blast
  show ?case
  proof (cases "c \<in> set cs")
    case True
    with \<open>s = trim_right cs s @ r\<close> \<open>set r \<subseteq> set cs\<close>
    have "s @ [c] = trim_right cs (s @ [c]) @ (r @ [c]) \<and> set (r @ [c]) \<subseteq> set cs"
      by simp
    then show ?thesis by blast
  qed simp
qed simp

lemma trim_right_splitE:
  obtains r where "s = trim_right cs s @ r" and "set r \<subseteq> set cs"
proof -
  from trim_right_split [of s cs] show thesis by (elim exE conjE) (rule that)
qed

lemma trim_right_last: "trim_right cs s \<noteq> [] \<Longrightarrow> last (trim_right cs s) \<notin> set cs"
  by (induction s rule: rev_induct) (auto split: if_splits)

lemma trim_right_id: "s \<noteq> [] \<Longrightarrow> last s \<notin> set cs \<Longrightarrow> trim_right cs s = s"
  by (cases s rule: rev_cases) auto

lemma trim_right_idem [simp]: "trim_right cs (trim_right cs s) = trim_right cs s"
  by (cases "trim_right cs s = []") (simp_all add: trim_right_id trim_right_last)

text \<open>\<open>strings.TrimPrefix\<close> and \<open>strings.Cut\<close>.\<close>

definition trim_prefix :: "'a list \<Rightarrow> 'a list \<Rightarrow> 'a list" where
  "trim_prefix s p = (if has_prefix s p then drop (length p) s else s)"

definition cut_at :: "'a list \<Rightarrow> 'a list \<Rightarrow> 'a list \<times> 'a list \<times> bool" where
  "cut_at s sep = (case index_of sep s of
      Some i \<Rightarrow> (take i s, drop (i + length sep) s, True)
    | None \<Rightarrow> (s, [], False))"

text \<open>
  \<open>strings.TrimSpace\<close> removes the code points of Unicode's \<open>White_Space\<close> property at both
  ends; the list holds their UTF-8 encodings.
\<close>

definition white_space :: "string list" where
  "white_space =
     [[TAB], [LF], [CHR 0x0B], [CHR 0x0C], [CR], [SPACE],
      [CHR 0xC2, CHR 0x85], [CHR 0xC2, CHR 0xA0], [CHR 0xE1, CHR 0x9A, CHR 0x80],
      [CHR 0xE2, CHR 0x80, CHR 0x80], [CHR 0xE2, CHR 0x80, CHR 0x81],
      [CHR 0xE2, CHR 0x80, CHR 0x82], [CHR 0xE2, CHR 0x80, CHR 0x83],
      [CHR 0xE2, CHR 0x80, CHR 0x84], [CHR 0xE2, CHR 0x80, CHR 0x85],
      [CHR 0xE2, CHR 0x80, CHR 0x86], [CHR 0xE2, CHR 0x80, CHR 0x87],
      [CHR 0xE2, CHR 0x80, CHR 0x88], [CHR 0xE2, CHR 0x80, CHR 0x89],
      [CHR 0xE2, CHR 0x80, CHR 0x8A], [CHR 0xE2, CHR 0x80, CHR 0xA8],
      [CHR 0xE2, CHR 0x80, CHR 0xA9], [CHR 0xE2, CHR 0x80, CHR 0xAF],
      [CHR 0xE2, CHR 0x81, CHR 0x9F], [CHR 0xE3, CHR 0x80, CHR 0x80]]"

function strip_any :: "string list \<Rightarrow> string \<Rightarrow> string" where
  "strip_any ws s =
     (case List.find (\<lambda>w. w \<noteq> [] \<and> has_prefix s w) ws of
        None \<Rightarrow> s
      | Some w \<Rightarrow> strip_any ws (drop (length w) s))"
  by pat_completeness auto
termination
  by (relation "measure (\<lambda>(ws, s). length s)") (auto simp: find_Some_iff has_prefix_iff)

declare strip_any.simps [simp del]

definition trim_space :: "string \<Rightarrow> string" where
  "trim_space s = rev (strip_any (map rev white_space) (rev (strip_any white_space s)))"

lemma strip_any_suffix: "\<exists>r. s = r @ strip_any ws s"
proof (induction ws s rule: strip_any.induct)
  case (1 ws s)
  show ?case
  proof (cases "List.find (\<lambda>w. w \<noteq> [] \<and> has_prefix s w) ws")
    case None
    then show ?thesis by (simp add: strip_any.simps [of ws s])
  next
    case (Some w)
    obtain r where "drop (length w) s = r @ strip_any ws (drop (length w) s)"
      using "1.IH" [OF Some] by blast
    then have "s = (take (length w) s @ r) @ strip_any ws (drop (length w) s)"
      by (metis append.assoc append_take_drop_id)
    moreover have "strip_any ws s = strip_any ws (drop (length w) s)"
      using Some by (simp add: strip_any.simps [of ws s])
    ultimately show ?thesis by metis
  qed
qed

lemma trim_space_infix: "\<exists>l r. s = l @ trim_space s @ r"
proof -
  obtain l where l: "s = l @ strip_any white_space s"
    using strip_any_suffix by blast
  obtain r where "rev (strip_any white_space s) = r @ rev (trim_space s)"
    using strip_any_suffix [of "rev (strip_any white_space s)"] by (auto simp: trim_space_def)
  then have "strip_any white_space s = trim_space s @ rev r"
    by (metis rev_append rev_rev_ident)
  with l show ?thesis by (metis append.assoc)
qed

lemma set_trim_space: "set (trim_space s) \<subseteq> set s"
  using trim_space_infix [of s] by (metis Un_iff set_append subsetI)

section \<open>Lists and association lists\<close>

lemma map_of_update [simp]: "map_of (AList.update k v m) = (map_of m)(k \<mapsto> v)"
  by (rule update_conv')

lemma map_of_delete [simp]: "map_of (AList.delete k m) = (map_of m)(k := None)"
  by (rule delete_conv')

text \<open>A Go \<open>range\<close> copy of one map into another, in any iteration order.\<close>

definition put_all :: "('k \<times> 'v) list \<Rightarrow> ('k \<times> 'v) list \<Rightarrow> ('k \<times> 'v) list" where
  "put_all m kvs = fold (\<lambda>(k, v) acc. AList.update k v acc) kvs m"

lemma put_all_Nil [simp]: "put_all m [] = m"
  by (simp add: put_all_def)

lemma put_all_Cons [simp]: "put_all m ((k, v) # kvs) = put_all (AList.update k v m) kvs"
  by (simp add: put_all_def)

lemma map_of_put_all:
  "distinct (map fst kvs) \<Longrightarrow> map_of (put_all m kvs) = map_of m ++ map_of kvs"
proof (induction kvs arbitrary: m)
  case (Cons kv kvs)
  obtain k v where kv: "kv = (k, v)" by (cases kv)
  with Cons.prems have "k \<notin> fst ` set kvs" by auto
  then have "map_of kvs k = None" by (simp add: map_of_eq_None_iff)
  then have "(map_of m)(k \<mapsto> v) ++ map_of kvs = map_of m ++ (map_of kvs)(k \<mapsto> v)"
    by (auto simp: fun_eq_iff map_add_def split: option.splits)
  moreover have "map_of (put_all m (kv # kvs)) = (map_of m)(k \<mapsto> v) ++ map_of kvs"
    using Cons kv by simp
  moreover have "map_of (kv # kvs) = (map_of kvs)(k \<mapsto> v)"
    using kv by simp
  ultimately show ?case by (simp only:)
qed simp

lemma sum_list_concat_append:
  "foldl (\<lambda>a x. a @ f x) z xs = z @ concat (map f xs)"
  by (induction xs arbitrary: z) auto

section \<open>Digits\<close>

definition is_digit :: "char \<Rightarrow> bool" where
  "is_digit c \<longleftrightarrow> 48 \<le> (of_char c :: nat) \<and> (of_char c :: nat) \<le> 57"

definition digit_char :: "nat \<Rightarrow> char" where
  "digit_char d = char_of (48 + d)"

text \<open>\<open>strconv.Itoa\<close> on naturals, and the value of a digit string.\<close>

fun show_nat :: "nat \<Rightarrow> string" where
  "show_nat n = (if n < 10 then [digit_char n] else show_nat (n div 10) @ [digit_char (n mod 10)])"

declare show_nat.simps [simp del]

definition decimal :: "string \<Rightarrow> nat" where
  "decimal ds = foldl (\<lambda>n c. n * 10 + (of_char c - 48)) 0 ds"

lemma decimal_snoc: "decimal (ds @ [c]) = decimal ds * 10 + (of_char c - 48)"
  by (simp add: decimal_def)

lemma of_char_digit: "d < 10 \<Longrightarrow> of_char (digit_char d) = 48 + d"
  by (simp add: digit_char_def)

lemma decimal_show_nat [simp]: "decimal (show_nat n) = n"
proof (induction n rule: show_nat.induct)
  case (1 n)
  show ?case
  proof (cases "n < 10")
    case True
    then show ?thesis by (simp add: show_nat.simps [of n] decimal_def of_char_digit)
  next
    case False
    then have "decimal (show_nat n) = n div 10 * 10 + n mod 10"
      using 1 by (simp add: show_nat.simps [of n] decimal_snoc of_char_digit)
    then show ?thesis by simp
  qed
qed

lemma show_nat_digits: "list_all is_digit (show_nat n) \<and> show_nat n \<noteq> []"
proof (induction n rule: show_nat.induct)
  case (1 n)
  have "is_digit (digit_char d)" if "d < 10" for d
    using that by (simp add: is_digit_def of_char_digit)
  with 1 show ?case by (auto simp: show_nat.simps [of n])
qed

section \<open>Quoting\<close>

text \<open>
  \<open>strconv.Quote\<close> (the \<open>%q\<close> verb) on text whose non-ASCII characters are valid and printable.
\<close>

definition hex_digit :: "nat \<Rightarrow> char" where
  "hex_digit d = (if d < 10 then digit_char d else char_of (87 + d))"

definition quote_char :: "char \<Rightarrow> string" where
  "quote_char c =
     (if c = QUOTE \<or> c = BSLASH then [BSLASH, c]
      else case map_of (zip [7, 8, 12, 10, 13, 9, 11] ''abfnrtv'') (of_char c :: nat) of
        Some e \<Rightarrow> [BSLASH, e]
      | None \<Rightarrow>
          let n = of_char c in
          if n < 32 \<or> n = (127 :: nat) then [BSLASH, CHR ''x'', hex_digit (n div 16), hex_digit (n mod 16)]
          else [c])"

definition go_quote :: "string \<Rightarrow> string" where
  "go_quote s = QUOTE # concat (map quote_char s) @ [QUOTE]"

text \<open>\<open>strings.Join\<close>.\<close>

fun join_with :: "string \<Rightarrow> string list \<Rightarrow> string" where
  "join_with sep [] = []"
| "join_with sep [x] = x"
| "join_with sep (x # y # xs) = x @ sep @ join_with sep (y # xs)"

end
