(* ===== verification/GoValues.thy ===== *)
theory GoValues
  imports Prelude "HOL-Library.Word"
begin

text \<open>
  The values that Go code passes around without a static type: \<open>error\<close> interface values
  with their wrapping chain (what \<open>errors.As\<close> and \<open>errors.Is\<close> walk), panic values, and the
  dynamic \<open>any\<close> values of \<open>map[string]any\<close> (provider options, chunk metadata, decoded
  JSON). Each constructor of \<open>any\<close> is one dynamic type the modelled code tests for; a
  \<open>float64\<close> is its shortest decimal notation without exponent, \<open>None\<close> in \<open>AMapList\<close> a nil map.
\<close>

section \<open>Errors and panics\<close>

type_synonym go_headers = "(string \<times> string) list"

record api_error =
  Message :: string
  StatusCode :: int
  IsRetryable :: bool
  ResponseBody :: string
  ResponseHeaders :: go_headers

record overflow_error =
  OverflowMessage :: string
  OverflowBody :: string

text \<open>
  \<open>ErrWrap msg e\<close> is \<open>fmt.Errorf\<close> with one \<open>%w\<close> verb: \<open>msg\<close> is the whole message and
  \<open>e\<close> the wrapped error. \<open>ErrNet\<close> is any error implementing \<open>net.Error\<close>.
\<close>

datatype go_error =
    ErrMsg string
  | ErrWrap string go_error
  | ErrAPI api_error
  | ErrContextOverflow overflow_error
  | ErrPanic string go_panic
  | ErrContextCanceled
  | ErrDeadlineExceeded
  | ErrNet string
  | ErrUnknownTool
  | ErrEOF
  | ErrUnexpectedEOF
  | ErrNoProgress
and go_panic =
    PanicError go_error
  | PanicValue string

text \<open>\<open>errors.Unwrap\<close>: a \<open>PanicError\<close> unwraps to its value when that is an error.\<close>

fun Unwrap :: "go_error \<Rightarrow> go_error option" where
  "Unwrap (ErrWrap _ e) = Some e"
| "Unwrap (ErrPanic _ (PanicError e)) = Some e"
| "Unwrap _ = None"

text \<open>The error and everything it wraps, outermost first: what \<open>errors.As\<close> inspects.\<close>

fun error_chain :: "go_error \<Rightarrow> go_error list" where
  "error_chain (ErrWrap m e) = ErrWrap m e # error_chain e"
| "error_chain (ErrPanic p (PanicError e)) = ErrPanic p (PanicError e) # error_chain e"
| "error_chain e = [e]"

lemma error_chain_unfold:
  "error_chain e = e # (case Unwrap e of None \<Rightarrow> [] | Some e' \<Rightarrow> error_chain e')"
  by (cases e rule: error_chain.cases) simp_all

fun first_some :: "('a \<Rightarrow> 'b option) \<Rightarrow> 'a list \<Rightarrow> 'b option" where
  "first_some f [] = None"
| "first_some f (x # xs) = (case f x of Some y \<Rightarrow> Some y | None \<Rightarrow> first_some f xs)"

lemma first_some_Some: "first_some f xs = Some y \<Longrightarrow> \<exists>x\<in>set xs. f x = Some y"
  by (induction xs) (auto split: option.splits)

lemma first_some_None: "first_some f xs = None \<longleftrightarrow> (\<forall>x\<in>set xs. f x = None)"
  by (induction xs) (auto split: option.splits)

definition as_APIError :: "go_error \<Rightarrow> api_error option" where
  "as_APIError e = first_some (\<lambda>x. case x of ErrAPI a \<Rightarrow> Some a | _ \<Rightarrow> None) (error_chain e)"

definition as_PanicError :: "go_error \<Rightarrow> (string \<times> go_panic) option" where
  "as_PanicError e = first_some (\<lambda>x. case x of ErrPanic p v \<Rightarrow> Some (p, v) | _ \<Rightarrow> None) (error_chain e)"

definition error_is :: "go_error \<Rightarrow> go_error \<Rightarrow> bool" where
  "error_is e target \<longleftrightarrow> target \<in> set (error_chain e)"

text \<open>\<open>context.DeadlineExceeded\<close> implements \<open>net.Error\<close> too.\<close>

definition is_net_Error :: "go_error \<Rightarrow> bool" where
  "is_net_Error e \<longleftrightarrow>
     list_ex (\<lambda>x. case x of ErrNet _ \<Rightarrow> True | ErrDeadlineExceeded \<Rightarrow> True | _ \<Rightarrow> False) (error_chain e)"

fun error_text :: "go_error \<Rightarrow> string" where
  "error_text (ErrMsg m) = m"
| "error_text (ErrWrap m _) = m"
| "error_text (ErrAPI a) = Message a"
| "error_text (ErrContextOverflow x) = OverflowMessage x"
| "error_text (ErrPanic phase _) = ''goai: panic in '' @ phase"
| "error_text ErrContextCanceled = ''context canceled''"
| "error_text ErrDeadlineExceeded = ''context deadline exceeded''"
| "error_text (ErrNet m) = m"
| "error_text ErrUnknownTool = ''goai: unknown tool''"
| "error_text ErrEOF = ''EOF''"
| "error_text ErrUnexpectedEOF = ''unexpected EOF''"
| "error_text ErrNoProgress = ''multiple Read calls return no data or error''"

lemma as_APIError_simps [simp]:
  "as_APIError (ErrAPI a) = Some a"
  "as_APIError (ErrWrap m e) = as_APIError e"
  "as_APIError (ErrMsg m) = None"
  "as_APIError ErrContextCanceled = None"
  "as_APIError ErrDeadlineExceeded = None"
  "as_APIError (ErrNet m) = None"
  "as_APIError (ErrContextOverflow x) = None"
  "as_APIError ErrUnknownTool = None"
  by (simp_all add: as_APIError_def)

lemma as_PanicError_simps [simp]:
  "as_PanicError (ErrPanic p v) = Some (p, v)"
  "as_PanicError (ErrWrap m e) = as_PanicError e"
  "as_PanicError (ErrMsg m) = None"
  by (cases v; simp add: as_PanicError_def)+

lemma error_is_refl [simp]: "error_is e e"
  by (subst error_is_def, subst error_chain_unfold) simp

lemma error_is_wrap [simp]: "error_is e t \<Longrightarrow> error_is (ErrWrap m e) t"
  by (simp add: error_is_def)

section \<open>Dynamic values\<close>

datatype any =
    ANil
  | ABool bool
  | AInt int
  | AFloat string
  | AStr string
  | AList "any list"
  | AStrList "string list"
  | AMap "(string \<times> any) list"
  | AMapList "(string \<times> any) list option list"
  | AMetaMap "(string \<times> (string \<times> any) list) list"
  | AStrMap "(string \<times> string) list"
  | ASource source
  | ASources "source list"
  | AToolResults "(string \<times> string \<times> string \<times> go_error option \<times> bool) list"
and source =
    Source (srcID: string) (srcType: string) (srcURL: string) (srcTitle: string)
      (srcStartIndex: int) (srcEndIndex: int) (srcProviderMetadata: "(string \<times> any) list")

type_synonym anymap = "(string \<times> any) list"
type_synonym metamap = "(string \<times> anymap) list"

text \<open>Go's \<open>int(f)\<close> of a decoded number, from its decimal notation.\<close>

definition float_trunc :: "string \<Rightarrow> int" where
  "float_trunc f =
     (if has_prefix f ''-'' then - int (decimal (takeWhile is_digit (drop 1 f)))
      else int (decimal (takeWhile is_digit f)))"

text \<open>The type assertions \<open>m[k].(T)\<close> with the comma-ok form.\<close>

definition get_str :: "anymap \<Rightarrow> string \<Rightarrow> string option" where
  "get_str m k = (case map_of m k of Some (AStr s) \<Rightarrow> Some s | _ \<Rightarrow> None)"

definition get_bool :: "anymap \<Rightarrow> string \<Rightarrow> bool option" where
  "get_bool m k = (case map_of m k of Some (ABool b) \<Rightarrow> Some b | _ \<Rightarrow> None)"

definition get_map :: "anymap \<Rightarrow> string \<Rightarrow> anymap option" where
  "get_map m k = (case map_of m k of Some (AMap b) \<Rightarrow> Some b | _ \<Rightarrow> None)"

definition get_list :: "anymap \<Rightarrow> string \<Rightarrow> any list option" where
  "get_list m k = (case map_of m k of Some (AList b) \<Rightarrow> Some b | _ \<Rightarrow> None)"

definition get_source :: "anymap \<Rightarrow> string \<Rightarrow> source option" where
  "get_source m k = (case map_of m k of Some (ASource s) \<Rightarrow> Some s | _ \<Rightarrow> None)"

definition get_sources :: "anymap \<Rightarrow> string \<Rightarrow> source list option" where
  "get_sources m k = (case map_of m k of Some (ASources s) \<Rightarrow> Some s | _ \<Rightarrow> None)"

definition get_metamap :: "anymap \<Rightarrow> string \<Rightarrow> metamap option" where
  "get_metamap m k = (case map_of m k of Some (AMetaMap s) \<Rightarrow> Some s | _ \<Rightarrow> None)"

definition has_key :: "('k \<times> 'v) list \<Rightarrow> 'k \<Rightarrow> bool" where
  "has_key m k \<longleftrightarrow> map_of m k \<noteq> None"

lemmas get_defs = get_str_def get_bool_def get_map_def get_list_def get_source_def
  get_sources_def get_metamap_def has_key_def

lemma get_Nil [simp]:
  "get_str [] k = None" "get_bool [] k = None" "get_map [] k = None" "get_source [] k = None"
  "get_sources [] k = None" "get_metamap [] k = None" "get_list [] k = None" "\<not> has_key [] k"
  by (simp_all add: get_defs)

lemma get_str_update [simp]:
  "get_str (AList.update k v m) k' =
     (if k = k' then (case v of AStr s \<Rightarrow> Some s | _ \<Rightarrow> None) else get_str m k')"
  by (simp add: get_str_def)

lemma has_key_update [simp]: "has_key (AList.update k v m) k' \<longleftrightarrow> k = k' \<or> has_key m k'"
  by (simp add: has_key_def)

lemma has_key_delete [simp]: "has_key (AList.delete k m) k' \<longleftrightarrow> k \<noteq> k' \<and> has_key m k'"
  by (simp add: has_key_def)

text \<open>Two maps are the same Go map when every lookup agrees.\<close>

definition same_map :: "('k \<times> 'v) list \<Rightarrow> ('k \<times> 'v) list \<Rightarrow> bool" where
  "same_map m n \<longleftrightarrow> map_of m = map_of n"

end
