(* ===== verification/PartialJson.thy ===== *)
theory PartialJson
  imports GoValues
begin

text \<open>
  Repair of truncated JSON (\<open>src/partial_json.go\<close>): \<open>repairJSON\<close> scans the text once with a
  bracket stack, closes an open string, completes a cut keyword or number, drops a dangling
  key, and closes the open brackets. \<open>StreamObject\<close> parses every prefix of a growing
  document this way. The specification side is \<open>nest\<close>, an independent bracket automaton.
\<close>

section \<open>The scanner\<close>

definition maxJSONDepth :: nat where "maxJSONDepth = 512"

record scan =
  buf :: string
  stack :: "char list" \<comment> \<open>innermost opening bracket first\<close>
  inString :: bool
  escaped :: bool

definition scan_init :: scan where
  "scan_init = \<lparr>buf = [], stack = [], inString = False, escaped = False\<rparr>"

abbreviation WriteByte :: "char \<Rightarrow> scan \<Rightarrow> scan" where
  "WriteByte c st \<equiv> st\<lparr>buf := buf st @ [c]\<rparr>"

text \<open>
  The body of the loop for one byte: \<^const>\<open>None\<close> is Go's \<open>goto closeAll\<close> at the depth
  limit, and a closer that does not match the innermost bracket is not written.
\<close>

definition scan_step :: "scan \<Rightarrow> char \<Rightarrow> scan option" where
  "scan_step st c =
     (if escaped st then Some ((WriteByte c st)\<lparr>escaped := False\<rparr>)
      else if inString st then
        (if c = BSLASH then Some ((WriteByte c st)\<lparr>escaped := True\<rparr>)
         else if c = QUOTE then Some ((WriteByte c st)\<lparr>inString := False\<rparr>)
         else Some (WriteByte c st))
      else if c = QUOTE then Some ((WriteByte c st)\<lparr>inString := True\<rparr>)
      else if c = CHR ''{'' \<or> c = CHR ''['' then
        (if maxJSONDepth \<le> length (stack st) then None
         else Some ((WriteByte c st)\<lparr>stack := c # stack st\<rparr>))
      else if c = CHR ''}'' then
        (if stack st \<noteq> [] \<and> hd (stack st) = CHR ''{''
         then Some ((WriteByte c st)\<lparr>stack := tl (stack st)\<rparr>) else Some st)
      else if c = CHR '']'' then
        (if stack st \<noteq> [] \<and> hd (stack st) = CHR ''[''
         then Some ((WriteByte c st)\<lparr>stack := tl (stack st)\<rparr>) else Some st)
      else Some (WriteByte c st))"

fun scan_loop :: "scan \<Rightarrow> string \<Rightarrow> scan" where
  "scan_loop st [] = st"
| "scan_loop st (c # cs) =
     (case scan_step st c of None \<Rightarrow> st | Some st' \<Rightarrow> scan_loop st' cs)"

lemma scan_loop_invariant:
  assumes "P st" and "\<And>st c st'. c \<in> set s \<Longrightarrow> P st \<Longrightarrow> scan_step st c = Some st' \<Longrightarrow> P st'"
  shows "P (scan_loop st s)"
  using assms by (induction s arbitrary: st) (auto split: option.split)

section \<open>Closing an open string\<close>

text \<open>
  A trailing lone backslash is dropped, then an incomplete \<open>\uXXXX\<close> escape, unless the
  backslash before the \<open>u\<close> is itself escaped.
\<close>

definition close_string :: "scan \<Rightarrow> string" where
  "close_string st =
     (let result = buf st in
      if inString st \<or> escaped st then
        let r1 = (if escaped st \<and> result \<noteq> [] \<and> last result = BSLASH
                  then butlast result else result);
            r2 = (case last_index [BSLASH, CHR ''u''] r1 of
                    None \<Rightarrow> r1
                  | Some idx \<Rightarrow>
                      if length (drop idx r1) < 6 \<and>
                         odd (1 + length (takeWhile (\<lambda>c. c = BSLASH) (rev (take idx r1))))
                      then take idx r1 else r1)
        in r2 @ [QUOTE]
      else result)"

section \<open>Completing keywords and numbers\<close>

definition json_ws :: string where "json_ws = [SPACE, TAB, LF, CR]"

definition word_boundary :: "string \<Rightarrow> nat \<Rightarrow> bool" where
  "word_boundary trimmed n =
     (let pos = length trimmed - n in
      pos = 0 \<or> trimmed ! (pos - 1) \<in> set [CHR '':'', CHR '','', CHR ''['', CHR ''{'', SPACE, TAB, LF])"

definition complete_keyword :: "string \<Rightarrow> string \<Rightarrow> string \<Rightarrow> string option" where
  "complete_keyword s trimmed kw =
     (if has_suffix trimmed kw
      then if word_boundary trimmed (length kw) then Some s else None
      else first_some
             (\<lambda>n. if has_suffix trimmed (take n kw) \<and> word_boundary trimmed n
                  then Some (take (length trimmed - n) trimmed @ kw) else None)
             [1..<length kw])"

definition completeTrailing :: "string \<Rightarrow> string" where
  "completeTrailing s =
     (let trimmed = trim_right json_ws s in
      if trimmed = [] then s
      else case first_some (complete_keyword s trimmed) [''true'', ''false'', ''null''] of
          Some r \<Rightarrow> r
        | None \<Rightarrow> if last trimmed \<in> set ''.-+eE'' then trimmed @ ''0'' else s)"

section \<open>Dropping an incomplete last entry\<close>

definition trimTrailingIncomplete :: "string \<Rightarrow> string" where
  "trimTrailingIncomplete s0 =
     (let s = trim_right json_ws s0 in
      if s = [] then s
      else if last s = CHR '','' then trim_right json_ws (butlast s)
      else if last s = CHR '':'' then
        (let k = trim_right json_ws (butlast s) in
         if k \<noteq> [] \<and> last k = QUOTE then
           (let k' = butlast k;
                k'' = (case last_index [QUOTE] k' of Some idx \<Rightarrow> take idx k' | None \<Rightarrow> k')
            in trim_right (json_ws @ '','') k'')
         else k)
      else if last s = QUOTE then
        (case last_index [QUOTE] (butlast s) of
           None \<Rightarrow> s
         | Some idx \<Rightarrow>
             (let front = trim_right json_ws (take idx s) in
              if front = [] then s
              else if last front = CHR ''{'' then front
              else if last front = CHR '','' then trim_right json_ws (butlast front)
              else s))
      else s)"

section \<open>repairJSON and parsePartialJSON\<close>

definition closer :: "char \<Rightarrow> char" where
  "closer c = (if c = CHR ''{'' then CHR ''}'' else CHR '']'')"

definition repairJSON :: "string \<Rightarrow> string" where
  "repairJSON s0 =
     (let s = trim_space s0 in
      if s = [] then ''{}''
      else
        let st = scan_loop scan_init s;
            result = completeTrailing (close_string st)
        in if stack st = [] then result
           else trimTrailingIncomplete result @ map closer (stack st))"

text \<open>\<open>unmarshal\<close> is \<open>json.Unmarshal\<close> into the caller's type.\<close>

definition parsePartialJSON :: "(string \<Rightarrow> go_error + 'a) \<Rightarrow> string \<Rightarrow> go_error + 'a" where
  "parsePartialJSON unmarshal incomplete =
     (case unmarshal incomplete of
        Inr v \<Rightarrow> Inr v
      | Inl _ \<Rightarrow> unmarshal (repairJSON incomplete))"

section \<open>The bracket automaton\<close>

text \<open>
  \<open>nest st m s\<close> reads \<open>s\<close> with open brackets \<open>st\<close> in lexical mode \<open>m\<close>; it fails on a
  closer that does not match and on nesting beyond \<^const>\<open>maxJSONDepth\<close>.
\<close>

datatype lexmode = Outside | InString | AfterBackslash

fun nest :: "char list \<Rightarrow> lexmode \<Rightarrow> string \<Rightarrow> (char list \<times> lexmode) option" where
  "nest st m [] = Some (st, m)"
| "nest st AfterBackslash (c # s) = nest st InString s"
| "nest st InString (c # s) =
     (if c = BSLASH then nest st AfterBackslash s
      else if c = QUOTE then nest st Outside s else nest st InString s)"
| "nest st Outside (c # s) =
     (if c = QUOTE then nest st InString s
      else if c = CHR ''{'' \<or> c = CHR ''['' then
        (if length st < maxJSONDepth then nest (c # st) Outside s else None)
      else if c = CHR ''}'' \<or> c = CHR '']'' then
        (if st \<noteq> [] \<and> closer (hd st) = c then nest (tl st) Outside s else None)
      else nest st Outside s)"

definition balanced :: "string \<Rightarrow> bool" where
  "balanced s \<longleftrightarrow> nest [] Outside s = Some ([], Outside)"

definition brackets :: "char set" where "brackets = {CHR ''{'', CHR ''[''}"

definition neutral :: "char \<Rightarrow> bool" where
  "neutral c \<longleftrightarrow> c \<notin> set [QUOTE, BSLASH, CHR ''{'', CHR ''['', CHR ''}'', CHR '']'']"

lemma nest_append: "nest st m (a @ b) = Option.bind (nest st m a) (\<lambda>(st', m'). nest st' m' b)"
  by (induction st m a rule: nest.induct) auto

lemma nest_neutral: "list_all neutral r \<Longrightarrow> m \<noteq> AfterBackslash \<Longrightarrow> nest st m r = Some (st, m)"
  by (induction r arbitrary: m; case_tac m) (auto simp: neutral_def)

lemma nest_after_backslash_neutral:
  "list_all neutral r \<Longrightarrow> nest st AfterBackslash r \<noteq> Some (st', Outside)"
  by (cases r) (auto simp: nest_neutral)

lemma nest_drop_neutral:
  assumes "nest st m (t @ r) = Some (stk, Outside)" "list_all neutral r"
  shows "nest st m t = Some (stk, Outside)"
proof -
  obtain st' m' where t: "nest st m t = Some (st', m')" and r: "nest st' m' r = Some (stk, Outside)"
    using assms(1) by (auto simp: nest_append split: Option.bind_splits)
  have "m' \<noteq> AfterBackslash"
    using nest_after_backslash_neutral [OF assms(2)] r by metis
  with t r nest_neutral [OF assms(2)] show ?thesis by simp
qed

lemma nest_add_neutral:
  "nest st m t = Some (stk, Outside) \<Longrightarrow> list_all neutral r \<Longrightarrow> nest st m (t @ r) = Some (stk, Outside)"
  by (simp add: nest_append nest_neutral)

lemma nest_no_escape:
  "BSLASH \<notin> set t \<Longrightarrow> m \<noteq> AfterBackslash \<Longrightarrow> nest st m t = Some (st', m') \<Longrightarrow> m' \<noteq> AfterBackslash"
  by (induction st m t rule: nest.induct) (auto split: if_splits)

lemma nest_in_string:
  "QUOTE \<notin> set b \<Longrightarrow> BSLASH \<notin> set b \<Longrightarrow> nest st InString b = Some (st, InString)"
  by (induction b) auto

lemma nest_out_no_quote:
  "QUOTE \<notin> set b \<Longrightarrow> nest st Outside b = Some (st', m) \<Longrightarrow> m = Outside"
  by (induction b arbitrary: st) (auto split: if_splits)

lemma nest_closers: "set stk \<subseteq> brackets \<Longrightarrow> nest stk Outside (map closer stk) = Some ([], Outside)"
  by (induction stk) (auto simp: brackets_def closer_def)

text \<open>The last string literal of a text that ends outside strings can be cut out whole.\<close>

lemma nest_cut_string:
  assumes "nest [] Outside (a @ QUOTE # b @ [QUOTE]) = Some (stk, Outside)"
    and "QUOTE \<notin> set b" "BSLASH \<notin> set (a @ b)"
  shows "nest [] Outside a = Some (stk, Outside)"
proof -
  obtain s1 m1 where a: "nest [] Outside a = Some (s1, m1)"
    and rest: "nest s1 m1 (QUOTE # b @ [QUOTE]) = Some (stk, Outside)"
    using assms(1) by (auto simp: nest_append split: Option.bind_splits)
  have "m1 \<noteq> AfterBackslash"
    using nest_no_escape [OF _ _ a] assms(3) by simp
  then consider "m1 = Outside" | "m1 = InString" by (cases m1) auto
  then show ?thesis
  proof cases
    case 1
    with rest assms have "s1 = stk" by (simp add: nest_append nest_in_string)
    with a 1 show ?thesis by simp
  next
    case 2
    with rest obtain s2 m2 where "nest s1 Outside b = Some (s2, m2)"
      and "nest s2 m2 [QUOTE] = Some (stk, Outside)"
      by (auto simp: nest_append split: Option.bind_splits)
    with nest_out_no_quote [OF assms(2)] show ?thesis by (force split: if_splits)
  qed
qed

section \<open>The scanner follows the automaton\<close>

fun mode_of :: "scan \<Rightarrow> lexmode" where
  "mode_of st = (if escaped st then AfterBackslash else if inString st then InString else Outside)"

definition scan_inv :: "scan \<Rightarrow> bool" where
  "scan_inv st \<longleftrightarrow> nest [] Outside (buf st) = Some (stack st, mode_of st) \<and>
     set (stack st) \<subseteq> brackets \<and> length (stack st) \<le> maxJSONDepth \<and> (escaped st \<longrightarrow> inString st)"

lemma scan_inv_init: "scan_inv scan_init"
  by (simp add: scan_inv_def scan_init_def)

lemma scan_inv_step:
  assumes inv: "scan_inv st" and step: "scan_step st c = Some st'"
  shows "scan_inv st'"
proof -
  have nest: "nest [] Outside (buf st) = Some (stack st, mode_of st)"
    and br: "set (stack st) \<subseteq> brackets" and len: "length (stack st) \<le> maxJSONDepth"
    and esc: "escaped st \<longrightarrow> inString st"
    using inv by (auto simp: scan_inv_def)
  show ?thesis
  proof (cases "inString st")
    case True
    with step nest br len show ?thesis
      by (auto simp: scan_step_def scan_inv_def nest_append split: if_splits)
  next
    case False
    then have out: "\<not> inString st" "\<not> escaped st" using esc by auto
    then have mode: "mode_of st = Outside" by simp
    show ?thesis
    proof (cases "stack st")
      case Nil
      with step nest br len out show ?thesis
        by (auto simp: scan_step_def scan_inv_def nest_append brackets_def split: if_splits)
    next
      case (Cons d ds)
      with br have "d = CHR ''{'' \<or> d = CHR ''[''" by (auto simp: brackets_def)
      with Cons step nest br len out show ?thesis
        by (auto simp: scan_step_def scan_inv_def nest_append brackets_def closer_def split: if_splits)
    qed
  qed
qed

lemma scan_inv_loop: "scan_inv st \<Longrightarrow> scan_inv (scan_loop st s)"
  by (rule scan_loop_invariant) (auto intro: scan_inv_step)

lemma scan_loop_no_escape: "BSLASH \<notin> set s \<Longrightarrow> \<not> escaped st \<Longrightarrow> \<not> escaped (scan_loop st s)"
  by (rule scan_loop_invariant [where P = "\<lambda>st. \<not> escaped st"])
     (auto simp: scan_step_def split: if_splits)

lemma scan_loop_bytes: "set (buf (scan_loop st s)) \<subseteq> set (buf st) \<union> set s"
  by (rule scan_loop_invariant [where P = "\<lambda>x. set (buf x) \<subseteq> set (buf st) \<union> set s"])
     (auto simp: scan_step_def split: if_splits)

lemma close_string_nest:
  assumes "scan_inv st" "BSLASH \<notin> set (buf st)" "\<not> escaped st"
  shows "nest [] Outside (close_string st) = Some (stack st, Outside)"
    and "BSLASH \<notin> set (close_string st)"
proof -
  have "last_index [BSLASH, CHR ''u''] (buf st) \<noteq> Some i" for i
    using assms(2) by (metis has_prefix_iff in_set_dropD last_index_Some_prefix list.set_intros(1)
        not_None_eq set_append UnI1)
  then have "last_index [BSLASH, CHR ''u''] (buf st) = None" by blast
  then have "close_string st = buf st @ (if inString st then [QUOTE] else [])"
    using assms(3) by (simp add: close_string_def Let_def)
  with assms show "nest [] Outside (close_string st) = Some (stack st, Outside)"
    and "BSLASH \<notin> set (close_string st)"
    by (auto simp: scan_inv_def nest_append)
qed

lemma neutral_json_ws: "set r \<subseteq> set (json_ws @ '','') \<Longrightarrow> list_all neutral r"
  by (auto simp: list_all_iff neutral_def json_ws_def)

lemma nest_trim_right:
  assumes "nest [] Outside t = Some (stk, Outside)" "set cs \<subseteq> set (json_ws @ '','')"
  shows "nest [] Outside (trim_right cs t) = Some (stk, Outside)"
proof -
  obtain r where r: "t = trim_right cs t @ r" and sub: "set r \<subseteq> set cs"
    by (rule trim_right_splitE)
  have "list_all neutral r"
    by (rule neutral_json_ws [OF subset_trans [OF sub assms(2)]])
  moreover have "nest [] Outside (trim_right cs t @ r) = Some (stk, Outside)"
    using assms(1) by (simp flip: r)
  ultimately show ?thesis by (rule nest_drop_neutral [rotated])
qed

lemma nest_butlast:
  assumes "nest [] Outside t = Some (stk, Outside)" "t \<noteq> []" "neutral (last t)"
  shows "nest [] Outside (butlast t) = Some (stk, Outside)"
  using assms nest_drop_neutral [of "[]" Outside "butlast t" "[last t]"] by simp

lemma complete_keyword_nest:
  assumes nest: "nest [] Outside s = Some (stk, Outside)"
    and trimmed: "trimmed = trim_right json_ws s" and kw: "list_all neutral kw"
    and res: "complete_keyword s trimmed kw = Some r"
  shows "nest [] Outside r = Some (stk, Outside)"
proof (cases "has_suffix trimmed kw")
  case True
  with res nest show ?thesis by (auto simp: complete_keyword_def split: if_splits)
next
  case False
  from False res obtain n where n: "has_suffix trimmed (take n kw)" "n < length kw"
    and r: "r = take (length trimmed - n) trimmed @ kw"
    by (auto simp: complete_keyword_def dest!: first_some_Some split: if_splits)
  have "trimmed = take (length trimmed - n) trimmed @ take n kw"
    using n by (metis append_take_drop_id has_suffix_def length_take min.absorb4)
  moreover have "nest [] Outside trimmed = Some (stk, Outside)"
    using nest trimmed nest_trim_right by auto
  moreover have "list_all neutral (take n kw)"
    using kw by (auto simp: list_all_iff dest: in_set_takeD)
  ultimately have "nest [] Outside (take (length trimmed - n) trimmed) = Some (stk, Outside)"
    using nest_drop_neutral by metis
  with r kw nest_add_neutral show ?thesis by blast
qed

lemma completeTrailing_nest:
  assumes "nest [] Outside s = Some (stk, Outside)"
  shows "nest [] Outside (completeTrailing s) = Some (stk, Outside)"
proof -
  let ?t = "trim_right json_ws s"
  have kws: "list_all neutral ''true''" "list_all neutral ''false''" "list_all neutral ''null''"
    by (simp_all add: neutral_def)
  have kw: "complete_keyword s ?t k = Some r \<Longrightarrow> k \<in> {''true'', ''false'', ''null''} \<Longrightarrow>
      nest [] Outside r = Some (stk, Outside)" for k r
    using complete_keyword_nest [OF assms refl] kws by blast
  have t: "nest [] Outside ?t = Some (stk, Outside)"
    by (rule nest_trim_right [OF assms]) auto
  have "list_all neutral ''0''" by (simp add: neutral_def)
  with t have num: "nest [] Outside (?t @ ''0'') = Some (stk, Outside)"
    by (rule nest_add_neutral)
  show ?thesis
    using assms num kw by (auto simp: completeTrailing_def Let_def split: option.splits)
qed

lemma completeTrailing_plain:
  assumes "BSLASH \<notin> set s"
  shows "BSLASH \<notin> set (completeTrailing s)"
proof -
  have trim: "BSLASH \<notin> set (trim_right json_ws s)"
    by (rule trim_right_splitE [of s json_ws]) (use assms in \<open>metis UnI1 set_append\<close>)
  have "BSLASH \<notin> set r" if "complete_keyword s (trim_right json_ws s) kw = Some r"
    and "BSLASH \<notin> set kw" for kw r
    using that assms trim
    by (auto simp: complete_keyword_def split: if_splits dest!: first_some_Some in_set_takeD)
  with assms trim show ?thesis
    by (auto simp: completeTrailing_def Let_def split: option.splits dest!: first_some_Some)
qed

lemma nest_cut_last:
  assumes nest: "nest [] Outside (u @ [QUOTE]) = Some (stk, Outside)" and plain: "BSLASH \<notin> set u"
  obtains idx where "last_index [QUOTE] u = Some idx"
    and "nest [] Outside (take idx u) = Some (stk, Outside)"
proof (cases "last_index [QUOTE] u")
  case None
  then have "QUOTE \<notin> set u" by (simp add: last_index_single_None)
  then show ?thesis
    using nest nest_out_no_quote by (force simp: nest_append split: Option.bind_splits)
next
  case (Some idx)
  let ?a = "take idx u" and ?b = "drop (Suc idx) u"
  have "u @ [QUOTE] = ?a @ QUOTE # ?b @ [QUOTE]"
    by (subst last_index_single_split [OF Some]) simp
  with nest have "nest [] Outside (?a @ QUOTE # ?b @ [QUOTE]) = Some (stk, Outside)" by simp
  moreover have "BSLASH \<notin> set (?a @ ?b)"
    using plain by (auto dest!: in_set_takeD in_set_dropD)
  ultimately have "nest [] Outside ?a = Some (stk, Outside)"
    using last_index_single_rest [OF Some] nest_cut_string by blast
  with Some show ?thesis by (rule that)
qed

lemma nest_cut_literal:
  assumes "nest [] Outside t = Some (stk, Outside)" "BSLASH \<notin> set t" "t \<noteq> []" "last t = QUOTE"
  obtains idx where "last_index [QUOTE] (butlast t) = Some idx"
    and "nest [] Outside (take idx (butlast t)) = Some (stk, Outside)"
proof (rule nest_cut_last)
  have "butlast t @ [QUOTE] = t" using assms(3,4) append_butlast_last_id by metis
  with assms(1) show "nest [] Outside (butlast t @ [QUOTE]) = Some (stk, Outside)" by simp
  show "BSLASH \<notin> set (butlast t)" using assms(2) by (auto dest: in_set_butlastD)
qed (rule that)

lemma trimTrailingIncomplete_nest:
  assumes "nest [] Outside t = Some (stk, Outside)" "BSLASH \<notin> set t"
  shows "nest [] Outside (trimTrailingIncomplete t) = Some (stk, Outside)"
proof -
  have sep: "neutral (CHR '','')" "neutral (CHR '':'')" by (simp_all add: neutral_def)
  have trim: "nest [] Outside x = Some (stk, Outside) \<Longrightarrow>
      nest [] Outside (trim_right json_ws x) = Some (stk, Outside)" for x
    by (rule nest_trim_right) auto
  have trim_comma: "nest [] Outside x = Some (stk, Outside) \<Longrightarrow>
      nest [] Outside (trim_right (json_ws @ '','') x) = Some (stk, Outside)" for x
    by (rule nest_trim_right) auto
  have sub: "BSLASH \<notin> set x \<Longrightarrow> BSLASH \<notin> set (trim_right json_ws x)" for x
    by (rule trim_right_splitE [of x json_ws]) (metis UnI1 set_append)
  define s where "s = trim_right json_ws t"
  have s: "nest [] Outside s = Some (stk, Outside)" "BSLASH \<notin> set s"
    using assms trim sub by (simp_all add: s_def)
  consider "s = []" | "s \<noteq> []" "last s = CHR '',''" | "s \<noteq> []" "last s = CHR '':''"
    | "s \<noteq> []" "last s = QUOTE" | "s \<noteq> []" "last s \<notin> {CHR '','', CHR '':'', QUOTE}"
    by blast
  then show ?thesis
  proof cases
    case 2
    with s sep trim nest_butlast [OF s(1)] show ?thesis
      by (simp add: trimTrailingIncomplete_def flip: s_def)
  next
    case 3
    define k where "k = trim_right json_ws (butlast s)"
    have k: "nest [] Outside k = Some (stk, Outside)" "BSLASH \<notin> set k"
      unfolding k_def using s 3 sep trim sub nest_butlast [OF s(1)]
      by (auto dest: in_set_butlastD)
    show ?thesis
    proof (cases "k \<noteq> [] \<and> last k = QUOTE")
      case True
      then obtain idx where "last_index [QUOTE] (butlast k) = Some idx"
        and "nest [] Outside (take idx (butlast k)) = Some (stk, Outside)"
        by - (rule nest_cut_literal [OF k], auto)
      with True 3 trim_comma show ?thesis
        by (simp add: trimTrailingIncomplete_def flip: s_def k_def)
    next
      case False
      with 3 k show ?thesis
        by (auto simp: trimTrailingIncomplete_def simp flip: s_def k_def)
    qed
  next
    case 4
    then obtain idx where idx: "last_index [QUOTE] (butlast s) = Some idx"
      and cut: "nest [] Outside (take idx (butlast s)) = Some (stk, Outside)"
      by - (rule nest_cut_literal [OF s], auto)
    have "take idx (butlast s) = take idx s"
      using last_index_single_less [OF idx] by (simp add: take_butlast)
    with cut trim have front: "nest [] Outside (trim_right json_ws (take idx s)) = Some (stk, Outside)"
      by simp
    show ?thesis
      using 4 idx s front nest_butlast [OF front] sep trim
      by (auto simp: trimTrailingIncomplete_def Let_def simp flip: s_def)
  qed (use s in \<open>auto simp: trimTrailingIncomplete_def simp flip: s_def\<close>)
qed

section \<open>Correctness\<close>

text \<open>
  C28: whatever truncated text without escape sequences the repair is given, its output is
  balanced: every string is closed, every bracket is closed in order, and nothing nests
  deeper than \<open>maxJSONDepth\<close>.
\<close>

theorem repairJSON_balanced:
  assumes "BSLASH \<notin> set s"
  shows "balanced (repairJSON s)"
proof (cases "trim_space s = []")
  case True
  have "balanced ''{}''" by (simp add: balanced_def maxJSONDepth_def closer_def)
  with True show ?thesis by (simp add: repairJSON_def)
next
  case False
  define st where "st = scan_loop scan_init (trim_space s)"
  define result where "result = completeTrailing (close_string st)"
  have plain: "BSLASH \<notin> set (trim_space s)" using assms set_trim_space by blast
  have inv: "scan_inv st" unfolding st_def by (rule scan_inv_loop [OF scan_inv_init])
  have noesc: "\<not> escaped st" "BSLASH \<notin> set (buf st)"
    using plain scan_loop_no_escape scan_loop_bytes [of scan_init "trim_space s"]
    unfolding st_def by (auto simp: scan_init_def)
  note closed = close_string_nest [OF inv noesc(2,1)]
  have res: "nest [] Outside result = Some (stack st, Outside)"
    unfolding result_def by (rule completeTrailing_nest [OF closed(1)])
  have "BSLASH \<notin> set result"
    using completeTrailing_plain [OF closed(2)] by (simp add: result_def)
  with res have "nest [] Outside (trimTrailingIncomplete result) = Some (stack st, Outside)"
    by (rule trimTrailingIncomplete_nest)
  then have "nest [] Outside (trimTrailingIncomplete result @ map closer (stack st)) = Some ([], Outside)"
    using inv nest_closers by (simp add: nest_append scan_inv_def)
  with res False show ?thesis
    by (auto simp: repairJSON_def balanced_def Let_def st_def result_def)
qed

theorem repairJSON_balanced_witness:
  "BSLASH \<notin> set (''{'' @ [QUOTE] @ ''a'' @ [QUOTE] @ '':[1,tr'') \<and>
   balanced (repairJSON (''{'' @ [QUOTE] @ ''a'' @ [QUOTE] @ '':[1,tr''))"
proof -
  have h: "BSLASH \<notin> set (''{'' @ [QUOTE] @ ''a'' @ [QUOTE] @ '':[1,tr'')" by simp
  from h repairJSON_balanced [OF h] show ?thesis by blast
qed

text \<open>The scanner reads a well-formed text unchanged, escape sequences included.\<close>

lemma scan_step_brackets:
  "scan_step st c = Some st' \<Longrightarrow> set (stack st) \<subseteq> brackets \<Longrightarrow> set (stack st') \<subseteq> brackets"
  by (auto simp: scan_step_def brackets_def split: if_splits dest: list.set_sel(2))

lemma scan_step_nest:
  assumes "nest (stack st) (mode_of st) [c] = Some (stk, m)" "escaped st \<longrightarrow> inString st"
    "set (stack st) \<subseteq> brackets"
  obtains st' where "scan_step st c = Some st'" "buf st' = buf st @ [c]" "stack st' = stk"
    "mode_of st' = m" "escaped st' \<longrightarrow> inString st'"
proof (cases "inString st")
  case True
  with assms that show thesis by (auto simp: scan_step_def split: if_splits)
next
  case False
  then have out: "\<not> inString st" "\<not> escaped st" using assms(2) by auto
  show thesis
  proof (cases "stack st")
    case Nil
    with assms out that show thesis
      by (auto simp: scan_step_def brackets_def maxJSONDepth_def split: if_splits)
  next
    case (Cons d ds)
    with assms(3) have "d = CHR ''{'' \<or> d = CHR ''[''" by (auto simp: brackets_def)
    with Cons assms(1) out that show thesis
      by (auto simp: scan_step_def closer_def split: if_splits)
  qed
qed

lemma scan_loop_nest:
  assumes "nest (stack st) (mode_of st) t = Some (stk, m)" "escaped st \<longrightarrow> inString st"
    "set (stack st) \<subseteq> brackets"
  shows "buf (scan_loop st t) = buf st @ t \<and> stack (scan_loop st t) = stk \<and> mode_of (scan_loop st t) = m"
  using assms
proof (induction t arbitrary: st)
  case (Cons c t)
  obtain stk1 m1 where one: "nest (stack st) (mode_of st) [c] = Some (stk1, m1)"
    and rest: "nest stk1 m1 t = Some (stk, m)"
    using Cons.prems(1) nest_append [of "stack st" "mode_of st" "[c]" t]
    by (auto split: Option.bind_splits)
  obtain st' where st': "scan_step st c = Some st'" "buf st' = buf st @ [c]" "stack st' = stk1"
    "mode_of st' = m1" "escaped st' \<longrightarrow> inString st'"
    by (rule scan_step_nest [OF one Cons.prems(2,3)])
  with Cons.IH [of st'] rest scan_step_brackets [OF st'(1) Cons.prems(3)] show ?case by simp
qed simp

lemma completeTrailing_closed:
  assumes "s \<noteq> []" "last s \<in> {CHR ''}'', CHR '']'', QUOTE}"
  shows "completeTrailing s = s"
proof -
  have trimmed: "trim_right json_ws s = s"
    using assms by (intro trim_right_id) (auto simp: json_ws_def)
  have no_suffix: "\<not> has_suffix s p" if "p \<noteq> []" "last p \<notin> {CHR ''}'', CHR '']'', QUOTE}" for p
    using that assms(2) has_suffix_last [of s p] by auto
  have "complete_keyword s s kw = None" if "kw \<noteq> []" "set kw \<inter> {CHR ''}'', CHR '']'', QUOTE} = {}" for kw
  proof -
    have "\<not> has_suffix s (take n kw)" if "n \<in> {1..length kw}" for n
    proof (rule no_suffix)
      show ne: "take n kw \<noteq> []" using that \<open>kw \<noteq> []\<close> by (cases n) auto
      have "last (take n kw) \<in> set kw" using last_in_set [OF ne] by (rule in_set_takeD)
      then show "last (take n kw) \<notin> {CHR ''}'', CHR '']'', QUOTE}"
        using \<open>set kw \<inter> {CHR ''}'', CHR '']'', QUOTE} = {}\<close> by blast
    qed
    from this [of "length kw"] this show ?thesis
      using \<open>kw \<noteq> []\<close> by (auto simp: complete_keyword_def first_some_None Suc_le_eq)
  qed
  then have "complete_keyword s s ''true'' = None" "complete_keyword s s ''false'' = None"
    "complete_keyword s s ''null'' = None" by simp_all
  then show ?thesis
    using assms trimmed by (auto simp: completeTrailing_def)
qed

text \<open>
  C29: a complete document is left alone. A trimmed text that the bracket automaton accepts
  and that ends in a closing bracket or quote (so every JSON object, array or string nested at
  most \<open>maxJSONDepth\<close> deep, escape sequences included) is returned byte for byte.
\<close>

theorem repairJSON_complete:
  assumes "balanced s" "trim_space s = s" "s \<noteq> []" "last s \<in> {CHR ''}'', CHR '']'', QUOTE}"
  shows "repairJSON s = s"
proof -
  let ?st = "scan_loop scan_init s"
  have "buf ?st = buf scan_init @ s \<and> stack ?st = [] \<and> mode_of ?st = Outside"
    using assms(1) by (intro scan_loop_nest) (simp_all add: balanced_def scan_init_def)
  then have st: "buf ?st = s" "stack ?st = []" "mode_of ?st = Outside"
    by (simp_all add: scan_init_def)
  then have "close_string ?st = s"
    by (auto simp: close_string_def split: if_splits)
  with st completeTrailing_closed [OF assms(3,4)] assms(2,3) show ?thesis
    by (simp add: repairJSON_def)
qed

theorem repairJSON_complete_witness:
  "repairJSON (''{'' @ [QUOTE, BSLASH, QUOTE, QUOTE] @ '':[1]}'') =
     ''{'' @ [QUOTE, BSLASH, QUOTE, QUOTE] @ '':[1]}''"
proof (rule repairJSON_complete)
  show "balanced (''{'' @ [QUOTE, BSLASH, QUOTE, QUOTE] @ '':[1]}'')"
    by (simp add: balanced_def maxJSONDepth_def closer_def)
  show "trim_space (''{'' @ [QUOTE, BSLASH, QUOTE, QUOTE] @ '':[1]}'') =
      ''{'' @ [QUOTE, BSLASH, QUOTE, QUOTE] @ '':[1]}''"
    by code_simp
qed simp_all

section \<open>Limits of the repair\<close>

text \<open>
  Two behaviours the comments of the file do not announce: the dangling-key rule also fires
  inside an array, where it drops the last string element; and a cut after the colon of a
  key that contains an escaped quote leaves the string open.
\<close>

lemma repairJSON_drops_array_string:
  "repairJSON (''['' @ [QUOTE] @ ''a'' @ [QUOTE] @ '','' @ [QUOTE] @ ''b'') =
     ''['' @ [QUOTE] @ ''a'' @ [QUOTE] @ '']''"
  by code_simp

lemma repairJSON_escaped_key_unbalanced:
  "\<not> balanced (repairJSON (''{'' @ [QUOTE] @ ''a'' @ [BSLASH, QUOTE] @ ''b'' @ [QUOTE] @ '':''))"
proof -
  have "repairJSON (''{'' @ [QUOTE] @ ''a'' @ [BSLASH, QUOTE] @ ''b'' @ [QUOTE] @ '':'') =
      ''{'' @ [QUOTE] @ ''a'' @ [BSLASH] @ ''}''"
    by code_simp
  then show ?thesis by (simp add: balanced_def maxJSONDepth_def)
qed

end
