(* ===== verification/ByteReader.thy ===== *)
theory ByteReader
  imports GoValues
begin

text \<open>
  Go's \<open>io.Reader\<close> as the results its source still has to give: each is some bytes and possibly the
  error that ends the stream, which a reader keeps repeating. \<open>read_some\<close> is one \<open>Read\<close> into a buffer of
  the given size, \<open>ReadFull\<close> is \<open>io.ReadFull\<close>, and both depend only on the bytes (\<open>data_of\<close>) and the error
  (\<open>final_of\<close>) that follow, not on how the source cuts them.
\<close>

type_synonym reader = "(string \<times> go_error option) list"

fun data_of :: "reader \<Rightarrow> string" where
  "data_of [] = []"
| "data_of ((c, e) # r) = c @ (if e = None then data_of r else [])"

fun final_of :: "reader \<Rightarrow> go_error" where
  "final_of [] = ErrEOF"
| "final_of ((c, e) # r) = (case e of Some x \<Rightarrow> x | None \<Rightarrow> final_of r)"

fun read_some :: "nat \<Rightarrow> reader \<Rightarrow> (string \<times> go_error option) \<times> reader" where
  "read_some k [] = (([], Some ErrEOF), [])"
| "read_some k ((c, e) # r) =
     (if length c \<le> k then ((c, e), if e = None then r else [([], e)])
      else ((take k c, None), (drop k c, e) # r))"

lemma read_some_bytes:
  assumes "read_some k r = ((c, e), r')"
  shows "data_of r = c @ data_of r'" "final_of r' = final_of r" "length c \<le> k"
    "e = Some x \<Longrightarrow> data_of r' = [] \<and> final_of r = x"
  using assms by (cases "(k, r)" rule: read_some.cases; auto split: if_splits option.splits)+

lemma read_some_shrinks:
  "((c, None), s) = read_some n r \<Longrightarrow> 0 < n \<Longrightarrow> length s + (n - length c) < length r + n"
  by (cases "(n, r)" rule: read_some.cases) (auto split: if_splits)

function read_full_loop :: "nat \<Rightarrow> string \<Rightarrow> reader \<Rightarrow> (string \<times> go_error option) \<times> reader" where
  "read_full_loop k got r =
     (if k \<le> length got then ((got, None), r)
      else case read_some (k - length got) r of
        ((c, None), r') \<Rightarrow> read_full_loop k (got @ c) r'
      | ((c, Some e), r') \<Rightarrow>
          ((got @ c,
            if k \<le> length (got @ c) then None
            else if got @ c \<noteq> [] \<and> e = ErrEOF then Some ErrUnexpectedEOF else Some e), r'))"
  by pat_completeness auto
termination
  by (relation "measure (\<lambda>(k, got, r). length r + (k - length got))") (auto dest!: read_some_shrinks)

declare read_full_loop.simps [simp del]

definition ReadFull :: "nat \<Rightarrow> reader \<Rightarrow> (string \<times> go_error option) \<times> reader" where
  "ReadFull k r = read_full_loop k [] r"

text \<open>The same on the bytes and the final error alone.\<close>

definition aReadFull :: "nat \<Rightarrow> string \<times> go_error \<Rightarrow> (string \<times> go_error option) \<times> string \<times> go_error" where
  "aReadFull k s =
     (case s of (b, e) \<Rightarrow>
        if k \<le> length b then ((take k b, None), (drop k b, e))
        else ((b, Some (if b \<noteq> [] \<and> e = ErrEOF then ErrUnexpectedEOF else e)), ([], e)))"

definition abs_reader :: "reader \<Rightarrow> string \<times> go_error" where
  "abs_reader r = (data_of r, final_of r)"

lemma read_full_loop_abs:
  assumes "length got \<le> k" "read_full_loop k got r = (res, r')"
  shows "aReadFull k (got @ data_of r, final_of r) = (res, abs_reader r')"
  using assms
proof (induction k got r rule: read_full_loop.induct)
  case (1 k got r)
  obtain c e s where rd: "read_some (k - length got) r = ((c, e), s)" by (metis surj_pair)
  note b = read_some_bytes [OF rd]
  show ?case
  proof (cases "k \<le> length got")
    case True
    with 1(2,3) have "k = length got" by simp
    with 1(3) show ?thesis by (auto simp: read_full_loop.simps [of "length got"] aReadFull_def abs_reader_def)
  next
    case False
    show ?thesis
    proof (cases e)
      case None
      with False rd 1(3) have "read_full_loop k (got @ c) s = (res, r')"
        by (simp add: read_full_loop.simps [of k got])
      moreover have "length (got @ c) \<le> k" using b(3) False by simp
      ultimately show ?thesis
        using 1(1) [OF False rd [symmetric] refl _ ] None b(1,2) by simp
    next
      case (Some x)
      have "length (got @ c) \<le> k" using b(3) False by simp
      with b(1,2) b(4) [OF Some] False rd 1(3) Some show ?thesis
        by (auto simp: read_full_loop.simps [of k got] aReadFull_def abs_reader_def)
    qed
  qed
qed

lemma ReadFull_abs: "ReadFull k r = (res, r') \<Longrightarrow> aReadFull k (abs_reader r) = (res, abs_reader r')"
  using read_full_loop_abs [of "[]" k r] by (simp add: ReadFull_def abs_reader_def)

end
