(* ===== verification/Refinement.thy ===== *)
theory Refinement
  imports Prelude
begin

text \<open>
  The interface between a component's operation and its specification: a stateful operation
  that returns an output or stops, an abstract machine, and an abstraction function. The
  locale's client lemmas lift one-step simulation to whole runs of the operation, so that two
  concrete states with the same abstraction are observationally equal.
\<close>

text \<open>The outputs of at most \<open>n\<close> calls, ended by the first call that yields none.\<close>

fun outputs :: "('s \<Rightarrow> 'o option \<times> 's) \<Rightarrow> nat \<Rightarrow> 's \<Rightarrow> 'o list" where
  "outputs step 0 s = []"
| "outputs step (Suc n) s =
     (case step s of (None, _) \<Rightarrow> [] | (Some x, s') \<Rightarrow> x # outputs step n s')"

fun run_state :: "('s \<Rightarrow> 'o option \<times> 's) \<Rightarrow> nat \<Rightarrow> 's \<Rightarrow> 's" where
  "run_state step 0 s = s"
| "run_state step (Suc n) s = run_state step n (snd (step s))"

lemma outputs_None: "fst (step s) = None \<Longrightarrow> outputs step n s = []"
  by (cases n; cases "step s") auto

locale op_refinement =
  fixes step :: "'s \<Rightarrow> 'o option \<times> 's"
    and astep :: "'a \<Rightarrow> 'o option \<times> 'a"
    and abs :: "'s \<Rightarrow> 'a"
    and inv :: "'s \<Rightarrow> bool"
  assumes simulates: "inv s \<Longrightarrow> step s = (r, s') \<Longrightarrow> astep (abs s) = (r, abs s') \<and> inv s'"
begin

lemma refined_outputs: "inv s \<Longrightarrow> outputs step n s = outputs astep n (abs s)"
proof (induction n arbitrary: s)
  case (Suc n)
  obtain r s' where step: "step s = (r, s')" by (cases "step s")
  then have "astep (abs s) = (r, abs s')" "inv s'"
    using simulates Suc.prems by blast+
  with step Suc.IH show ?case by (cases r) auto
qed simp

lemma refined_state: "inv s \<Longrightarrow> abs (run_state step n s) = run_state astep n (abs s) \<and> inv (run_state step n s)"
proof (induction n arbitrary: s)
  case (Suc n)
  obtain r s' where step: "step s = (r, s')" by (cases "step s")
  then have "astep (abs s) = (r, abs s')" "inv s'"
    using simulates Suc.prems by blast+
  with step Suc.IH show ?case by simp
qed simp

lemma same_abstraction: "inv s \<Longrightarrow> inv t \<Longrightarrow> abs s = abs t \<Longrightarrow> outputs step n s = outputs step n t"
  by (simp add: refined_outputs)

end

end
