(* ===== verification/Sse.thy ===== *)
theory Sse
  imports ByteReader Refinement
begin

text \<open>
  The Server-Sent-Events scanner (\<open>src/internal/sse/sse.go\<close>): a line reader over an
  \<open>io.Reader\<close> that accepts CR, LF and CRLF, strips one UTF-8 byte-order mark and bounds the
  line length, and on top of it \<open>NextLine\<close>, \<open>Next\<close> (data payloads up to \<open>[DONE]\<close>) and
  \<open>NextEvent\<close>. The \<open>io.Reader\<close> is the list of what its \<open>Read\<close> calls return; past the end of
  the list it returns \<open>io.EOF\<close>.
\<close>

section \<open>The line reader\<close>

definition MaxLineSize :: nat where "MaxLineSize = 16777216"
definition MaxEventSize :: nat where "MaxEventSize = 16777216"

record Scanner =
  reads :: "(string \<times> go_error option) list"
  pending :: string
  scanFrom :: nat
  readErr :: "go_error option"
  atStart :: bool
  skipLF :: bool
  scanErr :: "go_error option"
  isDone :: bool

definition NewScanner :: "(string \<times> go_error option) list \<Rightarrow> Scanner" where
  "NewScanner r = \<lparr>reads = r, pending = [], scanFrom = 0, readErr = None, atStart = True,
     skipLF = False, scanErr = None, isDone = False\<rparr>"

definition err_line_too_long :: go_error where
  "err_line_too_long = ErrMsg ''sse: line exceeds 16777216 bytes''"

definition err_event_too_long :: go_error where
  "err_event_too_long = ErrMsg ''sse: event exceeds 16777216 bytes''"

text \<open>\<open>bytes.IndexAny\<close> with the two line terminators.\<close>

fun eol_index :: "string \<Rightarrow> nat option" where
  "eol_index [] = None"
| "eol_index (c # s) = (if c = CR \<or> c = LF then Some 0 else map_option Suc (eol_index s))"

definition lineEnd :: "Scanner \<Rightarrow> nat option \<times> Scanner" where
  "lineEnd s =
     (case eol_index (drop (scanFrom s) (pending s)) of
        None \<Rightarrow> (None, s\<lparr>scanFrom := length (pending s)\<rparr>)
      | Some i \<Rightarrow>
          let index = i + scanFrom s in
          (Some (index + 1), if pending s ! index = CR then s\<lparr>skipLF := True\<rparr> else s))"

definition BOM :: string where "BOM = [CHR 0xEF, CHR 0xBB, CHR 0xBF]"

definition stripInitialBOM :: "string \<Rightarrow> Scanner \<Rightarrow> string \<times> Scanner" where
  "stripInitialBOM line s =
     (if \<not> atStart s then (line, s) else (trim_prefix line BOM, s\<lparr>atStart := False\<rparr>))"

text \<open>The start of a \<open>readLine\<close> iteration: the LF of a CRLF pair whose CR ended a line.\<close>

definition drop_skipped_LF :: "Scanner \<Rightarrow> Scanner" where
  "drop_skipped_LF s =
     (if skipLF s then
        if pending s \<noteq> [] then
          s\<lparr>pending := (if hd (pending s) = LF then tl (pending s) else pending s), skipLF := False\<rparr>
        else if readErr s \<noteq> None then s\<lparr>skipLF := False\<rparr> else s
      else s)"

text \<open>One \<open>Read\<close> call: (data, error) and what the reader returns next.\<close>

definition read_call :: "Scanner \<Rightarrow> (string \<times> go_error option) \<times> Scanner" where
  "read_call s = (case reads s of
      [] \<Rightarrow> (([], Some ErrEOF), s)
    | r # rs \<Rightarrow> (r, s\<lparr>reads := rs\<rparr>))"

definition absorb_read :: "nat \<Rightarrow> Scanner \<Rightarrow> nat \<times> Scanner" where
  "absorb_read emptyReads s =
     (let ((data, err), s1) = read_call s;
          s2 = s1\<lparr>pending := pending s1 @ data\<rparr>;
          empties = (if data \<noteq> [] then 0 else if err = None then emptyReads + 1 else emptyReads);
          s3 = (if data = [] \<and> err = None \<and> 100 \<le> empties then s2\<lparr>readErr := Some ErrNoProgress\<rparr> else s2);
          s4 = (if err \<noteq> None then s3\<lparr>readErr := err\<rparr> else s3)
      in (empties, s4))"

lemma absorb_read_reads:
  assumes "absorb_read n s = (m, s')" "readErr s = None"
  shows "length (reads s') < length (reads s) \<or> reads s' = reads s \<and> readErr s' \<noteq> None"
  using assms
  by (cases "reads s") (auto simp: absorb_read_def read_call_def Let_def split: prod.splits if_splits)

lemma drop_skipped_LF_frame [simp]:
  "reads (drop_skipped_LF s) = reads s" "readErr (drop_skipped_LF s) = readErr s"
  "atStart (drop_skipped_LF s) = atStart s" "scanErr (drop_skipped_LF s) = scanErr s"
  "isDone (drop_skipped_LF s) = isDone s" "scanFrom (drop_skipped_LF s) = scanFrom s"
  by (auto simp: drop_skipped_LF_def)

lemma lineEnd_frame:
  assumes "lineEnd s = (r, s')"
  shows "reads s' = reads s" "readErr s' = readErr s" "pending s' = pending s"
    "atStart s' = atStart s" "scanErr s' = scanErr s" "isDone s' = isDone s"
  using assms by (auto simp: lineEnd_def Let_def split: option.splits if_splits)

text \<open>
  \<open>readLine\<close>: the loop over \<open>Read\<close> calls. Releasing an oversized drained buffer, which only
  concerns memory, is the one thing left out.
\<close>

function readLine :: "nat \<Rightarrow> Scanner \<Rightarrow> (string \<times> go_error option) \<times> Scanner" where
  "readLine emptyReads s0 =
     (let s1 = drop_skipped_LF s0 in
      case lineEnd s1 of
        (Some end, s2) \<Rightarrow>
          if MaxLineSize < end then (([], Some err_line_too_long), s2)
          else
            let (line, s3) = stripInitialBOM (take end (pending s2))
                               (s2\<lparr>pending := drop end (pending s2), scanFrom := 0\<rparr>)
            in ((line, None), s3)
      | (None, s2) \<Rightarrow>
          if MaxLineSize < length (pending s2) then (([], Some err_line_too_long), s2)
          else case readErr s2 of
            Some e \<Rightarrow>
              if pending s2 = [] then (([], Some e), s2)
              else
                let (line, s3) = stripInitialBOM (pending s2) (s2\<lparr>pending := [], scanFrom := 0\<rparr>)
                in ((line, Some e), s3)
          | None \<Rightarrow>
              let (empties, s3) = absorb_read emptyReads s2 in readLine empties s3)"
  by pat_completeness auto
termination
proof (relation "measure (\<lambda>(n, s). length (reads s) + (if readErr s = None then 1 else 0))", simp)
  fix emptyReads s0 s1 xa s2 xb empties s3
  assume *: "s1 = drop_skipped_LF s0" "(xa, s2) = lineEnd s1" "readErr s2 = None"
    "xb = absorb_read emptyReads s2" "(empties, s3) = xb"
  have "absorb_read emptyReads s2 = (empties, s3)" "lineEnd s1 = (xa, s2)" using * by simp_all
  with absorb_read_reads [OF this(1) *(3)] lineEnd_frame(1,2) [OF this(2)] *(1,3)
  show "((empties, s3), emptyReads, s0)
      \<in> measure (\<lambda>(n, s). length (reads s) + (if readErr s = None then 1 else 0))"
    by (auto split: if_splits)
qed

declare readLine.simps [simp del]

section \<open>The abstract stream\<close>

text \<open>
  What is left to read, whatever the boundaries of the \<open>Read\<close> calls: the bytes, the error that
  ends them, and whether the first line is still to come.
\<close>

type_synonym astream = "string \<times> go_error \<times> bool"

definition steady :: "(string \<times> go_error option) list \<Rightarrow> bool" where
  "steady r \<longleftrightarrow> list_all (\<lambda>(c, e). c \<noteq> [] \<or> e \<noteq> None) r"

fun drop_LF :: "string \<Rightarrow> string" where
  "drop_LF [] = []"
| "drop_LF (c # s) = (if c = LF then s else c # s)"

definition abs_stream :: "Scanner \<Rightarrow> astream" where
  "abs_stream s =
     (let b = pending s @ (if readErr s = None then data_of (reads s) else [])
      in (if skipLF s then drop_LF b else b,
          case readErr s of Some e \<Rightarrow> e | None \<Rightarrow> final_of (reads s),
          atStart s))"

definition stream_inv :: "Scanner \<Rightarrow> bool" where
  "stream_inv s \<longleftrightarrow> scanFrom s \<le> length (pending s) \<and> eol_index (take (scanFrom s) (pending s)) = None \<and>
     (skipLF s \<longrightarrow> scanFrom s = 0) \<and> steady (reads s)"

definition strip_bom :: "bool \<Rightarrow> string \<Rightarrow> string" where
  "strip_bom first line = (if first then trim_prefix line BOM else line)"

fun spec_line :: "astream \<Rightarrow> (string \<times> go_error option) \<times> astream" where
  "spec_line (b, e, first) =
     (case eol_index b of
        Some i \<Rightarrow>
          if MaxLineSize < i + 1 then (([], Some err_line_too_long), (b, e, first))
          else ((strip_bom first (take (i + 1) b), None),
                (if b ! i = CR then drop_LF (drop (i + 1) b) else drop (i + 1) b, e, False))
      | None \<Rightarrow>
          if MaxLineSize < length b then (([], Some err_line_too_long), (b, e, first))
          else if b = [] then (([], Some e), (b, e, first))
          else ((strip_bom first b, Some e), ([], e, False)))"

lemma eol_index_append:
  "eol_index (a @ b) =
     (case eol_index a of Some i \<Rightarrow> Some i | None \<Rightarrow> map_option (\<lambda>i. i + length a) (eol_index b))"
  by (induction a) (auto simp: option.map_comp o_def option.map_ident split: option.splits)

lemma eol_index_less: "eol_index s = Some i \<Longrightarrow> i < length s"
  by (induction s arbitrary: i) (auto split: if_splits)

lemma eol_index_eol: "eol_index s = Some i \<Longrightarrow> s ! i = CR \<or> s ! i = LF"
  by (induction s arbitrary: i) (auto split: if_splits)

lemma lineEnd_eol:
  assumes "stream_inv s"
  shows "fst (lineEnd s) = map_option Suc (eol_index (pending s))"
proof -
  have "eol_index (pending s) =
      map_option (\<lambda>i. i + scanFrom s) (eol_index (drop (scanFrom s) (pending s)))"
    using eol_index_append [of "take (scanFrom s) (pending s)" "drop (scanFrom s) (pending s)"] assms
    by (simp add: stream_inv_def min_absorb2)
  then show ?thesis by (auto simp: lineEnd_def Let_def split: option.split)
qed

lemma lineEnd_state:
  assumes "stream_inv s"
  shows "eol_index (pending s) = None \<Longrightarrow> snd (lineEnd s) = s\<lparr>scanFrom := length (pending s)\<rparr>"
    and "eol_index (pending s) = Some i \<Longrightarrow>
      snd (lineEnd s) = (if pending s ! i = CR then s\<lparr>skipLF := True\<rparr> else s)"
  using lineEnd_eol [OF assms] by (auto simp: lineEnd_def Let_def split: option.splits if_splits)

lemma stream_inv_new: "steady r \<Longrightarrow> stream_inv (NewScanner r)"
  by (simp add: stream_inv_def NewScanner_def)

lemma abs_stream_new: "abs_stream (NewScanner r) = (data_of r, final_of r, True)"
  by (simp add: abs_stream_def NewScanner_def)

lemma abs_stream_scanFrom [simp]: "abs_stream (s\<lparr>scanFrom := k\<rparr>) = abs_stream s"
  by (cases "readErr s") (simp_all add: abs_stream_def)

lemma drop_skipped_LF_inv:
  assumes "stream_inv s"
  shows "stream_inv (drop_skipped_LF s)" "abs_stream (drop_skipped_LF s) = abs_stream s"
    "skipLF (drop_skipped_LF s) \<longrightarrow> pending (drop_skipped_LF s) = [] \<and> readErr s = None"
proof -
  have "skipLF s \<Longrightarrow> scanFrom s = 0" "steady (reads s)" using assms by (simp_all add: stream_inv_def)
  then show "stream_inv (drop_skipped_LF s)"
    using assms by (simp add: drop_skipped_LF_def stream_inv_def)
  show "abs_stream (drop_skipped_LF s) = abs_stream s"
    by (cases "pending s"; cases "readErr s") (simp_all add: drop_skipped_LF_def abs_stream_def)
  show "skipLF (drop_skipped_LF s) \<longrightarrow> pending (drop_skipped_LF s) = [] \<and> readErr s = None"
    by (simp add: drop_skipped_LF_def)
qed

lemma absorb_read_steady:
  assumes "steady (reads s)" "readErr s = None"
  shows "snd (absorb_read n s) =
    (case reads s of [] \<Rightarrow> s\<lparr>readErr := Some ErrEOF\<rparr>
     | (c, e) # rs \<Rightarrow> s\<lparr>reads := rs, pending := pending s @ c, readErr := e\<rparr>)"
proof (cases "reads s")
  case (Cons r rs)
  obtain c e where "r = (c, e)" by (cases r)
  with Cons assms show ?thesis
    by (cases e) (auto simp: absorb_read_def read_call_def steady_def)
qed (simp add: absorb_read_def read_call_def)

lemma absorb_read_inv:
  assumes "stream_inv s" "readErr s = None" "skipLF s \<longrightarrow> pending s = []"
  shows "stream_inv (snd (absorb_read n s))" "abs_stream (snd (absorb_read n s)) = abs_stream s"
proof -
  have st: "steady (reads s)" and sc: "scanFrom s \<le> length (pending s)"
    "eol_index (take (scanFrom s) (pending s)) = None" "skipLF s \<longrightarrow> scanFrom s = 0"
    using assms(1) by (simp_all add: stream_inv_def)
  note eq = absorb_read_steady [OF st assms(2), of n]
  show "stream_inv (snd (absorb_read n s))"
  proof (cases "reads s")
    case (Cons r rs)
    with st sc show ?thesis
      unfolding eq by (cases r) (simp add: stream_inv_def steady_def)
  qed (use eq st sc in \<open>simp add: stream_inv_def\<close>)
  show "abs_stream (snd (absorb_read n s)) = abs_stream s"
  proof (cases "reads s")
    case (Cons r rs)
    with assms(2) show ?thesis
      unfolding eq by (cases r) (simp add: abs_stream_def split: option.split)
  qed (use eq assms(2) in \<open>simp add: abs_stream_def\<close>)
qed

text \<open>
  \<open>readLine\<close> refines the abstract line reader: its line and error are those of the abstract
  stream, and so is the state it leaves unless the line was too long.
\<close>

lemma readLine_too_long:
  assumes "stream_inv s" "skipLF s \<longrightarrow> pending s = []"
    and "case eol_index (pending s) of Some i \<Rightarrow> MaxLineSize < i + 1 | None \<Rightarrow> MaxLineSize < length (pending s)"
  shows "fst (spec_line (abs_stream s)) = ([], Some err_line_too_long)"
proof -
  have "\<not> skipLF s" using assms(2,3) by (auto simp: MaxLineSize_def split: option.splits)
  then have "fst (abs_stream s) = pending s @ (if readErr s = None then data_of (reads s) else [])"
    by (simp add: abs_stream_def Let_def)
  moreover obtain b e f where a: "abs_stream s = (b, e, f)" by (cases "abs_stream s")
  ultimately have "b = pending s @ (if readErr s = None then data_of (reads s) else [])" by simp
  then show ?thesis
    using assms(3) a by (auto simp: eol_index_append split: option.splits if_splits)
qed

lemma readLine_whole_line:
  assumes "stream_inv s" "\<not> skipLF s" "eol_index (pending s) = Some i" "i + 1 \<le> MaxLineSize"
  shows "spec_line (abs_stream s) =
    ((strip_bom (atStart s) (take (i + 1) (pending s)), None),
     abs_stream (s\<lparr>pending := drop (i + 1) (pending s), scanFrom := 0, atStart := False,
                   skipLF := (pending s ! i = CR)\<rparr>))"
  using assms eol_index_less [OF assms(3)]
  by (auto simp: abs_stream_def Let_def eol_index_append nth_append)

lemma absorb_read_frame [simp]:
  "scanErr (snd (absorb_read n s)) = scanErr s" "isDone (snd (absorb_read n s)) = isDone s"
  by (auto simp: absorb_read_def read_call_def Let_def split: prod.splits list.splits)

lemma readLine_at_end:
  assumes "stream_inv s" "\<not> skipLF s" "eol_index (pending s) = None" "readErr s = Some e"
    "length (pending s) \<le> MaxLineSize"
  shows "spec_line (abs_stream s) =
    (if pending s = [] then (([], Some e), abs_stream s)
     else ((strip_bom (atStart s) (pending s), Some e),
           abs_stream (s\<lparr>pending := [], scanFrom := 0, atStart := False\<rparr>)))"
  using assms by (simp add: abs_stream_def)

definition line_refined :: "Scanner \<Rightarrow> (string \<times> go_error option) \<times> Scanner \<Rightarrow> bool" where
  "line_refined s r \<longleftrightarrow>
     fst (spec_line (abs_stream s)) = fst r \<and>
     (fst r = ([], Some err_line_too_long) \<or>
      stream_inv (snd r) \<and> abs_stream (snd r) = snd (spec_line (abs_stream s))) \<and>
     scanErr (snd r) = scanErr s \<and> isDone (snd r) = isDone s"

text \<open>The last part of an iteration, once no terminator is pending.\<close>

lemma readLine_no_eol:
  assumes s1: "s1 = drop_skipped_LF s" and inv: "stream_inv s"
    and eol: "eol_index (pending s1) = None"
    and s2: "s2 = s1\<lparr>scanFrom := length (pending s1)\<rparr>"
    and IH: "\<And>m t. length (pending s2) \<le> MaxLineSize \<Longrightarrow> readErr s2 = None \<Longrightarrow> (m, t) = absorb_read n s2 \<Longrightarrow> stream_inv t \<Longrightarrow>
               line_refined t (readLine m t)"
  shows "line_refined s (readLine n s)"
proof -
  note d = drop_skipped_LF_inv [OF inv]
  have frame: "scanErr s1 = scanErr s" "isDone s1 = isDone s" by (simp_all add: s1)
  have end1: "lineEnd s1 = (None, s2)"
    using lineEnd_eol [of s1] lineEnd_state(1) [of s1] d eol s1 s2 by (simp add: prod_eq_iff)
  have inv2: "stream_inv s2" using d(1,3) eol s1 s2 by (auto simp: stream_inv_def)
  have abs2: "abs_stream s2 = abs_stream s" using d(2) s1 s2 by simp
  have skip2: "skipLF s2 \<longrightarrow> pending s2 = [] \<and> readErr s2 = None" using d(3) s1 s2 by simp
  consider (long) "MaxLineSize < length (pending s2)"
    | (stop) e where "length (pending s2) \<le> MaxLineSize" "readErr s2 = Some e"
    | (more) "length (pending s2) \<le> MaxLineSize" "readErr s2 = None"
    by fastforce
  then show ?thesis
  proof cases
    case long
    then have "readLine n s = (([], Some err_line_too_long), s2)"
      using end1 s1 by (simp add: readLine.simps [of n s])
    with readLine_too_long [of s2] inv2 skip2 abs2 long eol s2 frame show ?thesis
      by (simp add: line_refined_def)
  next
    case stop
    then have noskip: "\<not> skipLF s2" using skip2 by auto
    note spec = readLine_at_end [OF inv2 noskip _ stop(2,1)]
    have frame2: "scanErr s2 = scanErr s" "isDone s2 = isDone s" using frame s2 by simp_all
    show ?thesis
    proof (cases "pending s2 = []")
      case True
      with end1 s1 stop have "readLine n s = (([], Some e), s2)"
        by (simp add: readLine.simps [of n s])
      with spec True inv2 abs2 frame2 eol s2 show ?thesis by (simp add: line_refined_def)
    next
      case False
      let ?s3 = "s2\<lparr>pending := [], scanFrom := 0, atStart := False\<rparr>"
      have "readLine n s = ((strip_bom (atStart s2) (pending s2), Some e), ?s3)"
        using end1 s1 stop False
        by (auto simp: readLine.simps [of n s] stripInitialBOM_def strip_bom_def)
      moreover have "stream_inv ?s3" using inv2 by (simp add: stream_inv_def)
      moreover have "spec_line (abs_stream s) =
          ((strip_bom (atStart s2) (pending s2), Some e), abs_stream ?s3)"
        using spec False abs2 eol s2 by simp
      moreover have "scanErr ?s3 = scanErr s" "isDone ?s3 = isDone s" using frame2 by simp_all
      ultimately show ?thesis by (simp add: line_refined_def)
    qed
  next
    case more
    then have rec: "readLine n s = readLine (fst (absorb_read n s2)) (snd (absorb_read n s2))"
      using end1 s1 by (simp add: readLine.simps [of n s] split_beta)
    have "line_refined (snd (absorb_read n s2)) (readLine n s)"
      unfolding rec using absorb_read_inv(1) [OF inv2 more(2)] skip2
      by (intro IH [OF more]) simp_all
    moreover have "abs_stream (snd (absorb_read n s2)) = abs_stream s"
      using absorb_read_inv(2) [OF inv2 more(2)] skip2 abs2 by simp
    ultimately show ?thesis using frame s2 by (simp add: line_refined_def)
  qed
qed

lemma readLine_eol:
  assumes s1: "s1 = drop_skipped_LF s" and inv: "stream_inv s"
    and eol: "eol_index (pending s1) = Some i"
  shows "line_refined s (readLine n s)"
proof -
  note d = drop_skipped_LF_inv [OF inv]
  have frame: "scanErr s1 = scanErr s" "isDone s1 = isDone s" by (simp_all add: s1)
  have noskip: "\<not> skipLF s1" using d(3) eol s1 by auto
  let ?s2 = "if pending s1 ! i = CR then s1\<lparr>skipLF := True\<rparr> else s1"
  have end1: "lineEnd s1 = (Some (i + 1), ?s2)"
    using lineEnd_eol [of s1] lineEnd_state(2) [of s1 i] d(1) eol s1 by (simp add: prod_eq_iff)
  show ?thesis
  proof (cases "MaxLineSize < i + 1")
    case True
    then have "readLine n s = (([], Some err_line_too_long), ?s2)"
      using end1 s1 by (simp add: readLine.simps [of n s])
    with readLine_too_long [of s1] d noskip s1 True eol frame show ?thesis
      by (simp add: line_refined_def)
  next
    case False
    let ?s3 = "s1\<lparr>pending := drop (i + 1) (pending s1), scanFrom := 0, atStart := False,
                  skipLF := (pending s1 ! i = CR)\<rparr>"
    have "readLine n s = ((strip_bom (atStart s1) (take (i + 1) (pending s1)), None), ?s3)"
      using end1 s1 False noskip
      by (auto simp: readLine.simps [of n s] stripInitialBOM_def strip_bom_def)
    moreover have "stream_inv ?s3" using d(1) s1 by (simp add: stream_inv_def)
    ultimately show ?thesis
      using readLine_whole_line [of s1 i] d(1,2) s1 noskip eol False frame
      by (simp add: line_refined_def)
  qed
qed

lemma readLine_refines: "stream_inv s \<Longrightarrow> line_refined s (readLine n s)"
proof (induction n s rule: readLine.induct)
  case (1 n s)
  define s1 where "s1 = drop_skipped_LF s"
  define s2 where "s2 = s1\<lparr>scanFrom := length (pending s1)\<rparr>"
  show ?case
  proof (cases "eol_index (pending s1)")
    case None
    have "lineEnd s1 = (None, s2)"
      using lineEnd_eol [of s1] lineEnd_state(1) [of s1] drop_skipped_LF_inv [OF "1.prems"] None
      by (simp add: prod_eq_iff s1_def s2_def)
    have "line_refined t (readLine m t)" if "length (pending s2) \<le> MaxLineSize"
      "readErr s2 = None" "(m, t) = absorb_read n s2" "stream_inv t" for m t
      using that \<open>lineEnd s1 = (None, s2)\<close>
      by (intro "1.IH" [OF s1_def _ refl _ _ refl]) simp_all
    then show ?thesis
      by (rule readLine_no_eol [OF s1_def "1.prems" None s2_def])
  next
    case (Some i)
    then show ?thesis by (rule readLine_eol [OF s1_def "1.prems"])
  qed
qed

section \<open>The public operations\<close>

definition fail_unless_EOF :: "go_error option \<Rightarrow> Scanner \<Rightarrow> Scanner" where
  "fail_unless_EOF err s =
     (case err of None \<Rightarrow> s | Some e \<Rightarrow> if error_is e ErrEOF then s else s\<lparr>scanErr := Some e\<rparr>)"

definition trim_eol :: "string \<Rightarrow> string" where
  "trim_eol raw = trim_right [CR, LF] raw"

definition NextLine :: "Scanner \<Rightarrow> string option \<times> Scanner" where
  "NextLine s =
     (if scanErr s \<noteq> None then (None, s)
      else
        let ((raw, err), s1) = readLine 0 s;
            s2 = fail_unless_EOF err s1
        in if err \<noteq> None \<and> raw = [] then (None, s2) else (Some (trim_eol raw), s2))"

text \<open>What a \<open>data:\<close> line carries.\<close>

definition data_payload :: "string \<Rightarrow> string option" where
  "data_payload line =
     (if has_prefix line ''data:'' then Some (trim_prefix (drop 5 line) [SPACE]) else None)"

text \<open>Bytes still to be split into lines: every complete line takes at least one.\<close>

definition todo :: "Scanner \<Rightarrow> nat" where
  "todo s = length (pending s) + sum_list (map (length \<circ> fst) (reads s))"

lemma todo_drop_skipped_LF: "todo (drop_skipped_LF s) \<le> todo s"
  by (auto simp: todo_def drop_skipped_LF_def)

lemma todo_absorb_read: "todo (snd (absorb_read n s)) = todo s"
  by (auto simp: todo_def absorb_read_def read_call_def Let_def split: prod.splits list.splits)

lemma lineEnd_bounds: "lineEnd s = (Some end, s') \<Longrightarrow> 0 < end \<and> end \<le> length (pending s)"
  by (auto simp: lineEnd_def Let_def split: option.splits dest: eol_index_less)

lemma readLine_todo: "fst (readLine n s) = (line, None) \<Longrightarrow> todo (snd (readLine n s)) < todo s"
proof (induction n s rule: readLine.induct)
  case (1 n s)
  obtain r s2 where end1: "lineEnd (drop_skipped_LF s) = (r, s2)" by fastforce
  have le: "todo s2 \<le> todo s"
    using lineEnd_frame(1,3) [OF end1] todo_drop_skipped_LF [of s] by (simp add: todo_def)
  show ?case
  proof (cases r)
    case None
    have short: "length (pending s2) \<le> MaxLineSize" and live: "readErr s2 = None"
      using "1.prems" end1 None by (auto simp: readLine.simps [of n s] split: if_splits option.splits prod.splits)
    let ?a = "absorb_read n s2"
    have rec: "readLine n s = readLine (fst ?a) (snd ?a)"
      using short live end1 None by (simp add: readLine.simps [of n s] split_beta)
    have "todo (snd (readLine (fst ?a) (snd ?a))) < todo (snd ?a)"
      using "1.prems" short live end1 None unfolding rec
      by (intro "1.IH" [OF refl _ refl]) simp_all
    with rec todo_absorb_read [of n s2] le show ?thesis by simp
  next
    case (Some i)
    have bounds: "0 < i" "i \<le> length (pending s2)"
      using lineEnd_bounds [of "drop_skipped_LF s" i s2] lineEnd_frame(3) [OF end1] end1 Some by auto
    have "snd (readLine n s) = s2\<lparr>pending := drop i (pending s2), scanFrom := 0, atStart := False\<rparr>"
      using "1.prems" end1 Some
      by (auto simp: readLine.simps [of n s] stripInitialBOM_def split: if_splits)
    with bounds have "todo (snd (readLine n s)) < todo s2" by (simp add: todo_def)
    with le show ?thesis by simp
  qed
qed

function next_loop :: "Scanner \<Rightarrow> string option \<times> Scanner" where
  "next_loop s =
     (let r = readLine 0 s; line = fst (fst r); err = snd (fst r); s1 = snd r in
      case (if line \<noteq> [] then data_payload (trim_eol line) else None) of
        Some payload \<Rightarrow>
          if payload = ''[DONE]'' then (None, s1\<lparr>isDone := True\<rparr>) else (Some payload, s1)
      | None \<Rightarrow>
          (case err of
             Some e \<Rightarrow> (None, fail_unless_EOF (Some e) s1)
           | None \<Rightarrow> next_loop s1))"
  by pat_completeness auto
termination
  by (relation "measure todo") (simp, metis in_measure prod.collapse readLine_todo)

declare next_loop.simps [simp del]

definition Next :: "Scanner \<Rightarrow> string option \<times> Scanner" where
  "Next s = (if isDone s \<or> scanErr s \<noteq> None then (None, s) else next_loop s)"

record Event =
  evType :: string
  evData :: string

definition no_event :: Event where "no_event = \<lparr>evType = [], evData = []\<rparr>"

datatype line_action = Dispatch | Continue Event bool | EventTooBig

text \<open>One line of an event: the body of \<open>NextEvent\<close>'s loop between two reads.\<close>

definition event_line :: "Event \<Rightarrow> bool \<Rightarrow> string \<Rightarrow> line_action" where
  "event_line ev hasData line =
     (if line = [] then
        if hasData then Dispatch else Continue (ev\<lparr>evType := []\<rparr>) hasData
      else if hd line = CHR '':'' then Continue ev hasData
      else
        let (field, value0, _) = cut_at line '':'';
            value = trim_prefix value0 [SPACE]
        in if field = ''event'' then Continue (ev\<lparr>evType := value\<rparr>) hasData
           else if field = ''data'' then
             (if MaxEventSize < length (evData ev) + (length value + (if hasData then 1 else 0))
              then EventTooBig
              else Continue (ev\<lparr>evData := evData ev @ (if hasData then [LF] else []) @ value\<rparr>) True)
           else Continue ev hasData)"

function event_loop :: "Event \<Rightarrow> bool \<Rightarrow> Scanner \<Rightarrow> Event option \<times> Scanner" where
  "event_loop ev hasData s =
     (let r = readLine 0 s; raw = fst (fst r); err = snd (fst r); s1 = snd r in
      case (if raw \<noteq> [] then event_line ev hasData (trim_eol raw) else Continue ev hasData) of
        Dispatch \<Rightarrow> (Some ev, s1)
      | EventTooBig \<Rightarrow> (None, s1\<lparr>scanErr := Some err_event_too_long\<rparr>)
      | Continue ev' hasData' \<Rightarrow>
          (case err of
             Some e \<Rightarrow> (None, fail_unless_EOF (Some e) s1)
           | None \<Rightarrow> event_loop ev' hasData' s1))"
  by pat_completeness auto
termination
  by (relation "measure (todo \<circ> snd \<circ> snd)")
     (simp, metis comp_apply in_measure prod.collapse readLine_todo snd_conv)

declare event_loop.simps [simp del]

definition NextEvent :: "Scanner \<Rightarrow> Event option \<times> Scanner" where
  "NextEvent s = (if scanErr s \<noteq> None then (None, s) else event_loop no_event False s)"

section \<open>What the operations return, as a function of the bytes\<close>

lemma spec_line_shorter:
  "spec_line (b, e, f) = ((line, None), (b', e', f')) \<Longrightarrow> length b' < length b"
proof -
  assume *: "spec_line (b, e, f) = ((line, None), (b', e', f'))"
  then obtain i where i: "eol_index b = Some i" by (auto split: option.splits if_splits)
  have le: "length (drop_LF x) \<le> length x" for x by (cases x) auto
  have "i < length b" by (rule eol_index_less [OF i])
  with * i le [of "drop (Suc i) b"] show ?thesis by (auto split: if_splits)
qed

function spec_lines :: "astream \<Rightarrow> string list" where
  "spec_lines a =
     (let r = spec_line a; line = fst (fst r) in
      (if line = [] then [] else [trim_eol line]) @
      (if snd (fst r) = None then spec_lines (snd r) else []))"
  by pat_completeness auto
termination
proof (relation "measure (length \<circ> fst)", simp)
  fix a r line assume "r = spec_line a" "line = fst (fst r)" "snd (fst r) = None"
  moreover obtain b e f where "a = (b, e, f)" by (cases a)
  moreover obtain b' e' f' where "snd r = (b', e', f')" by (cases "snd r")
  ultimately have "spec_line (b, e, f) = ((line, None), (b', e', f'))"
    by (metis prod.collapse)
  then show "(snd r, a) \<in> measure (length \<circ> fst)"
    using spec_line_shorter \<open>a = (b, e, f)\<close> \<open>snd r = (b', e', f')\<close> by simp
qed

declare spec_lines.simps [simp del]

definition payloads :: "string list \<Rightarrow> string list" where
  "payloads ls = takeWhile (\<lambda>p. p \<noteq> ''[DONE]'') (List.map_filter data_payload ls)"

fun spec_events :: "Event \<Rightarrow> bool \<Rightarrow> string list \<Rightarrow> Event list" where
  "spec_events ev h [] = []"
| "spec_events ev h (l # ls) =
     (case event_line ev h l of
        Dispatch \<Rightarrow> ev # spec_events no_event False ls
      | EventTooBig \<Rightarrow> []
      | Continue ev' h' \<Rightarrow> spec_events ev' h' ls)"

text \<open>The abstract machine of all three operations: a queue of the outputs to come.\<close>

fun pop :: "'o list \<Rightarrow> 'o option \<times> 'o list" where
  "pop [] = (None, [])"
| "pop (x # xs) = (Some x, xs)"

lemma outputs_pop: "outputs pop n xs = take n xs"
proof (induction n arbitrary: xs)
  case (Suc n)
  then show ?case by (cases xs) simp_all
qed simp

lemma spec_lines_empty: "spec_lines ([], x, f) = []"
  by (subst spec_lines.simps) simp

lemma spec_lines_stop:
  assumes "spec_line a = ((line, Some e), a')"
  shows "spec_lines a = (if line = [] then [] else [trim_eol line])"
    and "line \<noteq> [] \<or> error_is e ErrEOF \<Longrightarrow> spec_lines a' = []"
proof -
  show "spec_lines a = (if line = [] then [] else [trim_eol line])"
    using assms by (simp add: spec_lines.simps [of a])
  assume *: "line \<noteq> [] \<or> error_is e ErrEOF"
  have "\<not> error_is err_line_too_long ErrEOF" by (simp add: error_is_def err_line_too_long_def)
  moreover obtain b x f where "a = (b, x, f)" by (cases a)
  ultimately have "a' = ([], x, f) \<or> a' = ([], x, False)"
    using assms * by (auto split: option.splits if_splits)
  then show "spec_lines a' = []" by (auto simp: spec_lines_empty)
qed

lemma spec_lines_more:
  "spec_line a = ((line, None), a') \<Longrightarrow>
     spec_lines a = (if line = [] then [] else [trim_eol line]) @ spec_lines a'"
  by (simp add: spec_lines.simps [of a])

definition scanner_inv :: "Scanner \<Rightarrow> bool" where
  "scanner_inv s \<longleftrightarrow> (scanErr s = None \<longrightarrow> stream_inv s)"

definition rest_lines :: "Scanner \<Rightarrow> string list" where
  "rest_lines s = (if scanErr s = None then spec_lines (abs_stream s) else [])"

definition rest_payloads :: "Scanner \<Rightarrow> string list" where
  "rest_payloads s = (if isDone s then [] else payloads (rest_lines s))"

definition rest_events :: "Scanner \<Rightarrow> Event list" where
  "rest_events s = spec_events no_event False (rest_lines s)"

text \<open>
  The two ways a \<open>readLine\<close> ends, as the loops see them: the abstract lines lose their first
  one, or they are exhausted and so is the scanner once the error is recorded.
\<close>

lemma readLine_line:
  assumes "stream_inv s" "scanErr s = None" "readLine 0 s = ((line, None), s1)"
  shows "rest_lines s = (if line = [] then [] else [trim_eol line]) @ rest_lines s1"
    and "stream_inv s1" "scanErr s1 = None" "isDone s1 = isDone s"
proof -
  have "line_refined s ((line, None), s1)" using readLine_refines [OF assms(1), of 0] assms(3) by simp
  then have "spec_line (abs_stream s) = ((line, None), abs_stream s1)" "stream_inv s1"
    "scanErr s1 = None" "isDone s1 = isDone s"
    using assms(2) by (auto simp: line_refined_def prod_eq_iff)
  then show "rest_lines s = (if line = [] then [] else [trim_eol line]) @ rest_lines s1"
    and "stream_inv s1" "scanErr s1 = None" "isDone s1 = isDone s"
    using assms(2) spec_lines_more by (auto simp: rest_lines_def)
qed

lemma readLine_stop:
  assumes "stream_inv s" "scanErr s = None" "readLine 0 s = ((line, Some e), s1)"
  shows "rest_lines s = (if line = [] then [] else [trim_eol line])"
    and "rest_lines (fail_unless_EOF (Some e) s1) = []" "scanner_inv (fail_unless_EOF (Some e) s1)"
    and "line \<noteq> [] \<Longrightarrow> rest_lines s1 = [] \<and> scanner_inv s1" "isDone s1 = isDone s"
    "scanErr s1 = None"
proof -
  have ref: "line_refined s ((line, Some e), s1)"
    using readLine_refines [OF assms(1), of 0] assms(3) by simp
  obtain a' where spec: "spec_line (abs_stream s) = ((line, Some e), a')"
    using ref by (cases "spec_line (abs_stream s)") (simp add: line_refined_def)
  have tl: "\<not> error_is err_line_too_long ErrEOF" by (simp add: error_is_def err_line_too_long_def)
  have post: "line \<noteq> [] \<or> error_is e ErrEOF \<Longrightarrow> stream_inv s1 \<and> spec_lines (abs_stream s1) = []"
    using ref spec spec_lines_stop(2) [OF spec] tl by (auto simp: line_refined_def)
  show "rest_lines s = (if line = [] then [] else [trim_eol line])"
    using spec_lines_stop(1) [OF spec] assms(2) by (simp add: rest_lines_def)
  show err: "scanErr s1 = None" and "isDone s1 = isDone s"
    using ref assms(2) by (simp_all add: line_refined_def)
  show "rest_lines (fail_unless_EOF (Some e) s1) = []" "scanner_inv (fail_unless_EOF (Some e) s1)"
    using post err by (auto simp: fail_unless_EOF_def rest_lines_def scanner_inv_def)
  show "line \<noteq> [] \<Longrightarrow> rest_lines s1 = [] \<and> scanner_inv s1"
    using post err by (simp add: rest_lines_def scanner_inv_def)
qed

lemma isDone_fail [simp]: "isDone (fail_unless_EOF e s) = isDone s"
  by (simp add: fail_unless_EOF_def split: option.split)

lemma payloads_simps [simp]:
  "payloads [] = []"
  "payloads (l # ls) = (case data_payload l of
      None \<Rightarrow> payloads ls
    | Some p \<Rightarrow> if p = ''[DONE]'' then [] else p # payloads ls)"
  by (auto simp: payloads_def List.map_filter_def split: option.split)

lemma next_loop_pop:
  assumes "stream_inv s" "scanErr s = None" "\<not> isDone s"
  shows "pop (payloads (rest_lines s)) = (fst (next_loop s), rest_payloads (snd (next_loop s))) \<and>
    scanner_inv (snd (next_loop s))"
  using assms
proof (induction s rule: next_loop.induct)
  case (1 s)
  obtain line err s1 where r: "readLine 0 s = ((line, err), s1)" by (metis prod.collapse)
  show ?case
  proof (cases "if line \<noteq> [] then data_payload (trim_eol line) else None")
    case None
    show ?thesis
    proof (cases err)
      case err: None
      note post = readLine_line [OF "1.prems"(1,2) r [unfolded err]]
      have "next_loop s = next_loop s1" using r None err by (simp add: next_loop.simps [of s])
      moreover have "payloads (rest_lines s) = payloads (rest_lines s1)"
        using post(1) None by (auto split: if_splits)
      moreover have "pop (payloads (rest_lines (snd (readLine 0 s)))) =
          (fst (next_loop (snd (readLine 0 s))), rest_payloads (snd (next_loop (snd (readLine 0 s))))) \<and>
          scanner_inv (snd (next_loop (snd (readLine 0 s))))"
        by (rule "1.IH" [OF refl refl refl refl]) (use r None err post(2-4) "1.prems"(3) in \<open>auto split: if_splits\<close>)
      ultimately show ?thesis using r by simp
    next
      case (Some e)
      note post = readLine_stop [OF "1.prems"(1,2) r [unfolded Some]]
      have "next_loop s = (None, fail_unless_EOF (Some e) s1)"
        using r None Some by (simp add: next_loop.simps [of s])
      with post None show ?thesis by (auto simp: rest_payloads_def split: if_splits)
    qed
  next
    case (Some p)
    then have ne: "line \<noteq> []" and p: "data_payload (trim_eol line) = Some p" by (auto split: if_splits)
    have eq: "next_loop s = (if p = ''[DONE]'' then (None, s1\<lparr>isDone := True\<rparr>) else (Some p, s1))"
      using r ne p by (simp add: next_loop.simps [of s])
    have "rest_lines s = trim_eol line # rest_lines s1 \<and> scanner_inv s1 \<and> \<not> isDone s1 \<and> scanErr s1 = None"
    proof (cases err)
      case None
      from readLine_line [OF "1.prems"(1,2) r [unfolded None]] ne "1.prems"(3) show ?thesis
        by (simp add: scanner_inv_def)
    next
      case (Some e)
      from readLine_stop [OF "1.prems"(1,2) r [unfolded Some]] ne "1.prems"(3) show ?thesis by simp
    qed
    with eq p show ?thesis
      by (auto simp: rest_payloads_def scanner_inv_def stream_inv_def)
  qed
qed

lemma event_loop_pop:
  assumes "stream_inv s" "scanErr s = None"
  shows "pop (spec_events ev h (rest_lines s)) =
      (fst (event_loop ev h s), rest_events (snd (event_loop ev h s))) \<and>
    scanner_inv (snd (event_loop ev h s))"
  using assms
proof (induction ev h s rule: event_loop.induct)
  case (1 ev h s)
  obtain line err s1 where r: "readLine 0 s = ((line, err), s1)" by (metis prod.collapse)
  define act where "act = (if line \<noteq> [] then event_line ev h (trim_eol line) else Continue ev h)"
  have eq: "event_loop ev h s = (case act of Dispatch \<Rightarrow> (Some ev, s1)
      | EventTooBig \<Rightarrow> (None, s1\<lparr>scanErr := Some err_event_too_long\<rparr>)
      | Continue ev' h' \<Rightarrow> (case err of Some e \<Rightarrow> (None, fail_unless_EOF (Some e) s1)
                                       | None \<Rightarrow> event_loop ev' h' s1))"
    using r by (cases "event_line ev h (trim_eol line)")
      (simp_all add: event_loop.simps [of ev h s] act_def)
  have lines: "rest_lines s = (if line = [] then [] else [trim_eol line]) @ rest_lines s1 \<and>
      scanner_inv s1 \<and> scanErr s1 = None" if "err = None \<or> line \<noteq> []"
  proof (cases err)
    case None
    from readLine_line [OF "1.prems"(1,2) r [unfolded None]] show ?thesis by (simp add: scanner_inv_def)
  next
    case (Some e)
    from readLine_stop [OF "1.prems"(1,2) r [unfolded Some]] that Some show ?thesis by auto
  qed
  show ?case
  proof (cases act)
    case Dispatch
    then have "line \<noteq> []" by (auto simp: act_def)
    with lines Dispatch eq show ?thesis by (auto simp: act_def rest_events_def)
  next
    case EventTooBig
    then have "line \<noteq> []" by (auto simp: act_def)
    with lines EventTooBig eq show ?thesis
      by (auto simp: act_def rest_events_def rest_lines_def scanner_inv_def)
  next
    case (Continue ev' h')
    show ?thesis
    proof (cases err)
      case None
      let ?s1 = "snd (readLine 0 s)"
      have "pop (spec_events ev' h' (rest_lines ?s1)) =
          (fst (event_loop ev' h' ?s1), rest_events (snd (event_loop ev' h' ?s1))) \<and>
          scanner_inv (snd (event_loop ev' h' ?s1))"
        by (rule "1.IH" [OF refl refl refl refl])
           (use readLine_line(2,3) [OF "1.prems"(1,2) r [unfolded None]] Continue r None
            in \<open>auto simp: act_def split: if_splits\<close>)
      then have IH: "pop (spec_events ev' h' (rest_lines s1)) =
          (fst (event_loop ev' h' s1), rest_events (snd (event_loop ev' h' s1))) \<and>
          scanner_inv (snd (event_loop ev' h' s1))"
        using r by simp
      have "spec_events ev h (rest_lines s) = spec_events ev' h' (rest_lines s1)"
        using lines None Continue by (auto simp: act_def split: if_splits)
      with IH eq Continue None show ?thesis by simp
    next
      case (Some e)
      note post = readLine_stop [OF "1.prems"(1,2) r [unfolded Some]]
      have "spec_events ev h (rest_lines s) = []"
        using post(1) Continue by (auto simp: act_def split: if_splits)
      with eq Continue Some post show ?thesis by (simp add: rest_events_def)
    qed
  qed
qed


lemma next_pop:
  assumes "scanner_inv s"
  shows "pop (rest_payloads s) = (fst (Next s), rest_payloads (snd (Next s))) \<and> scanner_inv (snd (Next s))"
proof (cases "isDone s \<or> scanErr s \<noteq> None")
  case True
  with assms show ?thesis by (auto simp: Next_def rest_payloads_def rest_lines_def)
next
  case False
  with assms next_loop_pop [of s] show ?thesis by (simp add: Next_def scanner_inv_def rest_payloads_def)
qed

lemma next_event_pop:
  assumes "scanner_inv s"
  shows "pop (rest_events s) = (fst (NextEvent s), rest_events (snd (NextEvent s))) \<and> scanner_inv (snd (NextEvent s))"
proof (cases "scanErr s = None")
  case True
  with assms event_loop_pop [of s no_event False] show ?thesis
    by (simp add: NextEvent_def scanner_inv_def rest_events_def)
next
  case False
  with assms show ?thesis by (auto simp: NextEvent_def rest_events_def rest_lines_def)
qed

interpretation data_lines: op_refinement Next pop rest_payloads scanner_inv
  by unfold_locales (metis next_pop fst_conv snd_conv)

interpretation events: op_refinement NextEvent pop rest_events scanner_inv
  by unfold_locales (metis next_event_pop fst_conv snd_conv)


lemma rest_new:
  assumes "steady r"
  shows "rest_lines (NewScanner r) = spec_lines (data_of r, final_of r, True)"
    and "scanner_inv (NewScanner r)"
  using stream_inv_new [OF assms] abs_stream_new [of r]
  by (simp_all add: rest_lines_def scanner_inv_def NewScanner_def)

section \<open>Writing events\<close>

text \<open>
  The writer's side, for the round trip: an event is an optional \<open>event:\<close> line, one \<open>data:\<close>
  line per line of its payload, and a blank line.
\<close>

definition event_lines :: "string \<times> string list \<Rightarrow> string list" where
  "event_lines e = (if fst e = [] then [] else [''event: '' @ fst e]) @ map (\<lambda>d. ''data: '' @ d) (snd e) @ [[]]"

definition unlines :: "string list \<Rightarrow> string" where
  "unlines ls = concat (map (\<lambda>l. l @ [LF]) ls)"

definition encode_events :: "(string \<times> string list) list \<Rightarrow> string" where
  "encode_events es = unlines (concat (map event_lines es))"

fun join_data :: "string list \<Rightarrow> string" where
  "join_data [] = []"
| "join_data [d] = d"
| "join_data (d # ds) = d @ LF # join_data ds"

definition line_ok :: "string \<Rightarrow> bool" where
  "line_ok l \<longleftrightarrow> CR \<notin> set l \<and> LF \<notin> set l \<and> length l + 8 \<le> MaxLineSize"

definition event_ok :: "string \<times> string list \<Rightarrow> bool" where
  "event_ok e \<longleftrightarrow> line_ok (fst e) \<and> snd e \<noteq> [] \<and> list_all line_ok (snd e) \<and>
     length (join_data (snd e)) \<le> MaxEventSize"

lemma eol_index_line: "CR \<notin> set l \<Longrightarrow> LF \<notin> set l \<Longrightarrow> eol_index (l @ LF # s) = Some (length l)"
  by (induction l) auto

lemma spec_lines_unlines_step:
  assumes "CR \<notin> set l" "LF \<notin> set l" "length l < MaxLineSize" "first \<longrightarrow> \<not> has_prefix (l @ [LF]) BOM"
  shows "spec_lines ((l @ LF # s), e, first) = l # spec_lines (s, e, False)"
proof -
  have "spec_line (l @ LF # s, e, first) = ((l @ [LF], None), (s, e, False))"
    using assms eol_index_line [OF assms(1,2), of s] by (simp add: strip_bom_def trim_prefix_def)
  moreover have "trim_eol (l @ [LF]) = l"
  proof (cases l rule: rev_cases)
    case (snoc xs x)
    with assms(1,2) show ?thesis by (auto simp: trim_eol_def trim_right_def)
  qed (simp add: trim_eol_def trim_right_def)
  ultimately show ?thesis using spec_lines_more by simp
qed

lemma spec_lines_unlines:
  assumes "\<forall>l \<in> set ls. CR \<notin> set l \<and> LF \<notin> set l \<and> length l < MaxLineSize"
    and "ls \<noteq> [] \<longrightarrow> first \<longrightarrow> \<not> has_prefix (hd ls @ [LF]) BOM"
  shows "spec_lines (unlines ls, e, first) = ls"
  using assms
proof (induction ls arbitrary: first)
  case Nil
  then show ?case by (simp add: unlines_def spec_lines_empty)
next
  case (Cons l ls)
  from Cons.prems Cons.IH [of False] show ?case
    using spec_lines_unlines_step [of l first "unlines ls" e] by (simp add: unlines_def)
qed

lemma cut_at_field:
  "cut_at (''data: '' @ d) '':'' = (''data'', SPACE # d, True)"
  "cut_at (''event: '' @ d) '':'' = (''event'', SPACE # d, True)"
  by (simp_all add: cut_at_def)

lemma event_line_data:
  "event_line ev h (''data: '' @ d) =
     (if MaxEventSize < length (evData ev) + (length d + (if h then 1 else 0)) then EventTooBig
      else Continue (ev\<lparr>evData := evData ev @ (if h then [LF] else []) @ d\<rparr>) True)"
  using cut_at_field(1) [of d] by (simp add: event_line_def trim_prefix_def)

lemma event_line_event: "event_line ev h (''event: '' @ d) = Continue (ev\<lparr>evType := d\<rparr>) h"
  using cut_at_field(2) [of d] by (simp add: event_line_def trim_prefix_def)

lemma join_data_Cons: "join_data (d # ds) = d @ (if ds = [] then [] else LF # join_data ds)"
  by (cases ds) auto

lemma spec_events_data:
  assumes "h \<or> ds \<noteq> []"
    and "length a + (if h then 1 else 0) + length (join_data ds) \<le> MaxEventSize \<or> ds = []"
  shows "spec_events \<lparr>evType = t, evData = a\<rparr> h (map (\<lambda>d. ''data: '' @ d) ds @ [] # rest) =
    \<lparr>evType = t, evData = a @ (if ds = [] then [] else (if h then [LF] else []) @ join_data ds)\<rparr> #
    spec_events no_event False rest"
  using assms
proof (induction ds arbitrary: a h)
  case Nil
  then show ?case by (simp add: event_line_def)
next
  case (Cons d ds)
  have room: "length a + (length d + (if h then 1 else 0)) \<le> MaxEventSize"
    using Cons.prems(2) by (simp add: join_data_Cons split: if_splits)
  have "length (a @ (if h then [LF] else []) @ d) + (if True then 1 else 0) + length (join_data ds) \<le> MaxEventSize \<or> ds = []"
    using Cons.prems(2) by (auto simp: join_data_Cons split: if_splits)
  from Cons.IH [OF _ this] room show ?case
    using event_line_data [of "\<lparr>evType = t, evData = a\<rparr>" h d] by (simp add: join_data_Cons)
qed

lemma spec_events_event:
  assumes "event_ok e"
  shows "spec_events no_event False (event_lines e @ rest) =
    \<lparr>evType = fst e, evData = join_data (snd e)\<rparr> # spec_events no_event False rest"
proof -
  have ok: "snd e \<noteq> []" "length (join_data (snd e)) \<le> MaxEventSize"
    using assms by (simp_all add: event_ok_def)
  then have data: "spec_events \<lparr>evType = t, evData = []\<rparr> False (map (\<lambda>d. ''data: '' @ d) (snd e) @ [] # rest) =
      \<lparr>evType = t, evData = join_data (snd e)\<rparr> # spec_events no_event False rest" for t
    using spec_events_data [of False "snd e" "[]" t rest] by simp
  show ?thesis
  proof (cases "fst e = []")
    case True
    then show ?thesis using data [of "[]"] by (simp add: event_lines_def no_event_def)
  next
    case False
    then show ?thesis using data [of "fst e"] event_line_event [of no_event False "fst e"]
      by (simp add: event_lines_def no_event_def)
  qed
qed

lemma spec_events_encoded:
  "list_all event_ok es \<Longrightarrow>
     spec_events no_event False (concat (map event_lines es)) =
       map (\<lambda>e. \<lparr>evType = fst e, evData = join_data (snd e)\<rparr>) es"
proof (induction es)
  case (Cons e es)
  then show ?case using spec_events_event [of e "concat (map event_lines es)"] by simp
qed simp

lemma event_lines_ok:
  assumes "event_ok e" "l \<in> set (event_lines e)"
  shows "CR \<notin> set l \<and> LF \<notin> set l \<and> length l < MaxLineSize \<and> \<not> has_prefix (l @ [LF]) BOM"
proof -
  have "l = ''event: '' @ fst e \<and> line_ok (fst e) \<or> (\<exists>d. l = ''data: '' @ d \<and> line_ok d) \<or> l = []"
    using assms by (auto simp: event_lines_def event_ok_def list_all_iff split: if_splits)
  then show ?thesis by (auto simp: BOM_def MaxLineSize_def line_ok_def)
qed

text \<open>
  C6: \<open>Scanner.Next\<close> returns exactly the \<open>data:\<close> payloads of the stream, in order and up to
  \<open>[DONE]\<close>, for any way the reader cuts its bytes into \<open>Read\<close> results: calling it \<open>n\<close> times on a
  new scanner gives the first \<open>n\<close> of the payloads that the lines of the whole byte sequence carry.
\<close>

theorem Next_payloads:
  assumes "steady r"
  shows "outputs Next n (NewScanner r) = take n (payloads (spec_lines (data_of r, final_of r, True)))"
  using data_lines.refined_outputs [OF rest_new(2) [OF assms]] rest_new(1) [OF assms]
  by (simp add: outputs_pop rest_payloads_def NewScanner_def)

lemma Next_payloads_witness:
  "outputs Next 3 (NewScanner [(''data: a'', None), ([CR], None), ([LF] @ ''data: b'' @ [LF], None)]) =
     take 3 (payloads (spec_lines (''data: a'' @ [CR, LF] @ ''data: b'' @ [LF], ErrEOF, True)))"
  using Next_payloads [of "[(''data: a'', None), ([CR], None), ([LF] @ ''data: b'' @ [LF], None)]" 3]
  by (simp add: steady_def)

text \<open>
  \<open>Scanner.NextEvent\<close> does not depend on the framing: two readers that deliver the same bytes
  and end with the same error give the same events, wherever the boundaries of their \<open>Read\<close> calls
  fall (inside a CRLF pair, inside the byte-order mark, one byte at a time).
\<close>

theorem NextEvent_framing_independent:
  assumes "steady r" "steady r'" "data_of r = data_of r'" "final_of r = final_of r'"
  shows "outputs NextEvent n (NewScanner r) = outputs NextEvent n (NewScanner r')"
  using assms
  by (intro events.same_abstraction rest_new(2)) (simp_all add: rest_events_def rest_new(1))

lemma NextEvent_framing_independent_witness:
  "outputs NextEvent 2 (NewScanner [(''data:x'' @ [CR], None), ([LF, CR], None), ([LF], None)]) =
   outputs NextEvent 2 (NewScanner [(''data:x'' @ [CR, LF, CR, LF], Some ErrEOF)])"
  using NextEvent_framing_independent [of "[(''data:x'' @ [CR], None), ([LF, CR], None), ([LF], None)]"
      "[(''data:x'' @ [CR, LF, CR, LF], Some ErrEOF)]" 2]
  by (simp add: steady_def)

lemma encoded_lines:
  assumes "list_all event_ok es"
  shows "spec_lines (encode_events es, e, True) = concat (map event_lines es)"
proof -
  let ?ls = "concat (map event_lines es)"
  have ok: "\<forall>l \<in> set ?ls. CR \<notin> set l \<and> LF \<notin> set l \<and> length l < MaxLineSize \<and> \<not> has_prefix (l @ [LF]) BOM"
  proof
    fix l assume "l \<in> set ?ls"
    then obtain e where "e \<in> set es" "l \<in> set (event_lines e)" by auto
    with assms show "CR \<notin> set l \<and> LF \<notin> set l \<and> length l < MaxLineSize \<and> \<not> has_prefix (l @ [LF]) BOM"
      by (auto simp: list_all_iff dest!: event_lines_ok)
  qed
  then have "?ls \<noteq> [] \<longrightarrow> True \<longrightarrow> \<not> has_prefix (hd ?ls @ [LF]) BOM"
    using hd_in_set [of ?ls] by blast
  with ok show ?thesis unfolding encode_events_def by (intro spec_lines_unlines) blast+
qed

lemma encoded_events:
  assumes "steady r" "data_of r = encode_events es" "list_all event_ok es"
  shows "outputs NextEvent n (NewScanner r) =
    take n (map (\<lambda>e. \<lparr>evType = fst e, evData = join_data (snd e)\<rparr>) es)"
proof -
  have "rest_events (NewScanner r) = map (\<lambda>e. \<lparr>evType = fst e, evData = join_data (snd e)\<rparr>) es"
    using encoded_lines [OF assms(3)] spec_events_encoded [OF assms(3)] rest_new(1) [OF assms(1)] assms(2)
    by (simp add: rest_events_def)
  then show ?thesis
    using events.refined_outputs [OF rest_new(2) [OF assms(1)]] by (simp add: outputs_pop)
qed

lemma data_payload_lines [simp]:
  "data_payload [] = None" "data_payload (''event: '' @ t) = None" "data_payload (''data: '' @ d) = Some d"
  by (simp_all add: data_payload_def trim_prefix_def)

lemma payloads_of_events:
  "List.map_filter data_payload (concat (map event_lines es)) = concat (map snd es)"
proof (induction es)
  case (Cons x es)
  have "List.map_filter data_payload (map (\<lambda>d. ''data: '' @ d) ds @ ls) = ds @ List.map_filter data_payload ls" for ds ls
    by (induction ds) (simp_all add: List.map_filter_simps data_payload_lines [simplified])
  with Cons show ?case
    by (simp add: event_lines_def List.map_filter_simps data_payload_lines [simplified])
qed (simp add: List.map_filter_simps)

lemma encoded_payloads:
  assumes "steady r" "data_of r = encode_events es" "list_all event_ok es"
  shows "outputs Next n (NewScanner r) = take n (takeWhile (\<lambda>p. p \<noteq> ''[DONE]'') (concat (map snd es)))"
  using data_lines.refined_outputs [OF rest_new(2) [OF assms(1)]] rest_new(1) [OF assms(1)]
  by (simp add: outputs_pop rest_payloads_def NewScanner_def assms(2) encoded_lines [OF assms(3)]
      payloads_def payloads_of_events)

text \<open>
  C10: round trip of server-sent events: a stream that encodes a list of events (an optional
  \<open>event:\<close> line, one \<open>data:\<close> line per payload line, a blank line), cut into reads in any way, is
  decoded by \<open>NextEvent\<close> into exactly those events with the payload lines joined by a newline.
\<close>

theorem NextEvent_encoded:
  assumes "steady r" "data_of r = encode_events es" "list_all event_ok es"
  shows "outputs NextEvent n (NewScanner r) =
    take n (map (\<lambda>e. \<lparr>evType = fst e, evData = join_data (snd e)\<rparr>) es)"
  using assms by (rule encoded_events)

lemma NextEvent_encoded_witness:
  "outputs NextEvent 2 (NewScanner [(encode_events [(''t'', [''a'', ''b''])], None)]) =
     take 2 [\<lparr>evType = ''t'', evData = ''a'' @ LF # ''b''\<rparr>]"
  using NextEvent_encoded [of "[(encode_events [(''t'', [''a'', ''b''])], None)]" "[(''t'', [''a'', ''b''])]" 2]
  by (simp add: steady_def encode_events_def unlines_def event_lines_def event_ok_def line_ok_def
      MaxLineSize_def MaxEventSize_def)

end
