(* ===== verification/ProviderTypes.thy ===== *)
theory ProviderTypes
  imports GoValues
begin

text \<open>
  The shared data types of package \<open>provider\<close> (\<open>src/provider/types.go\<close>): the typed string
  constants as datatypes (a last constructor carries any other string Go lets the type
  hold), the structs as records. A \<open>[]Part\<close> whose \<open>nil\<close> is tested by the code is an
  optional list. Token counts are 64-bit words, as Go's \<open>int\<close> is on the supported targets.
\<close>

section \<open>Enumerations\<close>

datatype StreamChunkType =
    ChunkText | ChunkReasoning | ChunkToolCall | ChunkToolCallDelta
  | ChunkToolCallStreamStart | ChunkToolResult | ChunkStepFinish | ChunkFinish | ChunkError
  | ChunkOther string

datatype FinishReason =
    FinishNone | FinishStop | FinishToolCalls | FinishLength | FinishContentFilter
  | FinishError | FinishOther | FinishCustom string

datatype Role = RoleSystem | RoleUser | RoleAssistant | RoleTool | RoleCustom string

datatype PartType =
    PartText | PartReasoning | PartImage | PartToolCall | PartToolResult | PartFile
  | PartCustom string

datatype StopCause =
    StopCauseUnset | StopCauseNatural | StopCauseMaxSteps | StopCausePredicate
  | StopCauseBeforeStep | StopCauseAbort | StopCauseEmpty | StopCauseNoExecutableTools
  | StopCauseCustom string

fun IsValid :: "StopCause \<Rightarrow> bool" where
  "IsValid StopCauseNatural = True"
| "IsValid StopCauseMaxSteps = True"
| "IsValid StopCausePredicate = True"
| "IsValid StopCauseBeforeStep = True"
| "IsValid StopCauseAbort = True"
| "IsValid StopCauseEmpty = True"
| "IsValid StopCauseNoExecutableTools = True"
| "IsValid _ = False"

section \<open>Structs\<close>

type_synonym float64 = "64 word" \<comment> \<open>the IEEE 754 bit pattern; the code only copies it\<close>

record Usage =
  InputTokens :: "64 word"
  OutputTokens :: "64 word"
  TotalTokens :: "64 word"
  ReasoningTokens :: "64 word"
  CacheReadTokens :: "64 word"
  CacheWriteTokens :: "64 word"

record ResponseMetadata =
  rID :: string
  rModel :: string
  rHeaders :: "(string \<times> string) list"
  rProviderMetadata :: anymap

record RemoteFileRef =
  refProvider :: string
  refID :: string
  refURI :: string
  refFilename :: string
  refMediaType :: string
  refExpiresAt :: int
  refData :: string

record Part =
  pType :: PartType
  pText :: string
  pURL :: string
  pToolCallID :: string
  pToolName :: string
  pToolInput :: string
  pToolOutput :: string
  pCacheControl :: string
  pCacheControlTTL :: string
  pDetail :: string
  pMediaType :: string
  pFilename :: string
  pRemoteRef :: "RemoteFileRef option"
  pProviderOptions :: anymap

record Message =
  mRole :: Role
  mContent :: "Part list"
  mProviderOptions :: anymap

record ToolDefinition =
  tdName :: string
  tdDescription :: string
  tdInputSchema :: string
  tdProviderDefinedType :: string
  tdProviderDefinedOptions :: anymap
  tdDeferLoading :: bool

record ToolCall =
  tcID :: string
  tcName :: string
  tcInput :: string
  tcMetadata :: anymap

record ToolResult =
  trToolCallID :: string
  trToolName :: string
  trOutput :: string
  trError :: "go_error option"
  trIsError :: bool

record ResponseFormat =
  rfName :: string
  rfSchema :: string

record GenerateParams =
  gpMessages :: "Message list"
  gpSystem :: string
  gpTools :: "ToolDefinition list"
  gpMaxOutputTokens :: int
  gpTemperature :: "float64 option"
  gpTopP :: "float64 option"
  gpTopK :: "int option"
  gpFrequencyPenalty :: "float64 option"
  gpPresencePenalty :: "float64 option"
  gpSeed :: "int option"
  gpStopSequences :: "string list"
  gpHeaders :: "(string \<times> string) list"
  gpProviderOptions :: anymap
  gpPromptCaching :: bool
  gpCacheTTL :: string
  gpToolChoice :: string
  gpResponseFormat :: "ResponseFormat option"

record GenerateResult =
  grContent :: "Part list option"
  grText :: string
  grReasoning :: string
  grReasoningParts :: "Part list"
  grToolCalls :: "ToolCall list"
  grSources :: "source list"
  grFinishReason :: FinishReason
  grUsage :: Usage
  grResponse :: ResponseMetadata
  grProviderMetadata :: metamap

record StreamChunk =
  scContent :: "Part list option"
  scType :: StreamChunkType
  scText :: string
  scToolCallID :: string
  scToolName :: string
  scToolInput :: string
  scFinishReason :: FinishReason
  scUsage :: Usage
  scError :: "go_error option"
  scResponse :: ResponseMetadata
  scMetadata :: anymap
  scStoppedBy :: StopCause

record EmbedResult =
  erEmbeddings :: "float64 list list"
  erUsage :: Usage
  erProviderMetadata :: "metamap option"
  erResponse :: ResponseMetadata

section \<open>Zero values\<close>

definition zero_Usage :: Usage where
  "zero_Usage = \<lparr>InputTokens = 0, OutputTokens = 0, TotalTokens = 0, ReasoningTokens = 0,
     CacheReadTokens = 0, CacheWriteTokens = 0\<rparr>"

definition zero_Response :: ResponseMetadata where
  "zero_Response = \<lparr>rID = [], rModel = [], rHeaders = [], rProviderMetadata = []\<rparr>"

definition zero_Part :: Part where
  "zero_Part = \<lparr>pType = PartCustom [], pText = [], pURL = [], pToolCallID = [], pToolName = [],
     pToolInput = [], pToolOutput = [], pCacheControl = [], pCacheControlTTL = [], pDetail = [],
     pMediaType = [], pFilename = [], pRemoteRef = None, pProviderOptions = []\<rparr>"

definition zero_Chunk :: StreamChunk where
  "zero_Chunk = \<lparr>scContent = None, scType = ChunkOther [], scText = [], scToolCallID = [],
     scToolName = [], scToolInput = [], scFinishReason = FinishNone, scUsage = zero_Usage,
     scError = None, scResponse = zero_Response, scMetadata = [], scStoppedBy = StopCauseUnset\<rparr>"

definition zero_Result :: GenerateResult where
  "zero_Result = \<lparr>grContent = None, grText = [], grReasoning = [], grReasoningParts = [],
     grToolCalls = [], grSources = [], grFinishReason = FinishNone, grUsage = zero_Usage,
     grResponse = zero_Response, grProviderMetadata = []\<rparr>"

lemmas zero_defs = zero_Usage_def zero_Response_def zero_Part_def zero_Chunk_def zero_Result_def

section \<open>Token usage\<close>

text \<open>\<open>addUsage\<close> of \<open>generate.go\<close>: field-wise, with Go's wrap-around.\<close>

definition addUsage :: "Usage \<Rightarrow> Usage \<Rightarrow> Usage" where
  "addUsage a b =
     \<lparr>InputTokens = InputTokens a + InputTokens b,
      OutputTokens = OutputTokens a + OutputTokens b,
      TotalTokens = TotalTokens a + TotalTokens b,
      ReasoningTokens = ReasoningTokens a + ReasoningTokens b,
      CacheReadTokens = CacheReadTokens a + CacheReadTokens b,
      CacheWriteTokens = CacheWriteTokens a + CacheWriteTokens b\<rparr>"

lemma addUsage_assoc: "addUsage (addUsage a b) c = addUsage a (addUsage b c)"
  by (simp add: addUsage_def add.assoc)

lemma addUsage_comm: "addUsage a b = addUsage b a"
  by (simp add: addUsage_def add.commute)

lemma addUsage_zero [simp]: "addUsage zero_Usage a = a" "addUsage a zero_Usage = a"
  by (simp_all add: addUsage_def zero_Usage_def)

definition total_usage :: "Usage list \<Rightarrow> Usage" where
  "total_usage us = foldl addUsage zero_Usage us"

lemma total_usage_Nil [simp]: "total_usage [] = zero_Usage"
  by (simp add: total_usage_def)

lemma total_usage_snoc [simp]: "total_usage (us @ [u]) = addUsage (total_usage us) u"
  by (simp add: total_usage_def)

lemma foldl_addUsage: "foldl addUsage a us = addUsage a (foldl addUsage zero_Usage us)"
proof (induction us arbitrary: a)
  case (Cons u us)
  have "foldl addUsage a (u # us) = addUsage (addUsage a u) (foldl addUsage zero_Usage us)"
    using Cons [of "addUsage a u"] by simp
  also have "\<dots> = addUsage a (addUsage u (foldl addUsage zero_Usage us))"
    by (rule addUsage_assoc)
  also have "\<dots> = addUsage a (foldl addUsage zero_Usage (u # us))"
    using Cons [of u] by simp
  finally show ?case .
qed simp

lemma total_usage_Cons: "total_usage (u # us) = addUsage u (total_usage us)"
  using foldl_addUsage [of u us] by (simp add: total_usage_def)

lemma total_usage_append: "total_usage (us @ vs) = addUsage (total_usage us) (total_usage vs)"
  by (induction us) (simp_all add: total_usage_Cons addUsage_assoc)

end
