(* ===== verification/AgentState.thy ===== *)
theory AgentState
  imports GoValues
begin

text \<open>
  \<open>AgentState\<close> (\<open>src/agent_state.go\<close>): the lifecycle state of a tool loop that pollers read
  while the loop runs. Step number and kind are packed into one 64-bit word, so that both change
  in one atomic store; \<open>SetTerminal\<close> is a compare-and-swap loop, modelled with several callers
  whose loads and swaps interleave in any order.
\<close>

unbundle bit_operations_syntax

section \<open>Kinds\<close>

datatype StepKind =
    StepStarting | StepLLMInFlight | StepStepFinished | StepToolExecuting | StepIdle
  | StepDone | StepCancelled | StepError
  | StepOther nat \<comment> \<open>any other value of Go's integer type, less the eight constants\<close>

fun kind_code :: "StepKind \<Rightarrow> nat" where
  "kind_code StepStarting = 0"
| "kind_code StepLLMInFlight = 1"
| "kind_code StepStepFinished = 2"
| "kind_code StepToolExecuting = 3"
| "kind_code StepIdle = 4"
| "kind_code StepDone = 5"
| "kind_code StepCancelled = 6"
| "kind_code StepError = 7"
| "kind_code (StepOther n) = n + 8"

definition kind_of_code :: "nat \<Rightarrow> StepKind" where
  "kind_of_code n =
     (if n < 8 then [StepStarting, StepLLMInFlight, StepStepFinished, StepToolExecuting, StepIdle,
                     StepDone, StepCancelled, StepError] ! n
      else StepOther (n - 8))"

lemma kind_of_kind_code [simp]: "kind_of_code (kind_code k) = k"
  by (cases k) (simp_all add: kind_of_code_def)

definition IsTerminal :: "StepKind \<Rightarrow> bool" where
  "IsTerminal k \<longleftrightarrow> k = StepDone \<or> k = StepCancelled \<or> k = StepError"

lemma IsTerminal_simps [simp]:
  "IsTerminal StepDone" "IsTerminal StepCancelled" "IsTerminal StepError"
  "\<not> IsTerminal StepStarting" "\<not> IsTerminal StepLLMInFlight" "\<not> IsTerminal StepStepFinished"
  "\<not> IsTerminal StepToolExecuting" "\<not> IsTerminal StepIdle" "\<not> IsTerminal (StepOther n)"
  by (simp_all add: IsTerminal_def)

fun StepKind_String :: "StepKind \<Rightarrow> string" where
  "StepKind_String StepStarting = ''starting''"
| "StepKind_String StepLLMInFlight = ''llm-in-flight''"
| "StepKind_String StepStepFinished = ''step-finished''"
| "StepKind_String StepToolExecuting = ''tool-executing''"
| "StepKind_String StepIdle = ''idle''"
| "StepKind_String StepDone = ''done''"
| "StepKind_String StepCancelled = ''cancelled''"
| "StepKind_String StepError = ''error''"
| "StepKind_String (StepOther _) = ''unknown''"

section \<open>The packed word\<close>

type_synonym packed = "64 word"

definition pack :: "32 word \<Rightarrow> 32 word \<Rightarrow> packed" where
  "pack step kind = (push_bit 32 (ucast step) OR ucast kind)"

definition packed_kind :: "packed \<Rightarrow> 32 word" where "packed_kind v = ucast v"
definition packed_step :: "packed \<Rightarrow> 32 word" where "packed_step v = ucast (drop_bit 32 v)"

lemma packed_kind_pack [simp]: "packed_kind (pack step kind) = kind"
  unfolding packed_kind_def pack_def
  by (rule bit_eqI) (simp add: bit_simps)

lemma packed_step_pack [simp]: "packed_step (pack step kind) = step"
  unfolding packed_step_def pack_def
  by (rule bit_eqI) (auto simp: bit_simps dest: bit_imp_le_length)

lemma pack_packed [simp]: "pack (packed_step v) (packed_kind v) = v"
  unfolding packed_step_def packed_kind_def pack_def
  by (rule bit_eqI) (auto simp: bit_simps not_le)

text \<open>\<open>Observe\<close> on a non-nil reference; a nil reference reads as \<open>(StepStarting, 0)\<close>.\<close>

definition observed :: "packed \<Rightarrow> StepKind \<times> nat" where
  "observed v = (kind_of_code (unat (packed_kind v)), unat (packed_step v))"

definition Observe :: "packed option \<Rightarrow> StepKind \<times> nat" where
  "Observe s = (case s of None \<Rightarrow> (StepStarting, 0) | Some v \<Rightarrow> observed v)"

text \<open>\<open>set\<close>: a negative step panics with an error value; a nil receiver is a no-op.\<close>

definition set_state :: "StepKind \<Rightarrow> int \<Rightarrow> packed option \<Rightarrow> go_panic + packed option" where
  "set_state kind step s =
     (case s of
        None \<Rightarrow> Inr None
      | Some _ \<Rightarrow>
          if step < 0 then Inl (PanicError (ErrMsg ''goai: negative step in AgentState.set (internal invariant violated)''))
          else Inr (Some (pack (of_int step) (of_nat (kind_code kind)))))"

section \<open>SetTerminal\<close>

text \<open>One pass of the loop body: what it loaded and what it tries to store, or its answer.\<close>

definition terminal_next :: "StepKind \<Rightarrow> packed \<Rightarrow> packed option" where
  "terminal_next kind v =
     (if IsTerminal (kind_of_code (unat (packed_kind v))) then None
      else Some (pack (packed_step v) (of_nat (kind_code kind))))"

text \<open>
  Without interference the swap succeeds at the first pass. A kind that is not terminal panics,
  a nil receiver answers \<open>false\<close>.
\<close>

definition SetTerminal :: "StepKind \<Rightarrow> packed option \<Rightarrow> go_panic + (bool \<times> packed option)" where
  "SetTerminal kind s =
     (case s of
        None \<Rightarrow> Inr (False, None)
      | Some v \<Rightarrow>
          if \<not> IsTerminal kind
          then Inl (PanicError (ErrMsg (''goai: SetTerminal requires a terminal kind (Done/Cancelled/Error), got ''
                                         @ StepKind_String kind)))
          else (case terminal_next kind v of
                  None \<Rightarrow> Inr (False, s)
                | Some next \<Rightarrow> Inr (True, Some next)))"

text \<open>The callers of a shared \<open>AgentState\<close>: each is about to load, holds a loaded word, or is done.\<close>

datatype caller = Loading StepKind | Swapping StepKind packed packed | Answered StepKind bool

record shared =
  cell :: packed
  callers :: "caller list"

fun caller_step :: "packed \<Rightarrow> caller \<Rightarrow> packed \<times> caller" where
  "caller_step v (Loading k) =
     (v, (case terminal_next k v of None \<Rightarrow> Answered k False | Some next \<Rightarrow> Swapping k v next))"
| "caller_step v (Swapping k old next) =
     (if v = old then (next, Answered k True) else (v, Loading k))"
| "caller_step v (Answered k b) = (v, Answered k b)"

text \<open>The tool loop's own unconditional store, and the steps of the callers.\<close>

inductive shared_step :: "shared \<Rightarrow> shared \<Rightarrow> bool" where
  caller: "i < length (callers s) \<Longrightarrow> caller_step (cell s) (callers s ! i) = (v, c) \<Longrightarrow>
     shared_step s \<lparr>cell = v, callers = (callers s)[i := c]\<rparr>"

code_pred shared_step .

inductive_cases shared_stepE: "shared_step s t"


inductive reachable :: "shared \<Rightarrow> shared \<Rightarrow> bool" for s0 :: shared where
  start: "reachable s0 s0"
| more: "reachable s0 s \<Longrightarrow> shared_step s t \<Longrightarrow> reachable s0 t"

definition all_loading :: "packed \<Rightarrow> StepKind list \<Rightarrow> shared" where
  "all_loading v ks = \<lparr>cell = v, callers = map Loading ks\<rparr>"

abbreviation terminal_word :: "packed \<Rightarrow> StepKind \<Rightarrow> packed" where
  "terminal_word v k \<equiv> pack (packed_step v) (of_nat (kind_code k))"

fun caller_ok :: "packed \<Rightarrow> caller \<Rightarrow> bool" where
  "caller_ok v0 (Loading k) \<longleftrightarrow> IsTerminal k"
| "caller_ok v0 (Swapping k old next) \<longleftrightarrow> IsTerminal k \<and> old = v0 \<and> next = terminal_word v0 k"
| "caller_ok v0 (Answered k b) \<longleftrightarrow> IsTerminal k"

text \<open>\<open>wins i s\<close>: the \<open>i\<close>-th caller was told that it performed the transition.\<close>

definition wins :: "nat \<Rightarrow> shared \<Rightarrow> bool" where
  "wins i s \<longleftrightarrow> i < length (callers s) \<and> (\<exists>k. callers s ! i = Answered k True)"

definition one_winner :: "packed \<Rightarrow> shared \<Rightarrow> bool" where
  "one_winner v0 s \<longleftrightarrow>
     (\<forall>i < length (callers s). caller_ok v0 (callers s ! i)) \<and>
     (\<forall>i j. wins i s \<longrightarrow> wins j s \<longrightarrow> i = j) \<and>
     (\<forall>i < length (callers s). \<forall>k. callers s ! i = Answered k True \<longrightarrow> cell s = terminal_word v0 k) \<and>
     (cell s = v0 \<or> (\<exists>i. wins i s)) \<and>
     (\<forall>i < length (callers s). \<forall>k. callers s ! i = Answered k False \<longrightarrow> (\<exists>j. wins j s))"

lemma kind_code_small: "IsTerminal k \<Longrightarrow> unat (of_nat (kind_code k) :: 32 word) = kind_code k"
  by (auto simp: IsTerminal_def)

lemma terminal_code [simp]: "IsTerminal k \<Longrightarrow> kind_of_code (unat (of_nat (kind_code k) :: 32 word)) = k"
  by (simp add: kind_code_small)

lemma terminal_next_terminal: "IsTerminal k \<Longrightarrow> terminal_next k' (terminal_word v k) = None"
  by (simp add: terminal_next_def)

lemma one_winner_step:
  assumes inv: "one_winner v0 s" and v0: "terminal_next StepDone v0 \<noteq> None" and step: "shared_step s t"
  shows "one_winner v0 t"
proof -
  from step obtain i v c where i: "i < length (callers s)"
    and c: "caller_step (cell s) (callers s ! i) = (v, c)"
    and t: "t = \<lparr>cell = v, callers = (callers s)[i := c]\<rparr>"
    by (auto elim: shared_stepE)
  have live: "\<not> IsTerminal (kind_of_code (unat (packed_kind v0)))"
    using v0 by (simp add: terminal_next_def split: if_splits)
  then have fresh: "IsTerminal k \<Longrightarrow> terminal_word v0 k \<noteq> v0" for k
    using terminal_code [of k] packed_kind_pack [of "packed_step v0" "of_nat (kind_code k)"] by metis
  have ok: "caller_ok v0 (callers s ! i)" using inv i by (simp add: one_winner_def)
  have cell_or: "cell s = v0 \<and> (\<forall>j. \<not> wins j s) \<or>
      (\<exists>j k. j < length (callers s) \<and> callers s ! j = Answered k True \<and> IsTerminal k \<and> cell s = terminal_word v0 k)"
  proof (cases "\<exists>j. wins j s")
    case True
    then obtain j k where j: "j < length (callers s)" "callers s ! j = Answered k True"
      by (auto simp: wins_def)
    then have "caller_ok v0 (Answered k True)" "cell s = terminal_word v0 k"
      using inv unfolding one_winner_def by metis+
    with j show ?thesis by auto
  next
    case False
    with inv show ?thesis by (auto simp: one_winner_def)
  qed
  show ?thesis
  proof (cases "callers s ! i")
    case (Loading k)
    with ok have k: "IsTerminal k" by simp
    have v: "v = cell s" and nw: "\<And>k. c \<noteq> Answered k True" using c Loading by (auto split: option.splits)
    have same: "wins j t = wins j s" for j
      using Loading nw i unfolding wins_def t by (auto simp: nth_list_update)
    show ?thesis
    proof (cases "terminal_next k (cell s)")
      case None
      with cell_or live have "\<exists>j. wins j s" by (auto simp: terminal_next_def wins_def split: if_splits)
      with None inv c Loading k i show ?thesis
        unfolding one_winner_def same by (auto simp: t v nth_list_update)
    next
      case (Some nxt)
      with cell_or have cell: "cell s = v0" by (auto simp: terminal_next_terminal)
      with Some live have "nxt = terminal_word v0 k" by (simp add: terminal_next_def)
      with Some inv c Loading k cell i show ?thesis
        unfolding one_winner_def same by (auto simp: t v nth_list_update)
    qed
  next
    case (Swapping k old nxt)
    with ok have k: "IsTerminal k" "old = v0" "nxt = terminal_word v0 k" by simp_all
    show ?thesis
    proof (cases "cell s = v0")
      case True
      then have c': "c = Answered k True" "v = nxt" using c Swapping k by simp_all
      from True cell_or fresh have none: "\<not> wins j s" for j by metis
      have new: "wins j t \<longleftrightarrow> j = i" for j
        using none [of j] i unfolding wins_def t c' by (auto simp: nth_list_update)
      show ?thesis
        using inv none i k unfolding one_winner_def new
        by (auto simp: t c' k nth_list_update wins_def)
    next
      case False
      then have c': "c = Loading k" "v = cell s" using c Swapping k by simp_all
      have same: "wins j t = wins j s" for j
        using Swapping i unfolding wins_def t c' by (auto simp: nth_list_update)
      show ?thesis
        using inv k i unfolding one_winner_def same by (auto simp: t c' nth_list_update)
    qed
  next
    case (Answered k b)
    then have "c = callers s ! i" "v = cell s" using c by simp_all
    then have "t = s" using t by simp
    with inv show ?thesis by simp
  qed
qed

lemma one_winner_reachable:
  assumes "reachable (all_loading v ks) s" "\<forall>k \<in> set ks. IsTerminal k"
    and "\<not> IsTerminal (fst (observed v))"
  shows "one_winner v s"
  using assms(1)
proof (induction rule: reachable.induct)
  case start
  show ?case using assms(2) by (auto simp: one_winner_def all_loading_def wins_def)
next
  case (more s t)
  from assms(3) have "terminal_next StepDone v \<noteq> None" by (simp add: terminal_next_def observed_def)
  with more show ?case using one_winner_step by blast
qed

text \<open>
  C12: \<open>SetTerminal\<close> is sticky and has one winner: any number of concurrent callers, their loads
  and compare-and-swaps interleaved in any order on a live state, never tell two of them that they
  performed the transition; a caller that is told so left its own terminal kind in the state with
  the step counter preserved, and a caller that is told no lost to another one.
\<close>

theorem SetTerminal_one_winner:
  assumes "reachable (all_loading v ks) s" "\<forall>k \<in> set ks. IsTerminal k"
    and "\<not> IsTerminal (fst (observed v))"
  shows "(wins i s \<and> wins j s \<longrightarrow> i = j) \<and>
    (i < length (callers s) \<and> callers s ! i = Answered k True \<longrightarrow> observed (cell s) = (k, snd (observed v))) \<and>
    (i < length (callers s) \<and> callers s ! i = Answered k False \<longrightarrow> (\<exists>j. wins j s))"
proof -
  note inv = one_winner_reachable [OF assms, unfolded one_winner_def]
  have "observed (cell s) = (k, snd (observed v))"
    if i: "i < length (callers s)" "callers s ! i = Answered k True"
  proof -
    have "caller_ok v (callers s ! i)" "cell s = terminal_word v k" using inv i by blast+
    then show ?thesis using i(2) unfolding observed_def by simp
  qed
  with inv show ?thesis by blast
qed

lemma SetTerminal_one_winner_witness:
  "observed (terminal_word 0 StepError) = (StepError, snd (observed 0))"
proof -
  let ?s0 = "all_loading 0 [StepDone, StepError]"
  let ?s1 = "\<lparr>cell = 0, callers = [Loading StepDone, Swapping StepError 0 (terminal_word 0 StepError)]\<rparr>"
  let ?s2 = "\<lparr>cell = terminal_word 0 StepError, callers = [Loading StepDone, Answered StepError True]\<rparr>"
  have "shared_step ?s0 \<lparr>cell = 0, callers = (callers ?s0)[1 := Swapping StepError 0 (terminal_word 0 StepError)]\<rparr>"
    by (rule shared_step.caller)
       (simp_all add: all_loading_def terminal_next_def packed_kind_def packed_step_def kind_of_code_def)
  then have "reachable ?s0 \<lparr>cell = 0, callers = (callers ?s0)[1 := Swapping StepError 0 (terminal_word 0 StepError)]\<rparr>"
    by (rule reachable.more [OF reachable.start])
  then have r1: "reachable ?s0 ?s1" by (simp add: all_loading_def)
  have "shared_step ?s1 \<lparr>cell = terminal_word 0 StepError, callers = (callers ?s1)[1 := Answered StepError True]\<rparr>"
    by (rule shared_step.caller) simp_all
  from reachable.more [OF r1 this] have r2: "reachable ?s0 ?s2" by simp
  have "\<not> IsTerminal (fst (observed 0))" by (simp add: observed_def packed_kind_def kind_of_code_def)
  from SetTerminal_one_winner [OF r2 _ this, of 1 1 StepError] show ?thesis by simp
qed

section \<open>Reading back\<close>

text \<open>
  a poller reads what the loop last stored: after \<open>set(kind, step)\<close>, \<open>Observe\<close> gives that kind
  and step, for every declared kind and every step of 32 bits; a nil reference ignores the store.
\<close>

theorem Observe_after_set:
  assumes "set_state kind (int step) s = Inr s'" "step < 2 ^ 32" "kind_code kind < 2 ^ 32"
  shows "Observe s' = (if s = None then (StepStarting, 0) else (kind, step))"
proof -
  have "unat (of_nat n :: 32 word) = n" if "n < 2 ^ 32" for n
    using that by (simp add: unat_of_nat take_bit_nat_eq_self)
  with assms show ?thesis
    by (auto simp: set_state_def Observe_def observed_def split: option.splits)
qed

lemma Observe_after_set_witness:
  "Observe (Some (pack (of_int 3) (of_nat (kind_code StepToolExecuting)))) = (StepToolExecuting, 3)"
  using Observe_after_set [of StepToolExecuting 3 "Some 0" "Some (pack (of_int 3) (of_nat (kind_code StepToolExecuting)))"]
  by (simp add: set_state_def)

text \<open>The store is unconditional: it replaces a terminal kind as well.\<close>

lemma set_leaves_terminal:
  assumes "SetTerminal StepDone (Some v) = Inr (b, s)"
  shows "\<exists>s'. set_state StepIdle 0 s = Inr s' \<and> Observe s' = (StepIdle, 0)"
proof -
  obtain w where "s = Some w" using assms by (auto simp: SetTerminal_def terminal_next_def split: if_splits)
  then show ?thesis
    by (simp add: set_state_def Observe_def observed_def kind_of_code_def)
qed

end
