(* ===== verification/Effects.thy ===== *)
theory Effects
  imports GoValues
begin

text \<open>
  Go statements as state transformers: a statement ends normally with a value, panics, or
  returns early from the enclosing function. \<open>wp\<close> is the weakest precondition of a statement for
  the three ways of ending; the component proofs go through it.
\<close>

named_theorems wp_intros

datatype ('r, 'a) outcome = Value 'a | Panics go_panic | Returns 'r

type_synonym ('s, 'r, 'a) stmt = "'s \<Rightarrow> ('r, 'a) outcome \<times> 's"

definition pure :: "'a \<Rightarrow> ('s, 'r, 'a) stmt" where
  "pure x = (\<lambda>s. (Value x, s))"

definition andThen :: "('s, 'r, 'a) stmt \<Rightarrow> ('a \<Rightarrow> ('s, 'r, 'b) stmt) \<Rightarrow> ('s, 'r, 'b) stmt" where
  "andThen m f = (\<lambda>s. case m s of
      (Value x, s') \<Rightarrow> f x s'
    | (Panics p, s') \<Rightarrow> (Panics p, s')
    | (Returns r, s') \<Rightarrow> (Returns r, s'))"

definition modify :: "('s \<Rightarrow> 's) \<Rightarrow> ('s, 'r, unit) stmt" where
  "modify f = (\<lambda>s. (Value (), f s))"

definition reads_state :: "('s \<Rightarrow> ('s, 'r, 'a) stmt) \<Rightarrow> ('s, 'r, 'a) stmt" where
  "reads_state f = (\<lambda>s. f s s)"

definition return_early :: "'r \<Rightarrow> ('s, 'r, 'a) stmt" where
  "return_early r = (\<lambda>s. (Returns r, s))"

definition go_panics :: "go_panic \<Rightarrow> ('s, 'r, 'a) stmt" where
  "go_panics p = (\<lambda>s. (Panics p, s))"

primrec for_each :: "('x \<Rightarrow> ('s, 'r, unit) stmt) \<Rightarrow> 'x list \<Rightarrow> ('s, 'r, unit) stmt" where
  "for_each f [] = pure ()"
| "for_each f (x # xs) = andThen (f x) (\<lambda>_. for_each f xs)"

text \<open>A function body as a statement of its caller: its \<open>return\<close> is the value of the call.\<close>

definition call_body :: "('s, 'a, 'a) stmt \<Rightarrow> ('s, 'r, 'a) stmt" where
  "call_body m = (\<lambda>s. case m s of
      (Value x, s') \<Rightarrow> (Value x, s')
    | (Returns x, s') \<Rightarrow> (Value x, s')
    | (Panics p, s') \<Rightarrow> (Panics p, s'))"

text \<open>\<open>defer\<close> of a statement that runs on every way out and recovers from a panic.\<close>

definition recovering :: "('s, 'r, 'a) stmt \<Rightarrow> (go_panic \<Rightarrow> ('s, 'r, 'a) stmt) \<Rightarrow> ('s, 'r, 'a) stmt" where
  "recovering m handler = (\<lambda>s. case m s of
      (Panics p, s') \<Rightarrow> handler p s'
    | other \<Rightarrow> other)"

definition finally_do :: "('s, 'r, 'a) stmt \<Rightarrow> ('s \<Rightarrow> 's) \<Rightarrow> ('s, 'r, 'a) stmt" where
  "finally_do m f = (\<lambda>s. case m s of (r, s') \<Rightarrow> (r, f s'))"

text \<open>\<open>defer\<close> of a statement that may itself panic: the later panic replaces the earlier one.\<close>

definition deferring :: "('s, 'r, 'a) stmt \<Rightarrow> ('s, 'r, unit) stmt \<Rightarrow> ('s, 'r, 'a) stmt" where
  "deferring m d = (\<lambda>s. case m s of (r, s') \<Rightarrow>
     (case d s' of (Panics p, s'') \<Rightarrow> (Panics p, s'') | (_, s'') \<Rightarrow> (r, s'')))"

section \<open>Weakest preconditions\<close>

definition wp :: "('s, 'r, 'a) stmt \<Rightarrow> ('a \<Rightarrow> 's \<Rightarrow> bool) \<Rightarrow> (go_panic \<Rightarrow> 's \<Rightarrow> bool) \<Rightarrow>
    ('r \<Rightarrow> 's \<Rightarrow> bool) \<Rightarrow> 's \<Rightarrow> bool" where
  "wp m Q E R s = (case m s of
      (Value x, s') \<Rightarrow> Q x s' | (Panics p, s') \<Rightarrow> E p s' | (Returns r, s') \<Rightarrow> R r s')"

lemma wp_pure [simp]: "wp (pure x) Q E R s = Q x s"
  by (simp add: wp_def pure_def)

lemma wp_andThen [simp]: "wp (andThen m f) Q E R s = wp m (\<lambda>x. wp (f x) Q E R) E R s"
  by (auto simp: wp_def andThen_def split: prod.split outcome.split)

lemma wp_modify [simp]: "wp (modify f) Q E R s = Q () (f s)"
  by (simp add: wp_def modify_def)

lemma wp_reads_state [simp]: "wp (reads_state f) Q E R s = wp (f s) Q E R s"
  by (simp add: wp_def reads_state_def)

lemma wp_return_early [simp]: "wp (return_early r) Q E R s = R r s"
  by (simp add: wp_def return_early_def)

lemma wp_go_panics [simp]: "wp (go_panics p) Q E R s = E p s"
  by (simp add: wp_def go_panics_def)

lemma wp_call_body [simp]: "wp (call_body m) Q E R s = wp m Q E Q s"
  by (auto simp: wp_def call_body_def split: prod.split outcome.split)

lemma wp_recovering [simp]: "wp (recovering m h) Q E R s = wp m Q (\<lambda>p. wp (h p) Q E R) R s"
  by (auto simp: wp_def recovering_def split: prod.split outcome.split)

lemma wp_finally_do [simp]:
  "wp (finally_do m f) Q E R s = wp m (\<lambda>x s. Q x (f s)) (\<lambda>p s. E p (f s)) (\<lambda>r s. R r (f s)) s"
  by (auto simp: wp_def finally_do_def split: prod.split outcome.split)

lemma wp_deferring [simp]:
  "wp (deferring m d) Q E R s =
     wp m (\<lambda>x s. wp d (\<lambda>_. Q x) E (\<lambda>_. Q x) s) (\<lambda>p s. wp d (\<lambda>_. E p) E (\<lambda>_. E p) s)
          (\<lambda>r s. wp d (\<lambda>_. R r) E (\<lambda>_. R r) s) s"
  by (auto simp: wp_def deferring_def split: prod.split outcome.split)

lemma wp_if [simp]:
  "wp (if b then m else n) Q E R s = (if b then wp m Q E R s else wp n Q E R s)"
  by simp

lemma wp_mono:
  assumes "wp m Q E R s" "\<And>x s. Q x s \<Longrightarrow> Q' x s" "\<And>p s. E p s \<Longrightarrow> E' p s" "\<And>r s. R r s \<Longrightarrow> R' r s"
  shows "wp m Q' E' R' s"
  using assms by (auto simp: wp_def split: prod.splits outcome.splits)

lemma wp_conj:
  "wp m Q E R s \<Longrightarrow> wp m Q' E' R' s \<Longrightarrow>
     wp m (\<lambda>x s. Q x s \<and> Q' x s) (\<lambda>p s. E p s \<and> E' p s) (\<lambda>r s. R r s \<and> R' r s) s"
  by (auto simp: wp_def split: prod.splits outcome.splits)

text \<open>An invariant of a loop over a list, with the elements already processed.\<close>

lemma wp_for_each:
  assumes "I [] s"
    and "\<And>ys x zs s. xs = ys @ x # zs \<Longrightarrow> I ys s \<Longrightarrow> wp (f x) (\<lambda>_. I (ys @ [x])) E R s"
    and "\<And>s. I xs s \<Longrightarrow> Q () s"
  shows "wp (for_each f xs) Q E R s"
proof -
  have "wp (for_each f zs) (\<lambda>_. I xs) E R s" if "I ys s" "xs = ys @ zs" for ys zs s
    using that
  proof (induction zs arbitrary: ys s)
    case (Cons x zs)
    have "wp (f x) (\<lambda>_. I (ys @ [x])) E R s" using assms(2) Cons.prems by blast
    then show ?case using Cons.IH [of "ys @ [x]"] Cons.prems(2) by (auto elim: wp_mono)
  qed simp
  from this [of "[]" s xs] assms(1,3) show ?thesis by (auto elim!: wp_mono)
qed

lemma wp_result: "wp m Q E R s \<Longrightarrow> m s = (Value x, s') \<Longrightarrow> Q x s'"
  and wp_panics: "wp m Q E R s \<Longrightarrow> m s = (Panics p, s') \<Longrightarrow> E p s'"
  and wp_returns: "wp m Q E R s \<Longrightarrow> m s = (Returns r, s') \<Longrightarrow> R r s'"
  by (simp_all add: wp_def)

end
