(* ===== verification/Hooks.thy ===== *)
theory Hooks
  imports ProviderTypes AgentState Effects
begin

text \<open>
  The user callbacks of a generation call (\<open>src/hooks.go\<close>), the results they see
  (\<open>StepResult\<close>, \<open>TextResult\<close> of \<open>src/generate.go\<close>) and the panic handling around them
  (\<open>src/panic.go\<close>). A callback is a function of everything observable that happened so far, the
  event list, so that it may keep state of its own; it ends normally or panics. Clock readings
  (latencies, timestamps, durations) are left out of the info records.
\<close>

section \<open>Results\<close>

record StepResult =
  srContent :: "Part list option"
  srNumber :: nat
  srText :: string
  srReasoning :: string
  srToolCalls :: "ToolCall list"
  srToolResults :: "ToolResult list"
  srFinishReason :: FinishReason
  srUsage :: Usage
  srResponse :: ResponseMetadata
  srProviderMetadata :: metamap
  srSources :: "source list"

record TextResult =
  txText :: string
  txReasoning :: string
  txToolCalls :: "ToolCall list"
  txSteps :: "StepResult list"
  txTotalUsage :: Usage
  txFinishReason :: FinishReason
  txResponse :: ResponseMetadata
  txProviderMetadata :: metamap
  txSources :: "source list"
  txStepsExhausted :: bool
  txResponseMessages :: "Message list"

section \<open>What the callbacks are told\<close>

text \<open>A context: the tool call id it carries and the identity of a context made by the user.\<close>

record go_context =
  ctxToolCallID :: string
  ctxUser :: string

record RequestInfo =
  rqMessageCount :: nat
  rqToolCount :: nat
  rqMessages :: "Message list"

record ResponseInfo =
  rsUsage :: Usage
  rsFinishReason :: FinishReason
  rsError :: "go_error option"
  rsStatusCode :: int

record ToolCallInfo =
  tiToolCallID :: string
  tiToolName :: string
  tiStep :: nat
  tiInput :: string
  tiOutput :: string
  tiOutputObject :: "any option"
  tiSkipped :: bool
  tiError :: "go_error option"
  tiMetadata :: anymap

record FinishInfo =
  fiStepsExhausted :: bool
  fiTotalSteps :: nat
  fiTotalUsage :: Usage
  fiFinishReason :: FinishReason
  fiStoppedBy :: StopCause

record ToolCallStartInfo =
  tsToolCallID :: string
  tsToolName :: string
  tsStep :: nat
  tsInput :: string

record BeforeToolExecuteInfo =
  beCtx :: go_context
  beToolCallID :: string
  beToolName :: string
  beStep :: nat
  beInput :: string

record BeforeToolExecuteResult =
  bxSkip :: bool
  bxResult :: string
  bxError :: "go_error option"
  bxCtx :: "go_context option"
  bxInput :: "string option"

record AfterToolExecuteInfo =
  aeCtx :: go_context
  aeToolCallID :: string
  aeToolName :: string
  aeStep :: nat
  aeInput :: string
  aeOutput :: string
  aeError :: "go_error option"

record AfterToolExecuteResult =
  axOutput :: string
  axError :: "go_error option"
  axMetadata :: anymap

record BeforeStepInfo =
  bsStep :: nat
  bsMessages :: "Message list"

record BeforeStepResult =
  brExtraMessages :: "Message list"
  brStop :: bool

section \<open>The observable history\<close>

datatype event =
    EvState StepKind nat \<comment> \<open>\<open>StateRef.set\<close>\<close>
  | EvRequest RequestInfo
  | EvGenerate GenerateParams \<comment> \<open>one call of the model\<close>
  | EvRetry nat go_error int \<comment> \<open>\<open>RetryObserver\<close>\<close>
  | EvResponse ResponseInfo
  | EvStepFinish StepResult
  | EvFinish FinishInfo
  | EvBeforeStep BeforeStepInfo
  | EvStopWhen "StepResult list"
  | EvToolStart ToolCallStartInfo
  | EvToolBefore BeforeToolExecuteInfo
  | EvToolExecute string go_context string \<comment> \<open>name, context and input of an \<open>Execute\<close> call\<close>
  | EvToolAfter AfterToolExecuteInfo
  | EvToolCall ToolCallInfo
  | EvPanic string go_panic \<comment> \<open>\<open>OnPanic\<close>\<close>

record world =
  hist :: "event list"

type_synonym ('i, 'o) hook = "event list \<Rightarrow> 'i \<Rightarrow> go_panic + 'o"

definition log_event :: "event \<Rightarrow> ('z world_scheme, 'r, unit) stmt" where
  "log_event ev = modify (\<lambda>s. s\<lparr>hist := hist s @ [ev]\<rparr>)"

lemma wp_log_event [simp]: "wp (log_event ev) Q E R s = Q () (s\<lparr>hist := hist s @ [ev]\<rparr>)"
  by (simp add: log_event_def)

text \<open>A callback is entered (and so observed) before it can panic.\<close>

definition invoke :: "event \<Rightarrow> ('i, 'o) hook \<Rightarrow> 'i \<Rightarrow> ('z world_scheme, 'r, 'o) stmt" where
  "invoke ev f i = andThen (log_event ev) (\<lambda>_. reads_state (\<lambda>s.
     case f (hist s) i of Inl p \<Rightarrow> go_panics p | Inr x \<Rightarrow> pure x))"

lemma wp_invoke [simp]:
  "wp (invoke ev f i) Q E R s =
     (case f (hist s @ [ev]) i of Inl p \<Rightarrow> E p (s\<lparr>hist := hist s @ [ev]\<rparr>)
                               | Inr x \<Rightarrow> Q x (s\<lparr>hist := hist s @ [ev]\<rparr>))"
  by (simp add: invoke_def split: sum.split)

section \<open>Panics\<close>

text \<open>
  \<open>n\<close> stands for the registered \<open>OnPanic\<close> observers. They are all called; whatever they do,
  a panic of their own included, is discarded.
\<close>

definition firePanicHooks :: "nat \<Rightarrow> string \<Rightarrow> go_panic \<Rightarrow> ('z world_scheme, 'r, unit) stmt" where
  "firePanicHooks n phase r = modify (\<lambda>s. s\<lparr>hist := hist s @ replicate n (EvPanic phase r)\<rparr>)"

definition firePanic :: "nat \<Rightarrow> string \<Rightarrow> go_panic \<Rightarrow> ('z world_scheme, 'r, unit) stmt" where
  "firePanic n phase r = firePanicHooks n phase r"

definition newPanicError :: "nat \<Rightarrow> string \<Rightarrow> go_panic \<Rightarrow> ('z world_scheme, 'r, go_error) stmt" where
  "newPanicError n phase r = andThen (firePanicHooks n phase r) (\<lambda>_. pure (ErrPanic phase r))"

definition asPanicError :: "go_panic \<Rightarrow> go_error option" where
  "asPanicError r = (case r of
      PanicError e \<Rightarrow> map_option (\<lambda>(phase, v). ErrPanic phase v) (as_PanicError e)
    | PanicValue _ \<Rightarrow> None)"

definition callHook :: "nat \<Rightarrow> string \<Rightarrow> ('z world_scheme, 'r, 'a) stmt \<Rightarrow> ('z world_scheme, 'r, 'a) stmt" where
  "callHook n phase fn = recovering fn (\<lambda>r. case asPanicError r of
      Some pe \<Rightarrow> go_panics (PanicError pe)
    | None \<Rightarrow> andThen (newPanicError n phase r) (\<lambda>pe. go_panics (PanicError pe)))"

definition recoverToError ::
  "nat \<Rightarrow> ('z world_scheme, go_error + 'x, 'a) stmt \<Rightarrow> ('z world_scheme, go_error + 'x, 'a) stmt" where
  "recoverToError n body = recovering body (\<lambda>r. case asPanicError r of
      Some pe \<Rightarrow> return_early (Inl pe)
    | None \<Rightarrow> andThen (newPanicError n ''internal'' r) (\<lambda>pe. return_early (Inl pe)))"

text \<open>\<open>recoverToStreamErr\<close>: the error goes to the stream's \<open>set\<close> function.\<close>

definition recoverToStreamErr ::
  "nat \<Rightarrow> string \<Rightarrow> (go_error \<Rightarrow> 'z world_scheme \<Rightarrow> 'z world_scheme) \<Rightarrow>
   ('z world_scheme, 'r, unit) stmt \<Rightarrow> ('z world_scheme, 'r, unit) stmt" where
  "recoverToStreamErr n phase store body = recovering body (\<lambda>r. case asPanicError r of
      Some pe \<Rightarrow> modify (store pe)
    | None \<Rightarrow> andThen (newPanicError n phase r) (\<lambda>pe. modify (store pe)))"

lemmas panic_defs = firePanicHooks_def firePanic_def newPanicError_def callHook_def
  recoverToError_def recoverToStreamErr_def

lemma asPanicError_PanicError [simp]: "asPanicError (PanicError (ErrPanic phase v)) = Some (ErrPanic phase v)"
  by (simp add: asPanicError_def)

lemma wp_firePanicHooks [simp]:
  "wp (firePanicHooks n phase r) Q E R s = Q () (s\<lparr>hist := hist s @ replicate n (EvPanic phase r)\<rparr>)"
  by (simp add: firePanicHooks_def)

text \<open>What \<open>callHook\<close> turns a panic into, and what it tells the observers.\<close>

definition hook_panic :: "string \<Rightarrow> go_panic \<Rightarrow> go_error" where
  "hook_panic phase r = (case asPanicError r of Some pe \<Rightarrow> pe | None \<Rightarrow> ErrPanic phase r)"

definition panic_events :: "nat \<Rightarrow> string \<Rightarrow> go_panic \<Rightarrow> event list" where
  "panic_events n phase r = (case asPanicError r of Some _ \<Rightarrow> [] | None \<Rightarrow> replicate n (EvPanic phase r))"

lemma wp_callHook [simp]:
  "wp (callHook n phase fn) Q E R s =
     wp fn Q (\<lambda>r s. E (PanicError (hook_panic phase r)) (s\<lparr>hist := hist s @ panic_events n phase r\<rparr>)) R s"
  by (simp add: callHook_def newPanicError_def hook_panic_def panic_events_def wp_def
      andThen_def go_panics_def pure_def firePanicHooks_def modify_def recovering_def
      split: option.split prod.split outcome.split)

lemma wp_recoverToError [simp]:
  "wp (recoverToError n body) Q E R s =
     wp body Q (\<lambda>r s. R (Inl (hook_panic ''internal'' r)) (s\<lparr>hist := hist s @ panic_events n ''internal'' r\<rparr>)) R s"
  by (simp add: recoverToError_def newPanicError_def hook_panic_def panic_events_def wp_def
      andThen_def return_early_def pure_def firePanicHooks_def modify_def recovering_def
      split: option.split prod.split outcome.split)

lemma hook_panic_again [simp]:
  "asPanicError (PanicError (hook_panic phase r)) = Some (hook_panic phase r)"
  by (auto simp: hook_panic_def asPanicError_def split: option.splits go_panic.splits)

lemma panic_events_again [simp]: "panic_events n phase' (PanicError (hook_panic phase r)) = []"
  by (simp add: panic_events_def)

lemma hook_panic_idem [simp]: "hook_panic phase' (PanicError (hook_panic phase r)) = hook_panic phase r"
  by (simp add: hook_panic_def [of phase'])

text \<open>Running a list of callbacks of the same kind, each wrapped by \<open>callHook\<close>.\<close>

definition call_hooks :: "nat \<Rightarrow> string \<Rightarrow> event \<Rightarrow> ('i, unit) hook list \<Rightarrow> 'i \<Rightarrow> ('z world_scheme, 'r, unit) stmt" where
  "call_hooks n phase ev fs i = for_each (\<lambda>f. callHook n phase (invoke ev f i)) fs"

text \<open>
  A panicking callback surfaces exactly once: let \<open>f\<close> be the first of a group of callbacks to panic, under
  any nesting of further \<open>callHook\<close>s, with any code behind the group, and \<open>recoverToError\<close> at the entry
  point. The callbacks in front of it have run, nothing behind it does, and its panic becomes the returned error:
  a panic that already is a \<open>PanicError\<close> as it stands and unreported, any other wrapped with the phase of the
  group and told to every \<open>OnPanic\<close> observer once.
\<close>

lemma wp_nested_hooks:
  "wp (foldr (callHook n) outers m) Q E R s =
     wp m Q (\<lambda>r s. if outers = [] then E r s
                    else E (PanicError (hook_panic (last outers) r))
                           (s\<lparr>hist := hist s @ panic_events n (last outers) r\<rparr>)) R s"
  by (induction outers arbitrary: E) auto

lemma wp_group_panics:
  fixes s :: "'z world_scheme" and k :: "unit \<Rightarrow> ('z world_scheme, 'r, 'a) stmt"
  assumes "\<forall>g\<in>set gs. \<forall>h. g h i = Inr ()" "\<forall>h. f h i = Inl p"
  shows "wp (andThen (call_hooks n phase ev (gs @ f # fs) i) k) Q E R s =
     E (PanicError (hook_panic phase p))
       (s\<lparr>hist := hist s @ replicate (Suc (length gs)) ev @ panic_events n phase p\<rparr>)"
  using assms(1)
proof (induction gs arbitrary: s)
  case (Cons g gs)
  then show ?case by (simp add: call_hooks_def)
qed (use assms(2) in \<open>simp add: call_hooks_def\<close>)

lemma panic_reported_once:
  fixes s :: "'z world_scheme" and k :: "unit \<Rightarrow> ('z world_scheme, go_error + 'x, 'a) stmt"
  assumes "\<forall>g\<in>set gs. \<forall>h. g h i = Inr ()" "\<forall>h. f h i = Inl p"
  shows "recoverToError n (foldr (callHook n) outers (andThen (call_hooks n phase ev (gs @ f # fs) i) k)) s =
    (case asPanicError p of
       Some pe \<Rightarrow> (Returns (Inl pe), s\<lparr>hist := hist s @ replicate (Suc (length gs)) ev\<rparr>)
     | None \<Rightarrow> (Returns (Inl (ErrPanic phase p)),
         s\<lparr>hist := hist s @ replicate (Suc (length gs)) ev @ replicate n (EvPanic phase p)\<rparr>))"
proof -
  let ?m = "recoverToError n (foldr (callHook n) outers (andThen (call_hooks n phase ev (gs @ f # fs) i) k))"
  let ?s = "s\<lparr>hist := hist s @ replicate (Suc (length gs)) ev @ panic_events n phase p\<rparr>"
  note group = wp_group_panics [where gs = gs and f = f and i = i and p = p, OF assms]
  have "wp ?m (\<lambda>_ _. False) (\<lambda>_ _. False) (\<lambda>r s'. r = Inl (hook_panic phase p) \<and> s' = ?s) s"
    by (simp add: wp_nested_hooks group del: wp_andThen)
  then have "?m s = (Returns (Inl (hook_panic phase p)), ?s)"
    by (auto simp: wp_def split: prod.splits outcome.splits)
  then show ?thesis by (simp add: hook_panic_def panic_events_def split: option.split)
qed

end
