(* ===== verification/Messages.thy ===== *)
theory Messages
  imports Hooks
begin

text \<open>
  Building requests and transcripts: message constructors (\<open>src/messages.go\<close>), prompt caching
  (\<open>src/caching.go\<close>), the JSON overlay (\<open>src/internal/jsonmerge\<close>), and from
  \<open>src/generate.go\<close> the request parameters, the tool table and the functions that fold a step
  into the conversation and into \<open>ResponseMessages\<close>. Copies made against aliasing
  (\<open>slices.Clone\<close>, \<open>maps.Clone\<close>) are the identity on values.
\<close>

section \<open>Message constructors\<close>

definition SystemMessage :: "string \<Rightarrow> Message" where
  "SystemMessage text = \<lparr>mRole = RoleSystem,
     mContent = [zero_Part\<lparr>pType := PartText, pText := text\<rparr>], mProviderOptions = []\<rparr>"

definition UserMessage :: "string \<Rightarrow> Message" where
  "UserMessage text = \<lparr>mRole = RoleUser,
     mContent = [zero_Part\<lparr>pType := PartText, pText := text\<rparr>], mProviderOptions = []\<rparr>"

definition AssistantMessage :: "string \<Rightarrow> Message" where
  "AssistantMessage text = \<lparr>mRole = RoleAssistant,
     mContent = [zero_Part\<lparr>pType := PartText, pText := text\<rparr>], mProviderOptions = []\<rparr>"

definition ToolMessage :: "string \<Rightarrow> string \<Rightarrow> string \<Rightarrow> Message" where
  "ToolMessage toolCallID toolName output = \<lparr>mRole = RoleTool,
     mContent = [zero_Part\<lparr>pType := PartToolResult, pToolCallID := toolCallID,
                           pToolName := toolName, pToolOutput := output\<rparr>],
     mProviderOptions = []\<rparr>"

lemma message_roles [simp]:
  "mRole (SystemMessage t) = RoleSystem" "mRole (UserMessage t) = RoleUser"
  "mRole (AssistantMessage t) = RoleAssistant" "mRole (ToolMessage i n t) = RoleTool"
  by (simp_all add: SystemMessage_def UserMessage_def AssistantMessage_def ToolMessage_def)

section \<open>Prompt caching\<close>

definition cacheControlEphemeral :: string where "cacheControlEphemeral = ''ephemeral''"

definition mark_cached :: "string \<Rightarrow> Message \<Rightarrow> Message" where
  "mark_cached ttl m =
     (if mRole m \<noteq> RoleSystem then m
      else if mContent m = [] then m
      else
        let lastIdx = length (mContent m) - 1 in
        m\<lparr>mContent := (mContent m)[lastIdx := (mContent m ! lastIdx)
            \<lparr>pCacheControl := cacheControlEphemeral, pCacheControlTTL := ttl\<rparr>]\<rparr>)"

definition applyCaching :: "Message list \<Rightarrow> string \<Rightarrow> Message list" where
  "applyCaching msgs ttl = map (mark_cached ttl) msgs"

section \<open>JSON overlay\<close>

text \<open>
  \<open>jsonmerge.Deep\<close>. The iteration order of the overlay does not matter for the result as a map,
  see \<open>Deep_lookup\<close> below.
\<close>

function Deep :: "anymap \<Rightarrow> anymap \<Rightarrow> anymap" where
  "Deep base [] = base"
| "Deep base ((k, v) # overlay) =
     Deep (AList.update k
             (case (map_of base k, v) of
                (Some (AMap existing), AMap nxt) \<Rightarrow> AMap (Deep existing nxt)
              | _ \<Rightarrow> v) base) overlay"
  by pat_completeness auto
termination
  by (relation "measure (\<lambda>(_, overlay). size_list (size_prod (\<lambda>_. 0) size) overlay)") auto

section \<open>Tools\<close>

record Tool =
  tlName :: string
  tlDescription :: string
  tlInputSchema :: string
  tlProviderDefinedType :: string
  tlProviderDefinedOptions :: anymap
  tlDeferLoading :: bool
  tlExecute :: "(go_context \<times> string, string \<times> go_error option) hook option"

definition ToolDefinitions :: "Tool list \<Rightarrow> ToolDefinition list" where
  "ToolDefinitions tools = map (\<lambda>t.
     \<lparr>tdName = tlName t, tdDescription = tlDescription t, tdInputSchema = tlInputSchema t,
      tdProviderDefinedType = tlProviderDefinedType t,
      tdProviderDefinedOptions = tlProviderDefinedOptions t, tdDeferLoading = tlDeferLoading t\<rparr>) tools"

definition hasProviderDefinedTools :: "ToolDefinition list \<Rightarrow> bool" where
  "hasProviderDefinedTools tools \<longleftrightarrow> list_ex (\<lambda>t. tdProviderDefinedType t \<noteq> []) tools"

text \<open>The name table; an empty table is Go's nil map. The left side is the duplicate name.\<close>

type_synonym toolmap = "(string \<times> Tool) list"

fun tool_map_loop :: "Tool list \<Rightarrow> string list \<Rightarrow> toolmap \<Rightarrow> go_error + toolmap" where
  "tool_map_loop [] seen m = Inr m"
| "tool_map_loop (t # ts) seen m =
     (if tlName t = [] then tool_map_loop ts seen m
      else if tlName t \<in> set seen
      then Inl (ErrMsg (''goai: duplicate tool name '' @ go_quote (tlName t) @ '': tool names must be unique''))
      else tool_map_loop ts (tlName t # seen)
             (if tlExecute t \<noteq> None then AList.update (tlName t) t m else m))"

definition buildToolMap :: "Tool list \<Rightarrow> go_error + toolmap" where
  "buildToolMap tools = tool_map_loop tools [] []"

definition isProviderExecuted :: "ToolCall \<Rightarrow> bool" where
  "isProviderExecuted tc \<longleftrightarrow>
     get_bool (tcMetadata tc) ''providerExecuted'' = Some True \<or>
     has_key (tcMetadata tc) ''resultBlock'' \<or> has_key (tcMetadata tc) ''rawItem''"

section \<open>Request parameters\<close>

text \<open>The options of a call that concern the request (\<open>options\<close> in \<open>src/options.go\<close>).\<close>

record request_options =
  oSystem :: string
  oPrompt :: string
  oMessages :: "Message list"
  oTools :: "Tool list"
  oMaxOutputTokens :: int
  oTemperature :: "float64 option"
  oTopP :: "float64 option"
  oTopK :: "int option"
  oFrequencyPenalty :: "float64 option"
  oPresencePenalty :: "float64 option"
  oSeed :: "int option"
  oStopSequences :: "string list"
  oHeaders :: "(string \<times> string) list"
  oProviderOptions :: anymap
  oPromptCaching :: bool
  oCacheTTL :: string
  oToolChoice :: string

definition buildParams :: "'z request_options_scheme \<Rightarrow> GenerateParams" where
  "buildParams opts =
     (let msgs = (if oPrompt opts \<noteq> [] then UserMessage (oPrompt opts) # oMessages opts else oMessages opts);
          msgs' = (if oPromptCaching opts then applyCaching msgs (oCacheTTL opts) else msgs)
      in \<lparr>gpMessages = msgs', gpSystem = oSystem opts, gpTools = ToolDefinitions (oTools opts),
          gpMaxOutputTokens = oMaxOutputTokens opts, gpTemperature = oTemperature opts, gpTopP = oTopP opts,
          gpTopK = oTopK opts, gpFrequencyPenalty = oFrequencyPenalty opts,
          gpPresencePenalty = oPresencePenalty opts, gpSeed = oSeed opts,
          gpStopSequences = oStopSequences opts, gpHeaders = oHeaders opts,
          gpProviderOptions = oProviderOptions opts, gpPromptCaching = oPromptCaching opts,
          gpCacheTTL = oCacheTTL opts, gpToolChoice = oToolChoice opts, gpResponseFormat = None\<rparr>)"

definition setPreviousResponseID :: "GenerateParams \<Rightarrow> ResponseMetadata \<Rightarrow> GenerateParams" where
  "setPreviousResponseID params response =
     (let po = gpProviderOptions params in
      if get_bool (rProviderMetadata response) ''store'' = Some False then
        (if get_bool po ''goaiAutoPreviousResponseID'' = Some True
         then params\<lparr>gpProviderOptions :=
                AList.delete ''goaiAutoPreviousResponseID'' (AList.delete ''previousResponseId'' po)\<rparr>
         else params)
      else if \<not> has_prefix (rID response) ''resp_'' then params
      else if get_bool po ''store'' = Some False then params
      else if has_key po ''previousResponseId'' then params
      else if has_key po ''previous_response_id'' then params
      else params\<lparr>gpProviderOptions :=
             AList.update ''goaiAutoPreviousResponseID'' (ABool True)
               (AList.update ''previousResponseId'' (AStr (rID response)) po)\<rparr>)"

definition requestMessages :: "string \<Rightarrow> Message list \<Rightarrow> Message list" where
  "requestMessages system msgs = (if system = [] then msgs else SystemMessage system # msgs)"

section \<open>Folding a step into the conversation\<close>

definition tool_call_part :: "ToolCall \<Rightarrow> Part" where
  "tool_call_part tc = zero_Part\<lparr>pType := PartToolCall, pToolCallID := tcID tc,
     pToolName := tcName tc, pToolInput := tcInput tc, pProviderOptions := tcMetadata tc\<rparr>"

definition text_parts :: "string \<Rightarrow> Part list" where
  "text_parts text = (if text = [] then [] else [zero_Part\<lparr>pType := PartText, pText := text\<rparr>])"

definition assistant :: "Part list \<Rightarrow> Message" where
  "assistant parts = \<lparr>mRole = RoleAssistant, mContent = parts, mProviderOptions = []\<rparr>"

definition buildFinalAssistantMessages ::
  "string \<Rightarrow> ToolCall list \<Rightarrow> Part list \<Rightarrow> Part list option \<Rightarrow> Message list" where
  "buildFinalAssistantMessages text toolCalls reasoning content =
     (case content of
        Some parts \<Rightarrow> if parts = [] then [] else [assistant parts]
      | None \<Rightarrow>
          let parts = reasoning @ text_parts text @ map tool_call_part toolCalls in
          if parts = [] then [] else [assistant parts])"

definition appendToolRoundTrip ::
  "Message list \<Rightarrow> string \<Rightarrow> Part list \<Rightarrow> ToolCall list \<Rightarrow> Message list \<Rightarrow> Part list option \<Rightarrow> Message list" where
  "appendToolRoundTrip msgs text reasoning toolCalls toolMsgs content =
     (case content of
        Some _ \<Rightarrow> msgs @ buildFinalAssistantMessages text toolCalls reasoning content @ toolMsgs
      | None \<Rightarrow>
          let parts = map (\<lambda>r. zero_Part\<lparr>pType := pType r, pText := pText r,
                                          pProviderOptions := pProviderOptions r\<rparr>) reasoning
                      @ text_parts text @ map tool_call_part toolCalls
          in msgs @ [assistant parts] @ toolMsgs)"

definition buildTextResult :: "StepResult list \<Rightarrow> Usage \<Rightarrow> TextResult" where
  "buildTextResult steps totalUsage =
     (if steps = [] then
        \<lparr>txText = [], txReasoning = [], txToolCalls = [], txSteps = [], txTotalUsage = totalUsage,
         txFinishReason = FinishNone, txResponse = zero_Response, txProviderMetadata = [],
         txSources = [], txStepsExhausted = False, txResponseMessages = []\<rparr>
      else
        \<lparr>txText = concat (map srText steps), txReasoning = concat (map srReasoning steps),
         txToolCalls = srToolCalls (last steps), txSteps = steps, txTotalUsage = totalUsage,
         txFinishReason = srFinishReason (last steps), txResponse = srResponse (last steps),
         txProviderMetadata = srProviderMetadata (last steps),
         txSources = concat (map srSources steps), txStepsExhausted = False,
         txResponseMessages = []\<rparr>)"

text \<open>One message of \<open>mergeToolMessages\<close>' loop; the clone drops the message's provider options.\<close>

definition merge_step :: "Message list \<Rightarrow> Message \<Rightarrow> Message list" where
  "merge_step out m =
     (if mRole m = RoleTool \<and> out \<noteq> [] \<and> mRole (last out) = RoleTool
      then butlast out @ [(last out)\<lparr>mContent := mContent (last out) @ mContent m\<rparr>]
      else out @ [\<lparr>mRole = mRole m, mContent = mContent m, mProviderOptions = []\<rparr>])"

definition mergeToolMessages :: "Message list \<Rightarrow> Message list" where
  "mergeToolMessages msgs = foldl merge_step [] msgs"

definition buildResponseMessages :: "Message list \<Rightarrow> StepResult list \<Rightarrow> Part list \<Rightarrow> Message list" where
  "buildResponseMessages roundTripDelta steps reasoning =
     (if steps = [] then []
      else
        let lst = last steps;
            finalMsg = buildFinalAssistantMessages (srText lst) (srToolCalls lst) reasoning (srContent lst)
        in if roundTripDelta = [] then finalMsg
           else
             let msgs = mergeToolMessages roundTripDelta in
             if srToolCalls lst \<noteq> [] then msgs else msgs @ finalMsg)"

definition finalizeStopCause :: "bool \<Rightarrow> StopCause \<Rightarrow> StepResult list \<Rightarrow> int \<Rightarrow> StopCause \<times> bool" where
  "finalizeStopCause hookStopped current steps maxSteps =
     (let exhausted = (\<not> hookStopped \<and> current = StopCauseUnset \<and> maxSteps \<le> int (length steps) \<and>
                       steps \<noteq> [] \<and> srToolCalls (last steps) \<noteq> []);
          cause = (if exhausted then StopCauseMaxSteps else current)
      in (if cause = StopCauseUnset then StopCauseNatural else cause, exhausted))"

section \<open>Properties of the overlay\<close>

text \<open>
  \<open>jsonmerge.Deep\<close> merges key by key at every level: a key of the overlay whose values are
  objects on both sides gets their merge, any other key of the overlay its overlay value, and a key
  only the base has keeps its base value, whatever the iteration order of the overlay.
\<close>

theorem Deep_lookup:
  assumes "distinct (map fst overlay)"
  shows "map_of (Deep base overlay) k =
    (case map_of overlay k of
       None \<Rightarrow> map_of base k
     | Some v \<Rightarrow> Some (case (map_of base k, v) of
           (Some (AMap existing), AMap nxt) \<Rightarrow> AMap (Deep existing nxt)
         | _ \<Rightarrow> v))"
  using assms
proof (induction overlay arbitrary: base)
  case (Cons p overlay)
  obtain k' v where p: "p = (k', v)" by (cases p)
  with Cons.prems have "k' \<notin> fst ` set overlay" "distinct (map fst overlay)" by auto
  then have "map_of overlay k' = None" by (simp add: map_of_eq_None_iff)
  with Cons.IH [OF \<open>distinct (map fst overlay)\<close>] show ?case
    by (cases "k = k'"; cases "map_of overlay k") (simp_all add: p)
qed simp

lemma Deep_lookup_witness:
  "map_of (Deep [(''a'', AMap [(''x'', AInt 1)]), (''b'', AInt 1)] [(''a'', AMap [(''y'', AInt 2)])]) ''a'' =
     Some (AMap (Deep [(''x'', AInt 1)] [(''y'', AInt 2)]))"
  using Deep_lookup [of "[(''a'', AMap [(''y'', AInt 2)])]"
      "[(''a'', AMap [(''x'', AInt 1)]), (''b'', AInt 1)]" "''a''"] by simp

section \<open>Properties of the tool table\<close>

lemma tool_map_loop_Inr:
  assumes "tool_map_loop ts seen m = Inr m'" "\<forall>n \<in> dom (map_of m). n \<in> set seen"
  shows "distinct (filter (\<lambda>n. n \<noteq> []) (map tlName ts)) \<and>
    (\<forall>t \<in> set ts. tlName t \<noteq> [] \<longrightarrow> tlName t \<notin> set seen) \<and>
    (\<forall>n. map_of m' n = (case map_of m n of Some t \<Rightarrow> Some t
       | None \<Rightarrow> find (\<lambda>t. tlName t = n \<and> n \<noteq> [] \<and> tlExecute t \<noteq> None) ts))"
  using assms
proof (induction ts seen m rule: tool_map_loop.induct)
  case (1 seen m)
  then show ?case by (auto split: option.split)
next
  case (2 t ts seen m)
  show ?case
  proof (cases "tlName t = []")
    case True
    with 2 show ?thesis by (auto split: option.split)
  next
    case False
    with 2(3) have new: "tlName t \<notin> set seen" by (auto split: if_splits)
    let ?m = "if tlExecute t \<noteq> None then AList.update (tlName t) t m else m"
    have inv: "\<forall>n \<in> dom (map_of ?m). n \<in> set (tlName t # seen)" using 2(4) by auto
    have "map_of m (tlName t) = None" using 2(4) new by (auto simp: dom_def)
    with 2(2) [OF False new _ inv] 2(3) False new show ?thesis
      by (auto split: option.splits if_splits)
  qed
qed

text \<open>
  The tool table is well formed: when \<open>buildToolMap\<close> succeeds, tool names are unique (over all
  named tools, executable or not) and a lookup finds exactly the executable tool of that name, never
  a tool without \<open>Execute\<close> and never one without a name.
\<close>

theorem buildToolMap_lookup:
  assumes "buildToolMap tools = Inr m"
  shows "distinct (filter (\<lambda>n. n \<noteq> []) (map tlName tools)) \<and>
    map_of m n = find (\<lambda>t. tlName t = n \<and> n \<noteq> [] \<and> tlExecute t \<noteq> None) tools"
  using tool_map_loop_Inr [of tools "[]" "[]" m] assms by (simp add: buildToolMap_def)

definition example_tool :: "string \<Rightarrow> Tool" where
  "example_tool n = \<lparr>tlName = n, tlDescription = [], tlInputSchema = ''{}'', tlProviderDefinedType = [],
     tlProviderDefinedOptions = [], tlDeferLoading = False,
     tlExecute = Some (\<lambda>_ (_, input). Inr (''ran '' @ input, None))\<rparr>"

lemma buildToolMap_lookup_witness:
  "map_of [(''f'', example_tool ''f'')] ''f'' = Some (example_tool ''f'')"
  using buildToolMap_lookup [of "[example_tool ''f'']" "[(''f'', example_tool ''f'')]" "''f''"]
  by (simp add: buildToolMap_def example_tool_def)

section \<open>Properties of the response chain\<close>

text \<open>
  response chaining never overrides the caller: a \<open>previousResponseId\<close> the caller supplied (no
  automatic marker) survives every call of \<open>setPreviousResponseID\<close>, and after a response that says
  it was not stored no automatically set id is left in the options.
\<close>

theorem setPreviousResponseID_respects_caller:
  fixes params :: GenerateParams
  shows "(get_bool (gpProviderOptions params) ''goaiAutoPreviousResponseID'' \<noteq> Some True \<and>
      has_key (gpProviderOptions params) ''previousResponseId'' \<longrightarrow>
      setPreviousResponseID params response = params) \<and>
    (get_bool (rProviderMetadata response) ''store'' = Some False \<longrightarrow>
      get_bool (gpProviderOptions (setPreviousResponseID params response)) ''goaiAutoPreviousResponseID'' \<noteq> Some True)"
  by (auto simp: setPreviousResponseID_def Let_def get_bool_def)

lemma setPreviousResponseID_respects_caller_witness:
  "get_bool (gpProviderOptions (setPreviousResponseID
     (buildParams \<lparr>oSystem = [], oPrompt = ''hi'', oMessages = [], oTools = [], oMaxOutputTokens = 0,
       oTemperature = None, oTopP = None, oTopK = None, oFrequencyPenalty = None, oPresencePenalty = None,
       oSeed = None, oStopSequences = [], oHeaders = [],
       oProviderOptions = [(''goaiAutoPreviousResponseID'', ABool True)], oPromptCaching = False,
       oCacheTTL = [], oToolChoice = []\<rparr>)
     (zero_Response\<lparr>rProviderMetadata := [(''store'', ABool False)]\<rparr>))) ''goaiAutoPreviousResponseID'' \<noteq> Some True"
  by (rule setPreviousResponseID_respects_caller [THEN conjunct2, THEN mp]) (simp add: get_bool_def)

section \<open>Properties of the transcript\<close>

definition is_tool :: "Message \<Rightarrow> bool" where "is_tool m \<longleftrightarrow> mRole m = RoleTool"

definition bare :: "Message \<Rightarrow> Message" where "bare m = m\<lparr>mProviderOptions := []\<rparr>"

lemma bare_simps [simp]: "mRole (bare m) = mRole m" "mContent (bare m) = mContent m"
  by (simp_all add: bare_def)

definition merged :: "Message list \<Rightarrow> Message list \<Rightarrow> bool" where
  "merged msgs out \<longleftrightarrow>
     concat (map mContent out) = concat (map mContent msgs) \<and>
     filter (\<lambda>m. \<not> is_tool m) out = map bare (filter (\<lambda>m. \<not> is_tool m) msgs) \<and>
     successively (\<lambda>a b. \<not> (is_tool a \<and> is_tool b)) out \<and>
     (out = [] \<longleftrightarrow> msgs = [])"

lemma successively_snoc:
  "successively P (xs @ [x]) \<longleftrightarrow> successively P xs \<and> (xs \<noteq> [] \<longrightarrow> P (last xs) x)"
  by (induction xs rule: induct_list012) auto

lemma merged_step: "merged msgs out \<Longrightarrow> merged (msgs @ [m]) (merge_step out m)"
proof -
  assume *: "merged msgs out"
  show ?thesis
  proof (cases "mRole m = RoleTool \<and> out \<noteq> [] \<and> mRole (last out) = RoleTool")
    case True
    then obtain xs x where out: "out = xs @ [x]" and x: "is_tool x" by (metis append_butlast_last_id is_tool_def)
    let ?x = "x\<lparr>mContent := mContent x @ mContent m\<rparr>"
    have "is_tool ?x" "is_tool m" using x True by (simp_all add: is_tool_def)
    with True * out x show ?thesis by (auto simp: merge_step_def merged_def successively_snoc)
  next
    case False
    let ?m = "\<lparr>mRole = mRole m, mContent = mContent m, mProviderOptions = []\<rparr>"
    have "?m = bare m" by (simp add: bare_def)
    with False have "merge_step out m = out @ [bare m]" by (auto simp: merge_step_def)
    moreover have "is_tool (bare m) = is_tool m" by (simp add: is_tool_def)
    moreover have "out \<noteq> [] \<Longrightarrow> \<not> (is_tool (last out) \<and> is_tool m)" using False by (auto simp: is_tool_def)
    ultimately show ?thesis using * by (auto simp: merged_def successively_snoc)
  qed
qed

text \<open>
  C30: \<open>mergeToolMessages\<close> groups the results of parallel calls: in its output no two tool messages
  are adjacent, the parts are the same in the same order, and every other message keeps its role,
  its parts and its place.
\<close>

theorem mergeToolMessages_groups:
  "merged msgs (mergeToolMessages msgs)"
proof (induction msgs rule: rev_induct)
  case Nil
  show ?case by (simp add: merged_def mergeToolMessages_def)
next
  case (snoc m msgs)
  then show ?case using merged_step by (simp add: mergeToolMessages_def)
qed

end
