(* ===== verification/Utf8.thy ===== *)
theory Utf8
  imports Prelude
begin

text \<open>
  Go's view of a string as runes (\<open>[]rune(s)\<close>, \<open>range s\<close>, \<open>utf8.RuneCountInString\<close>): the UTF-8
  sequences of a byte string, each byte that starts no valid sequence counting as one U+FFFD.
\<close>

definition in_range :: "nat \<Rightarrow> nat \<Rightarrow> char \<Rightarrow> bool" where
  "in_range lo hi c \<longleftrightarrow> lo \<le> (of_char c :: nat) \<and> (of_char c :: nat) \<le> hi"

text \<open>The number of bytes of the valid sequence at the start, if there is one.\<close>

fun rune_length :: "string \<Rightarrow> nat option" where
  "rune_length [] = None"
| "rune_length (c # s) =
     (if in_range 0 0x7F c then Some 1
      else case s of [] \<Rightarrow> None | c1 # s1 \<Rightarrow>
        if in_range 0xC2 0xDF c \<and> in_range 0x80 0xBF c1 then Some 2
        else case s1 of [] \<Rightarrow> None | c2 # s2 \<Rightarrow>
          if (in_range 0xE0 0xE0 c \<and> in_range 0xA0 0xBF c1 \<or> in_range 0xED 0xED c \<and> in_range 0x80 0x9F c1 \<or>
              (in_range 0xE1 0xEC c \<or> in_range 0xEE 0xEF c) \<and> in_range 0x80 0xBF c1)
             \<and> in_range 0x80 0xBF c2 then Some 3
          else case s2 of [] \<Rightarrow> None | c3 # _ \<Rightarrow>
            if (in_range 0xF0 0xF0 c \<and> in_range 0x90 0xBF c1 \<or> in_range 0xF4 0xF4 c \<and> in_range 0x80 0x8F c1 \<or>
                in_range 0xF1 0xF3 c \<and> in_range 0x80 0xBF c1)
               \<and> in_range 0x80 0xBF c2 \<and> in_range 0x80 0xBF c3 then Some 4
            else None)"

definition replacement :: string where "replacement = [CHR 0xEF, CHR 0xBF, CHR 0xBD]"

lemma rune_length_pos: "rune_length s = Some n \<Longrightarrow> 0 < n \<and> n \<le> length s"
  by (cases s rule: rune_length.cases) (auto split: if_splits list.splits)

declare rune_length.simps [simp del]

function runes :: "string \<Rightarrow> string list" where
  "runes s = (case s of [] \<Rightarrow> []
     | c # r \<Rightarrow> (case rune_length s of
          None \<Rightarrow> replacement # runes r
        | Some n \<Rightarrow> take n s # runes (drop n s)))"
  by pat_completeness auto
termination
  by (relation "measure length") (auto dest!: rune_length_pos)

declare runes.simps [simp del]

lemma runes_Nil [simp]: "runes [] = []"
  by (simp add: runes.simps)

lemma length_runes: "length (runes s) \<le> length s"
proof (induction s rule: runes.induct)
  case (1 s)
  show ?case
  proof (cases s)
    case (Cons c r)
    show ?thesis
    proof (cases "rune_length s")
      case None
      then have "runes s = replacement # runes r" using Cons by (subst runes.simps) simp
      with 1(1) [OF Cons None] Cons show ?thesis by simp
    next
      case (Some n)
      then have "runes s = take n s # runes (drop n s)" using Cons by (subst runes.simps) simp
      with 1(2) [OF Cons Some] rune_length_pos [OF Some] show ?thesis by (simp, arith)
    qed
  qed simp
qed

text \<open>Text whose every byte belongs to a valid sequence is the concatenation of its runes.\<close>

definition valid_utf8 :: "string \<Rightarrow> bool" where
  "valid_utf8 s \<longleftrightarrow> concat (runes s) = s"

text \<open>Keeping the first \<open>n\<close> runes, with a mark when something was cut.\<close>

definition cut_runes :: "nat \<Rightarrow> string \<Rightarrow> string" where
  "cut_runes n s = (if n < length (runes s) then concat (take n (runes s)) @ ''...'' else s)"

end
