(* ===== verification/ToolExec.thy ===== *)
theory ToolExec
  imports Messages Utf8 "HOL-Library.Char_ord" "HOL-Library.List_Lexorder"
begin

text \<open>
  Executing the tool calls of a step (\<open>executeToolsParallel\<close>, \<open>buildToolMessages\<close> and
  \<open>buildToolResults\<close> in \<open>src/generate.go\<close>). Each call is a task, a resumption that logs an event or
  waits for a callback and may be preempted between the two; a schedule interleaves the tasks in
  any way, and what a callback does may depend on everything that happened before it returns.
\<close>

section \<open>Tasks and schedules\<close>

record toolOutput =
  toResult :: string
  toErr :: "go_error option"

datatype task =
    Finished toolOutput
  | Tell "event list" task
  | Await "event list \<Rightarrow> task"

fun step_task :: "task \<Rightarrow> event list \<Rightarrow> task \<times> event list" where
  "step_task (Finished out) h = (Finished out, h)"
| "step_task (Tell es t) h = (t, h @ es)"
| "step_task (Await f) h = (f h, h)"

primrec run_task :: "task \<Rightarrow> event list \<Rightarrow> toolOutput \<times> event list" where
  "run_task (Finished out) h = (out, h)"
| "run_task (Tell es t) h = run_task t (h @ es)"
| "run_task (Await f) h = run_task (f h) h"

text \<open>The scheduler's choices, as far as they go; then \<open>wg.Wait\<close> runs what is left.\<close>

fun run_schedule :: "nat list \<Rightarrow> task list \<Rightarrow> event list \<Rightarrow> task list \<times> event list" where
  "run_schedule [] ts h = (ts, h)"
| "run_schedule (i # is) ts h =
     (if i < length ts
      then case step_task (ts ! i) h of (t, h') \<Rightarrow> run_schedule is (ts[i := t]) h'
      else run_schedule is ts h)"

fun run_in_order :: "task list \<Rightarrow> event list \<Rightarrow> toolOutput list \<times> event list" where
  "run_in_order [] h = ([], h)"
| "run_in_order (t # ts) h =
     (case run_task t h of (out, h1) \<Rightarrow>
      case run_in_order ts h1 of (outs, h2) \<Rightarrow> (out # outs, h2))"

definition run_tasks :: "bool \<Rightarrow> nat list \<Rightarrow> task list \<Rightarrow> event list \<Rightarrow> toolOutput list \<times> event list" where
  "run_tasks sequential schedule ts h =
     (if sequential then run_in_order ts h
      else case run_schedule schedule ts h of (ts', h') \<Rightarrow> run_in_order ts' h')"

section \<open>One call\<close>

record toolHooks =
  hSequential :: bool
  hOnToolCallStart :: "(ToolCallStartInfo, unit) hook list"
  hOnToolCall :: "(ToolCallInfo, unit) hook list"
  hOnBeforeExecute :: "(BeforeToolExecuteInfo, BeforeToolExecuteResult) hook option"
  hOnAfterExecute :: "(AfterToolExecuteInfo, AfterToolExecuteResult) hook option"
  hOnPanic :: nat \<comment> \<open>the number of observers\<close>

definition await :: "event \<Rightarrow> ('i, 'o) hook \<Rightarrow> 'i \<Rightarrow> (go_panic + 'o \<Rightarrow> task) \<Rightarrow> task" where
  "await ev f i k = Tell [ev] (Await (\<lambda>h. k (f h i)))"

text \<open>Hooks that are recovered one by one; the continuation is told whether one panicked.\<close>

fun fire_all :: "nat \<Rightarrow> string \<Rightarrow> event \<Rightarrow> ('i, unit) hook list \<Rightarrow> 'i \<Rightarrow> bool \<Rightarrow> (bool \<Rightarrow> task) \<Rightarrow> task" where
  "fire_all n phase ev [] i panicked k = k panicked"
| "fire_all n phase ev (f # fs) i panicked k = await ev f i (\<lambda>r. case r of
       Inl p \<Rightarrow> Tell (replicate n (EvPanic phase p)) (fire_all n phase ev fs i True k)
     | Inr _ \<Rightarrow> fire_all n phase ev fs i panicked k)"

definition start_info :: "nat \<Rightarrow> ToolCall \<Rightarrow> ToolCallStartInfo" where
  "start_info step tc = \<lparr>tsToolCallID = tcID tc, tsToolName = tcName tc, tsStep = step, tsInput = tcInput tc\<rparr>"

definition call_info :: "nat \<Rightarrow> ToolCall \<Rightarrow> ToolCallInfo" where
  "call_info step tc = \<lparr>tiToolCallID = tcID tc, tiToolName = tcName tc, tiStep = step,
     tiInput = tcInput tc, tiOutput = [], tiOutputObject = None, tiSkipped = False, tiError = None,
     tiMetadata = []\<rparr>"

definition onToolCallStart :: "toolHooks \<Rightarrow> nat \<Rightarrow> ToolCall \<Rightarrow> (bool \<Rightarrow> task) \<Rightarrow> task" where
  "onToolCallStart hooks step tc k =
     fire_all (hOnPanic hooks) ''OnToolCallStart'' (EvToolStart (start_info step tc))
       (hOnToolCallStart hooks) (start_info step tc) False k"

definition onToolCall :: "toolHooks \<Rightarrow> ToolCallInfo \<Rightarrow> task \<Rightarrow> task" where
  "onToolCall hooks info t =
     fire_all (hOnPanic hooks) ''OnToolCall'' (EvToolCall info) (hOnToolCall hooks) info False (\<lambda>_. t)"

definition tool_panics :: "toolHooks \<Rightarrow> string \<Rightarrow> go_panic \<Rightarrow> event list" where
  "tool_panics hooks phase p = replicate (hOnPanic hooks) (EvPanic phase p)"

definition unknown_tool :: "toolmap \<Rightarrow> string \<Rightarrow> go_error" where
  "unknown_tool toolMap name = ErrWrap
     (error_text ErrUnknownTool @ '' '' @ go_quote name @ ''; available tools: ''
        @ join_with '', '' (sort (map fst toolMap)))
     ErrUnknownTool"

definition unknown_call :: "toolHooks \<Rightarrow> toolmap \<Rightarrow> nat \<Rightarrow> ToolCall \<Rightarrow> task" where
  "unknown_call hooks toolMap step tc =
     (let err = unknown_tool toolMap (tcName tc) in
      onToolCallStart hooks step tc (\<lambda>_.
        onToolCall hooks ((call_info step tc)\<lparr>tiError := Some err\<rparr>)
          (Finished \<lparr>toResult = [], toErr = Some err\<rparr>)))"

text \<open>The last part of a known tool's call, once \<open>Execute\<close> returned: \<open>OnToolCall\<close> with the result.\<close>

definition report_call :: "toolHooks \<Rightarrow> (string \<Rightarrow> any option) \<Rightarrow> nat \<Rightarrow> ToolCall \<Rightarrow> string \<Rightarrow> go_error option \<Rightarrow>
    anymap \<Rightarrow> task" where
  "report_call hooks unmarshal step tc output err metadata =
     onToolCall hooks
       ((call_info step tc)\<lparr>tiOutput := output, tiError := err, tiMetadata := metadata,
          tiOutputObject := (if err = None then unmarshal output else None)\<rparr>)
       (Finished \<lparr>toResult = output, toErr = err\<rparr>)"

text \<open>The errors the model sees after a panic; the panic value is not part of them.\<close>

definition panicked_tool :: "ToolCall \<Rightarrow> go_error" where
  "panicked_tool tc = ErrMsg (''goai: tool '' @ go_quote (tcName tc) @ '' panicked'')"

definition panicked_start :: "ToolCall \<Rightarrow> go_error" where
  "panicked_start tc = ErrMsg (''goai: OnToolCallStart hook for tool '' @ go_quote (tcName tc) @ '' panicked'')"

definition after_call :: "toolHooks \<Rightarrow> (string \<Rightarrow> any option) \<Rightarrow> nat \<Rightarrow> go_context \<Rightarrow> ToolCall \<Rightarrow>
    string \<Rightarrow> go_error option \<Rightarrow> task" where
  "after_call hooks unmarshal step ctx tc output err =
     (case hOnAfterExecute hooks of
        None \<Rightarrow> report_call hooks unmarshal step tc output err []
      | Some f \<Rightarrow>
          let info = \<lparr>aeCtx = ctx, aeToolCallID = tcID tc, aeToolName = tcName tc, aeStep = step,
                      aeInput = tcInput tc, aeOutput = output, aeError = err\<rparr>
          in await (EvToolAfter info) f info (\<lambda>r. case r of
               Inl p \<Rightarrow> Tell (tool_panics hooks ''OnAfterToolExecute'' p)
                 (report_call hooks unmarshal step tc output err [])
             | Inr ar \<Rightarrow> report_call hooks unmarshal step tc
                 (if axOutput ar \<noteq> [] then axOutput ar else output)
                 (if axError ar \<noteq> None then axError ar else err) (axMetadata ar)))"

definition execute_call :: "toolHooks \<Rightarrow> (string \<Rightarrow> any option) \<Rightarrow> nat \<Rightarrow>
    (go_context \<times> string, string \<times> go_error option) hook \<Rightarrow> go_context \<Rightarrow> ToolCall \<Rightarrow> task" where
  "execute_call hooks unmarshal step execute ctx tc =
     await (EvToolExecute (tcName tc) ctx (tcInput tc)) execute (ctx, tcInput tc) (\<lambda>r. case r of
         Inl p \<Rightarrow> Tell (tool_panics hooks (''tool:'' @ tcName tc) p)
           (Finished \<lparr>toResult = [], toErr = Some (panicked_tool tc)\<rparr>)
       | Inr (output, err) \<Rightarrow> after_call hooks unmarshal step ctx tc output err)"

definition before_call :: "toolHooks \<Rightarrow> (string \<Rightarrow> any option) \<Rightarrow> nat \<Rightarrow>
    (go_context \<times> string, string \<times> go_error option) hook \<Rightarrow> go_context \<Rightarrow> ToolCall \<Rightarrow>
    BeforeToolExecuteResult \<Rightarrow> task" where
  "before_call hooks unmarshal step execute ctx tc br =
     (if bxSkip br then
        onToolCall hooks
          ((call_info step tc)\<lparr>tiOutput := bxResult br, tiSkipped := True, tiError := bxError br\<rparr>)
          (Finished \<lparr>toResult = bxResult br, toErr = bxError br\<rparr>)
      else execute_call hooks unmarshal step execute
             (case bxCtx br of Some c \<Rightarrow> c | None \<Rightarrow> ctx)
             (case bxInput br of Some i \<Rightarrow> tc\<lparr>tcInput := i\<rparr> | None \<Rightarrow> tc))"

definition before_panicked :: BeforeToolExecuteResult where
  "before_panicked = \<lparr>bxSkip = True, bxResult = [],
     bxError = Some (ErrMsg ''goai: OnBeforeToolExecute hook panicked''), bxCtx = None, bxInput = None\<rparr>"

definition started_call :: "toolHooks \<Rightarrow> (string \<Rightarrow> any option) \<Rightarrow> nat \<Rightarrow>
    (go_context \<times> string, string \<times> go_error option) hook \<Rightarrow> go_context \<Rightarrow> ToolCall \<Rightarrow> task" where
  "started_call hooks unmarshal step execute toolCtx tc =
     (case hOnBeforeExecute hooks of
        None \<Rightarrow> execute_call hooks unmarshal step execute toolCtx tc
      | Some f \<Rightarrow>
          let info = \<lparr>beCtx = toolCtx, beToolCallID = tcID tc, beToolName = tcName tc,
                      beStep = step, beInput = tcInput tc\<rparr>
          in await (EvToolBefore info) f info (\<lambda>r. case r of
               Inl p \<Rightarrow> Tell (tool_panics hooks ''OnBeforeToolExecute'' p)
                 (before_call hooks unmarshal step execute toolCtx tc before_panicked)
             | Inr br \<Rightarrow> before_call hooks unmarshal step execute toolCtx tc br))"

definition toolFn :: "toolHooks \<Rightarrow> (string \<Rightarrow> any option) \<Rightarrow> nat \<Rightarrow> go_context \<Rightarrow>
    (go_context \<times> string, string \<times> go_error option) hook \<Rightarrow> ToolCall \<Rightarrow> task" where
  "toolFn hooks unmarshal step ctx execute tc =
     onToolCallStart hooks step tc (\<lambda>hookPanicked.
       if hookPanicked then Finished \<lparr>toResult = [], toErr = Some (panicked_start tc)\<rparr>
       else started_call hooks unmarshal step execute (ctx\<lparr>ctxToolCallID := tcID tc\<rparr>) tc)"

text \<open>Calling a nil function panics.\<close>

definition nil_call :: "('i, 'o) hook" where
  "nil_call = (\<lambda>_ _. Inl (PanicError (ErrMsg ''runtime error: invalid memory address or nil pointer dereference'')))"

definition call_task :: "toolHooks \<Rightarrow> (string \<Rightarrow> any option) \<Rightarrow> nat \<Rightarrow> go_context \<Rightarrow> toolmap \<Rightarrow> ToolCall \<Rightarrow> task" where
  "call_task hooks unmarshal step ctx toolMap tc =
     (if isProviderExecuted tc then Finished \<lparr>toResult = [], toErr = None\<rparr>
      else case map_of toolMap (tcName tc) of
        None \<Rightarrow> unknown_call hooks toolMap step tc
      | Some tool \<Rightarrow> toolFn hooks unmarshal step ctx
          (case tlExecute tool of Some execute \<Rightarrow> execute | None \<Rightarrow> nil_call) tc)"

section \<open>Results\<close>

definition tool_text :: "toolOutput \<Rightarrow> string" where
  "tool_text r = (case toErr r of
      Some err \<Rightarrow> ''error: '' @ cut_runes 500 (error_text err)
    | None \<Rightarrow> toResult r)"

definition buildToolResults :: "ToolCall list \<Rightarrow> toolOutput list \<Rightarrow> ToolResult list" where
  "buildToolResults calls results =
     map (\<lambda>(tc, r). \<lparr>trToolCallID = tcID tc, trToolName = tcName tc, trOutput = tool_text r,
                      trError = toErr r, trIsError = (toErr r \<noteq> None)\<rparr>) (zip calls results)"

definition buildToolMessages :: "ToolCall list \<Rightarrow> toolOutput list \<Rightarrow> Message list" where
  "buildToolMessages calls results =
     map (\<lambda>(tc, r). ToolMessage (tcID tc) (tcName tc) (tool_text r))
       (filter (\<lambda>(tc, r). \<not> isProviderExecuted tc) (zip calls results))"

text \<open>\<open>schedule\<close> is how the runtime interleaves the goroutines of this step.\<close>

definition executeToolsParallel :: "(string \<Rightarrow> any option) \<Rightarrow> nat list \<Rightarrow> go_context \<Rightarrow> ToolCall list \<Rightarrow> toolmap \<Rightarrow>
    nat \<Rightarrow> toolHooks \<Rightarrow> event list \<Rightarrow> (Message list \<times> ToolResult list) \<times> event list" where
  "executeToolsParallel unmarshal schedule ctx calls toolMap step hooks h =
     (let tasks = map (call_task hooks unmarshal step ctx toolMap) calls;
          (results, h') = run_tasks (hSequential hooks) schedule tasks h
      in ((buildToolMessages calls results, buildToolResults calls results), h'))"

section \<open>What a task can do\<close>

text \<open>\<open>path t es out\<close>: some behaviour of the callbacks makes the task log \<open>es\<close> and end with \<open>out\<close>.\<close>

inductive path :: "task \<Rightarrow> event list \<Rightarrow> toolOutput \<Rightarrow> bool" where
  finished: "path (Finished out) [] out"
| tell: "path t es out \<Longrightarrow> path (Tell es0 t) (es0 @ es) out"
| await: "path (f h) es out \<Longrightarrow> path (Await f) es out"

inductive_simps path_simps [simp]:
  "path (Finished out) es out'" "path (Tell es0 t) es out" "path (Await f) es out"

inductive interleaving :: "'e list list \<Rightarrow> 'e list \<Rightarrow> bool" where
  all_done: "\<forall>es \<in> set ess. es = [] \<Longrightarrow> interleaving ess []"
| pick: "i < length ess \<Longrightarrow> ess ! i = e # es \<Longrightarrow> interleaving (ess[i := es]) tr \<Longrightarrow> interleaving ess (e # tr)"

lemma interleaving_prefix:
  "i < length ess \<Longrightarrow> interleaving ess tr \<Longrightarrow> interleaving (ess[i := es @ ess ! i]) (es @ tr)"
proof (induction es)
  case (Cons e es)
  let ?ess = "ess[i := (e # es) @ ess ! i]"
  have "?ess ! i = e # (es @ ess ! i)" "?ess[i := es @ ess ! i] = ess[i := es @ ess ! i]"
    using Cons.prems(1) by simp_all
  with Cons interleaving.pick [of i ?ess e "es @ ess ! i" "es @ tr"] show ?case by simp
qed simp

lemma interleaving_idle: "interleaving ess tr \<Longrightarrow> interleaving ([] # ess) tr"
proof (induction rule: interleaving.induct)
  case (all_done ess)
  then show ?case by (intro interleaving.all_done) simp
next
  case (pick i ess e es tr)
  then show ?case by (intro interleaving.pick [of "Suc i"]) simp_all
qed

lemma interleaving_set: "interleaving ess tr \<Longrightarrow> set tr = (\<Union>es \<in> set ess. set es)"
proof (induction rule: interleaving.induct)
  case (pick i ess e es tr)
  have "set (ess[i := es]) \<union> {e # es} = set ess \<union> {es}"
    using pick.hyps(1,2) by (auto simp: set_conv_nth nth_list_update) (metis nth_list_update)+
  then have "(\<Union>x \<in> set (ess[i := es]). set x) \<union> set (e # es) = (\<Union>x \<in> set ess. set x) \<union> set es"
    by (metis (no_types) UN_insert Un_insert_right sup_bot_right sup_commute)
  moreover have "set (e # es) \<subseteq> (\<Union>x \<in> set ess. set x)"
    using pick.hyps(1,2) nth_mem [of i ess] by fastforce
  moreover have "set es \<subseteq> (\<Union>x \<in> set (ess[i := es]). set x)"
    using pick.hyps(1) set_update_memI by fastforce
  ultimately show ?case using pick.IH by auto
qed simp

lemma run_task_path: "run_task t h = (out, h') \<Longrightarrow> \<exists>es. h' = h @ es \<and> path t es out"
proof (induction t arbitrary: h)
  case (Tell es0 t)
  from Tell.IH [of "h @ es0"] Tell.prems show ?case by auto
next
  case (Await f)
  from Await.IH [of "f h" h] Await.prems show ?case by auto
qed auto

definition task_paths :: "task list \<Rightarrow> event list \<Rightarrow> toolOutput list \<Rightarrow> event list \<Rightarrow> bool" where
  "task_paths ts h outs h' \<longleftrightarrow> (\<exists>ess tr. h' = h @ tr \<and> interleaving ess tr \<and>
     length ess = length ts \<and> length outs = length ts \<and>
     (\<forall>i < length ts. path (ts ! i) (ess ! i) (outs ! i)))"

lemma run_in_order_paths: "run_in_order ts h = (outs, h') \<Longrightarrow> task_paths ts h outs h'"
proof (induction ts arbitrary: h outs h')
  case Nil
  then show ?case by (auto simp: task_paths_def intro: interleaving.all_done)
next
  case (Cons t ts)
  obtain out h1 where one: "run_task t h = (out, h1)" by fastforce
  obtain outs2 h2 where rest: "run_in_order ts h1 = (outs2, h2)" by fastforce
  from run_task_path [OF one] obtain es where es: "h1 = h @ es" "path t es out" by auto
  from Cons.IH [OF rest] obtain ess tr where ess: "h2 = h1 @ tr" "interleaving ess tr"
    "length ess = length ts" "length outs2 = length ts" "\<forall>i < length ts. path (ts ! i) (ess ! i) (outs2 ! i)"
    by (auto simp: task_paths_def)
  have "interleaving (es # ess) (es @ tr)"
    using interleaving_prefix [OF _ interleaving_idle [OF ess(2)], of 0 es] by simp
  moreover have "\<forall>i < length (t # ts). path ((t # ts) ! i) ((es # ess) ! i) ((out # outs2) ! i)"
    using ess(5) es(2) by (auto simp: nth_Cons split: nat.split)
  moreover have "outs = out # outs2" "h' = h @ es @ tr" using Cons.prems one rest es(1) ess(1) by auto
  ultimately show ?case using ess(3,4) unfolding task_paths_def
    by (intro exI [of _ "es # ess"] exI [of _ "es @ tr"]) simp
qed

lemma step_task_path: "step_task t h = (t', h') \<Longrightarrow>
    \<exists>es0. h' = h @ es0 \<and> (\<forall>es out. path t' es out \<longrightarrow> path t (es0 @ es) out)"
  by (cases t) auto

lemma run_schedule_paths:
  "run_schedule sch ts h = (ts', h1) \<Longrightarrow> task_paths ts' h1 outs h' \<Longrightarrow> task_paths ts h outs h'"
proof (induction sch ts h rule: run_schedule.induct)
  case (2 i sch ts h)
  show ?case
  proof (cases "i < length ts")
    case True
    obtain t h0 where step: "step_task (ts ! i) h = (t, h0)" by fastforce
    with 2 True have "task_paths (ts[i := t]) h0 outs h'" by auto
    then obtain ess tr where ess: "h' = h0 @ tr" "interleaving ess tr" "length ess = length ts"
      "length outs = length ts" "\<forall>j < length ts. path (ts[i := t] ! j) (ess ! j) (outs ! j)"
      by (auto simp: task_paths_def)
    from step_task_path [OF step] obtain es0 where es0: "h0 = h @ es0"
      "\<And>es out. path t es out \<Longrightarrow> path (ts ! i) (es0 @ es) out" by auto
    have "interleaving (ess[i := es0 @ ess ! i]) (es0 @ tr)"
      using True ess(2,3) by (intro interleaving_prefix) simp_all
    moreover have "\<forall>j < length ts. path (ts ! j) (ess[i := es0 @ ess ! i] ! j) (outs ! j)"
    proof (intro allI impI)
      fix j assume j: "j < length ts"
      then have "path (ts[i := t] ! j) (ess ! j) (outs ! j)" using ess(5) by blast
      then show "path (ts ! j) (ess[i := es0 @ ess ! i] ! j) (outs ! j)"
        using j True ess(3) es0(2) by (cases "i = j") simp_all
    qed
    ultimately show ?thesis using ess(1,3,4) es0(1) unfolding task_paths_def
      by (intro exI [of _ "ess[i := es0 @ ess ! i]"] exI [of _ "es0 @ tr"]) simp
  next
    case False
    with 2 show ?thesis by simp
  qed
qed simp

lemma run_tasks_paths: "run_tasks sq sch ts h = (outs, h') \<Longrightarrow> task_paths ts h outs h'"
  using run_in_order_paths run_schedule_paths
  by (auto simp: run_tasks_def split: if_splits prod.splits)

lemmas run_tasks_path_list = run_tasks_paths [unfolded task_paths_def]

section \<open>What a call can do\<close>

lemma path_await [simp]:
  "path (await ev f i k) es out \<longleftrightarrow> (\<exists>h es'. es = ev # es' \<and> path (k (f h i)) es' out)"
  by (auto simp: await_def)

lemma fire_all_path:
  "path (fire_all n phase ev fs i b k) es out \<Longrightarrow>
     \<exists>es1 es2 b'. es = es1 @ es2 \<and> path (k b') es2 out \<and> set es1 \<subseteq> insert ev (range (EvPanic phase)) \<and>
       (b \<longrightarrow> b') \<and> ((\<exists>p. EvPanic phase p \<in> set es1 \<and> ev \<noteq> EvPanic phase p) \<longrightarrow> b')"
proof (induction fs arbitrary: b es)
  case Nil
  then show ?case by (intro exI [of _ "[]"] exI [of _ es] exI [of _ b]) simp
next
  case (Cons f fs)
  from Cons.prems obtain h es' where es: "es = ev # es'"
    and p: "path (case f h i of
       Inl p \<Rightarrow> Tell (replicate n (EvPanic phase p)) (fire_all n phase ev fs i True k)
     | Inr _ \<Rightarrow> fire_all n phase ev fs i b k) es' out" by auto
  show ?case
  proof (cases "f h i")
    case (Inl v)
    with p obtain es'' where es': "es' = replicate n (EvPanic phase v) @ es''"
      and p': "path (fire_all n phase ev fs i True k) es'' out" by auto
    from Cons.IH [OF p'] obtain es1 es2 b' where
      *: "es'' = es1 @ es2" "path (k b') es2 out" "set es1 \<subseteq> insert ev (range (EvPanic phase))" b' by auto
    show ?thesis
      by (intro exI [of _ "ev # replicate n (EvPanic phase v) @ es1"] exI [of _ es2] exI [of _ b'])
         (use * es es' in \<open>auto split: if_splits\<close>)
  next
    case (Inr u)
    with p Cons.IH [of b es'] obtain es1 es2 b' where
      *: "es' = es1 @ es2" "path (k b') es2 out" "set es1 \<subseteq> insert ev (range (EvPanic phase))" "b \<longrightarrow> b'"
      "(\<exists>p. EvPanic phase p \<in> set es1 \<and> ev \<noteq> EvPanic phase p) \<longrightarrow> b'" by auto
    show ?thesis
      by (intro exI [of _ "ev # es1"] exI [of _ es2] exI [of _ b']) (use * es in auto)
  qed
qed

fun executes :: "event \<Rightarrow> bool" where
  "executes (EvToolExecute _ _ _) = True"
| "executes _ = False"

text \<open>Observers of a finished call see what the model will get; nothing runs after that.\<close>

definition reports :: "toolOutput \<Rightarrow> event list \<Rightarrow> bool" where
  "reports out es \<longleftrightarrow> (\<forall>e \<in> set es.
     (\<exists>info. e = EvToolCall info \<and> tiOutput info = toResult out \<and> tiError info = toErr out) \<or>
     (\<exists>p. e = EvPanic ''OnToolCall'' p))"

lemma onToolCall_path:
  "path (onToolCall hooks info (Finished out')) es out \<Longrightarrow>
     tiOutput info = toResult out' \<Longrightarrow> tiError info = toErr out' \<Longrightarrow> out = out' \<and> reports out es"
  unfolding onToolCall_def by (drule fire_all_path) (auto simp: reports_def)

lemma report_call_path:
  assumes "path (report_call hooks unmarshal step tc output err md) es out"
  shows "out = \<lparr>toResult = output, toErr = err\<rparr> \<and> reports out es"
  using assms unfolding report_call_def by (rule onToolCall_path) simp_all

text \<open>
  The protocol of one call. The output is named by \<open>out\<close>, \<open>known\<close> says whether the tool is in the
  table: at most one execution; none after a panicking start hook, and then a fixed error; a fixed
  error after a panicking \<open>Execute\<close>; and observers that are told the final output and error.
\<close>

definition tool_protocol :: "bool \<Rightarrow> ToolCall \<Rightarrow> event list \<Rightarrow> toolOutput \<Rightarrow> bool" where
  "tool_protocol known tc es out \<longleftrightarrow>
     length (filter executes es) \<le> 1 \<and>
     (\<not> known \<longrightarrow> filter executes es = []) \<and>
     (known \<and> (\<exists>p. EvPanic ''OnToolCallStart'' p \<in> set es) \<longrightarrow>
        filter executes es = [] \<and> toErr out = Some (panicked_start tc)) \<and>
     ((\<exists>p. EvPanic (''tool:'' @ tcName tc) p \<in> set es) \<longrightarrow> toErr out = Some (panicked_tool tc)) \<and>
     (\<forall>info. EvToolCall info \<in> set es \<longrightarrow> tiOutput info = toResult out \<and> tiError info = toErr out)"

lemma reports_protocol:
  assumes "reports out es"
  shows "filter executes es = []" "EvPanic ''OnToolCallStart'' p \<notin> set es"
    "EvPanic (''tool:'' @ name) p \<notin> set es"
    "EvToolCall info \<in> set es \<Longrightarrow> tiOutput info = toResult out \<and> tiError info = toErr out"
  using assms by (fastforce simp: reports_def filter_empty_conv)+

lemma executes_replicate [simp]: "filter executes (replicate n (EvPanic ph p)) = []"
  by (simp add: filter_empty_conv)

definition quiet_start :: "event list \<Rightarrow> bool" where
  "quiet_start es \<longleftrightarrow> (\<forall>p. EvPanic ''OnToolCallStart'' p \<notin> set es)"

lemma tool_protocol_more:
  assumes "tool_protocol known tc es out" "filter executes es0 = []"
    "\<And>p. EvPanic ''OnToolCallStart'' p \<notin> set es0" "\<And>p. EvPanic (''tool:'' @ tcName tc) p \<notin> set es0"
    "\<And>info. EvToolCall info \<notin> set es0"
  shows "tool_protocol known tc (es0 @ es) out"
  using assms by (simp add: tool_protocol_def)

lemma reports_tool_protocol: "reports out es \<Longrightarrow> tool_protocol known tc es out"
  using reports_protocol [of out es] by (auto simp: tool_protocol_def)

lemma tool_protocol_name: "tcName tc = tcName tc' \<Longrightarrow> tool_protocol known tc = tool_protocol known tc'"
  by (intro ext) (simp add: tool_protocol_def panicked_tool_def panicked_start_def)

lemma report_protocol:
  "path (report_call hooks unmarshal step tc output err md) es out \<Longrightarrow> tool_protocol known tc' es out"
  using report_call_path reports_tool_protocol by blast

text \<open>After the event of the execution itself nothing more is executed.\<close>

lemma execute_protocol:
  assumes "\<And>known. tool_protocol known tc es out" "filter executes es = []"
    "\<And>p. EvPanic ''OnToolCallStart'' p \<notin> set es" "executes e"
  shows "tool_protocol True tc (e # es) out"
  using assms(1) [of True] assms(2-4) by (cases e) (simp_all add: tool_protocol_def)

lemma after_call_path:
  assumes "path (after_call hooks unmarshal step ctx tc output err) es out"
  shows "filter executes es = [] \<and> quiet_start es \<and> tool_protocol known tc es out"
proof (cases "hOnAfterExecute hooks")
  case None
  with assms have "reports out es" using report_call_path by (simp add: after_call_def)
  then show ?thesis using reports_protocol [of out es] reports_tool_protocol by (auto simp: quiet_start_def)
next
  case (Some f)
  let ?info = "\<lparr>aeCtx = ctx, aeToolCallID = tcID tc, aeToolName = tcName tc, aeStep = step,
                 aeInput = tcInput tc, aeOutput = output, aeError = err\<rparr>"
  from assms obtain h es' where es: "es = EvToolAfter ?info # es'"
    and p: "path (case f h ?info of
         Inl p \<Rightarrow> Tell (tool_panics hooks ''OnAfterToolExecute'' p)
           (report_call hooks unmarshal step tc output err [])
       | Inr ar \<Rightarrow> report_call hooks unmarshal step tc
           (if axOutput ar \<noteq> [] then axOutput ar else output)
           (if axError ar \<noteq> None then axError ar else err) (axMetadata ar)) es' out"
    unfolding after_call_def Some option.case Let_def path_await by blast
  from p obtain es2 es3 output' err' md where es': "es' = es2 @ es3"
    and p3: "path (report_call hooks unmarshal step tc output' err' md) es3 out"
    and es2: "es2 = [] \<or> (\<exists>p. es2 = tool_panics hooks ''OnAfterToolExecute'' p)"
    by (cases "f h ?info") force+
  have rep: "reports out es3" using report_call_path [OF p3] by blast
  have "tool_protocol known tc ((EvToolAfter ?info # es2) @ es3) out"
    using es2 by (intro tool_protocol_more reports_tool_protocol [OF rep]) (auto simp: tool_panics_def)
  with es2 es es' reports_protocol [OF rep] show ?thesis by (auto simp: tool_panics_def quiet_start_def)
qed

lemma execute_call_path:
  assumes "path (execute_call hooks unmarshal step execute ctx tc) es out"
  shows "tool_protocol True tc es out"
proof -
  from assms obtain h es1 where es: "es = EvToolExecute (tcName tc) ctx (tcInput tc) # es1"
    and p: "path (case execute h (ctx, tcInput tc) of
         Inl p \<Rightarrow> Tell (tool_panics hooks (''tool:'' @ tcName tc) p) (Finished \<lparr>toResult = [], toErr = Some (panicked_tool tc)\<rparr>)
       | Inr (output, err) \<Rightarrow> after_call hooks unmarshal step ctx tc output err) es1 out"
    unfolding execute_call_def path_await by blast
  have "filter executes es1 = [] \<and> quiet_start es1 \<and> tool_protocol known tc es1 out" for known
    using p after_call_path [of hooks unmarshal step ctx tc _ _ es1 out known]
    by (auto simp: tool_panics_def tool_protocol_def quiet_start_def split: sum.splits prod.splits)
  then show ?thesis unfolding es by (intro execute_protocol) (auto simp: quiet_start_def)
qed

lemma before_call_path:
  assumes "path (before_call hooks unmarshal step execute ctx tc br) es out"
  shows "tool_protocol True tc es out"
proof (cases "bxSkip br")
  case True
  with assms have "path (onToolCall hooks
      ((call_info step tc)\<lparr>tiOutput := bxResult br, tiSkipped := True, tiError := bxError br\<rparr>)
      (Finished \<lparr>toResult = bxResult br, toErr = bxError br\<rparr>)) es out" by (simp add: before_call_def)
  then have "reports out es" by (rule onToolCall_path [THEN conjunct2]) simp_all
  then show ?thesis by (rule reports_tool_protocol)
next
  case False
  let ?tc = "case bxInput br of Some i \<Rightarrow> tc\<lparr>tcInput := i\<rparr> | None \<Rightarrow> tc"
  have "tool_protocol True ?tc es out"
    using assms False execute_call_path by (auto simp: before_call_def)
  moreover have "tcName ?tc = tcName tc" by (simp split: option.split)
  ultimately show ?thesis using tool_protocol_name by metis
qed

lemma started_call_path:
  assumes "path (started_call hooks unmarshal step execute ctx tc) es out"
  shows "tool_protocol True tc es out"
proof (cases "hOnBeforeExecute hooks")
  case None
  with assms execute_call_path show ?thesis by (auto simp: started_call_def)
next
  case (Some f)
  let ?info = "\<lparr>beCtx = ctx, beToolCallID = tcID tc, beToolName = tcName tc, beStep = step, beInput = tcInput tc\<rparr>"
  from assms obtain h es' where es: "es = EvToolBefore ?info # es'"
    and p: "path (case f h ?info of
         Inl p \<Rightarrow> Tell (tool_panics hooks ''OnBeforeToolExecute'' p)
           (before_call hooks unmarshal step execute ctx tc before_panicked)
       | Inr br \<Rightarrow> before_call hooks unmarshal step execute ctx tc br) es' out"
    unfolding started_call_def Some option.case Let_def path_await by blast
  from p obtain es3 es4 br where es': "es' = es3 @ es4"
    and p4: "path (before_call hooks unmarshal step execute ctx tc br) es4 out"
    and es3: "es3 = [] \<or> (\<exists>p. es3 = tool_panics hooks ''OnBeforeToolExecute'' p)"
    by (cases "f h ?info") force+
  have "tool_protocol True tc ((EvToolBefore ?info # es3) @ es4) out"
    using es3 by (intro tool_protocol_more before_call_path [OF p4]) (auto simp: tool_panics_def)
  with es es' show ?thesis by simp
qed

lemma start_events:
  assumes "set es1 \<subseteq> insert (EvToolStart i) (range (EvPanic ''OnToolCallStart''))"
  shows "filter executes es1 = []" "EvPanic (''tool:'' @ name) p \<notin> set es1" "EvToolCall info \<notin> set es1"
  using assms by (auto simp: filter_empty_conv)

lemma toolFn_path:
  assumes "path (toolFn hooks unmarshal step ctx execute tc) es out"
  shows "tool_protocol True tc es out"
proof -
  let ?ev = "EvToolStart (start_info step tc)"
  from fire_all_path [OF assms [unfolded toolFn_def onToolCallStart_def]] obtain es1 es2 b where
    es: "es = es1 @ es2" and sub: "set es1 \<subseteq> insert ?ev (range (EvPanic ''OnToolCallStart''))"
    and b: "(\<exists>p. EvPanic ''OnToolCallStart'' p \<in> set es1 \<and> ?ev \<noteq> EvPanic ''OnToolCallStart'' p) \<longrightarrow> b"
    and p: "path (if b then Finished \<lparr>toResult = [], toErr = Some (panicked_start tc)\<rparr>
       else started_call hooks unmarshal step execute (ctx\<lparr>ctxToolCallID := tcID tc\<rparr>) tc) es2 out"
    by blast
  show ?thesis
  proof (cases b)
    case True
    with p es start_events [OF sub] show ?thesis by (auto simp: tool_protocol_def)
  next
    case False
    with b p have "\<And>p. EvPanic ''OnToolCallStart'' p \<notin> set es1" "tool_protocol True tc es2 out"
      using started_call_path by auto
    with es start_events [OF sub] show ?thesis by (auto intro: tool_protocol_more)
  qed
qed

lemma unknown_call_path:
  assumes "path (unknown_call hooks toolMap step tc) es out"
  shows "toErr out = Some (unknown_tool toolMap (tcName tc)) \<and> tool_protocol False tc es out"
proof -
  let ?out = "\<lparr>toResult = [], toErr = Some (unknown_tool toolMap (tcName tc))\<rparr>"
  from fire_all_path [OF assms [unfolded unknown_call_def onToolCallStart_def Let_def]] obtain es1 es2 where
    es: "es = es1 @ es2" and sub: "set es1 \<subseteq> insert (EvToolStart (start_info step tc)) (range (EvPanic ''OnToolCallStart''))"
    and p: "path (onToolCall hooks ((call_info step tc)\<lparr>tiError := Some (unknown_tool toolMap (tcName tc))\<rparr>)
        (Finished ?out)) es2 out" by blast
  have "out = ?out \<and> reports out es2" by (rule onToolCall_path [OF p]) (simp_all add: call_info_def)
  then have out: "out = ?out" "reports ?out es2" by blast+
  from start_events [OF sub] reports_protocol [OF out(2)] show ?thesis
    by (auto simp: es out(1) tool_protocol_def)
qed

definition known_tool :: "toolmap \<Rightarrow> ToolCall \<Rightarrow> bool" where
  "known_tool toolMap tc \<longleftrightarrow> map_of toolMap (tcName tc) \<noteq> None"

lemma call_task_path:
  assumes "path (call_task hooks unmarshal step ctx toolMap tc) es out"
  shows "tool_protocol (known_tool toolMap tc) tc es out"
    and "isProviderExecuted tc \<Longrightarrow> es = [] \<and> out = \<lparr>toResult = [], toErr = None\<rparr>"
    and "\<not> isProviderExecuted tc \<Longrightarrow> \<not> known_tool toolMap tc \<Longrightarrow> toErr out = Some (unknown_tool toolMap (tcName tc))"
  using assms toolFn_path [of hooks unmarshal step ctx _ tc es out] unknown_call_path [of hooks toolMap step tc es out]
  by (auto simp: call_task_def known_tool_def tool_protocol_def split: if_splits option.splits)

section \<open>The whole step\<close>

lemma executeToolsParallel_outputs:
  assumes "executeToolsParallel unmarshal schedule ctx calls toolMap step hooks h = ((msgs, results), h')"
  shows "\<exists>outs. task_paths (map (call_task hooks unmarshal step ctx toolMap) calls) h outs h' \<and>
    length outs = length calls \<and>
    msgs = buildToolMessages calls outs \<and> results = buildToolResults calls outs"
proof -
  obtain outs h1 where run: "run_tasks (hSequential hooks) schedule
      (map (call_task hooks unmarshal step ctx toolMap) calls) h = (outs, h1)" by fastforce
  from run_tasks_paths [OF run] have "length outs = length calls" by (auto simp: task_paths_def)
  with run_tasks_paths [OF run] assms run show ?thesis by (auto simp: executeToolsParallel_def)
qed

text \<open>
  one result per tool call, in call order, under every schedule: \<open>executeToolsParallel\<close> returns
  exactly one \<open>ToolResult\<close> for each call and one tool message for each call the provider did not
  run itself, with the ids and names of the calls in their order, and a message carries the same
  output text as its result.
\<close>

theorem tool_results_aligned:
  assumes "executeToolsParallel unmarshal schedule ctx calls toolMap step hooks h = ((msgs, results), h')"
  shows "map (\<lambda>r. (trToolCallID r, trToolName r)) results = map (\<lambda>tc. (tcID tc, tcName tc)) calls \<and>
    msgs = map (\<lambda>(tc, r). ToolMessage (tcID tc) (tcName tc) (trOutput r))
             (filter (\<lambda>(tc, r). \<not> isProviderExecuted tc) (zip calls results))"
proof -
  from executeToolsParallel_outputs [OF assms] obtain outs where
    len: "length outs = length calls" and
    msgs: "msgs = buildToolMessages calls outs" and results: "results = buildToolResults calls outs" by auto
  from len show ?thesis unfolding msgs results
    by (induction outs calls rule: list_induct2)
       (auto simp: buildToolMessages_def buildToolResults_def)
qed

definition example_call :: "string \<Rightarrow> string \<Rightarrow> ToolCall" where
  "example_call i n = \<lparr>tcID = i, tcName = n, tcInput = ''{}'', tcMetadata = []\<rparr>"

definition no_hooks :: toolHooks where
  "no_hooks = \<lparr>hSequential = False, hOnToolCallStart = [], hOnToolCall = [], hOnBeforeExecute = None,
     hOnAfterExecute = None, hOnPanic = 0\<rparr>"

definition no_context :: go_context where "no_context = \<lparr>ctxToolCallID = [], ctxUser = []\<rparr>"

lemma tool_results_aligned_witness:
  "map trToolCallID (snd (fst (executeToolsParallel (\<lambda>_. None) [1, 0] no_context
     [example_call ''1'' ''f'', example_call ''2'' ''g''] [(''f'', example_tool ''f'')] 1 no_hooks []))) = [''1'', ''2'']"
proof -
  obtain msgs results h' where run: "executeToolsParallel (\<lambda>_. None) [1, 0] no_context
     [example_call ''1'' ''f'', example_call ''2'' ''g''] [(''f'', example_tool ''f'')] 1 no_hooks [] = ((msgs, results), h')"
    by (metis prod.collapse)
  from tool_results_aligned [OF run] have
    "map (\<lambda>r. (trToolCallID r, trToolName r)) results = [(''1'', ''f''), (''2'', ''g'')]"
    by (simp add: example_call_def)
  then have "map fst (map (\<lambda>r. (trToolCallID r, trToolName r)) results) = [''1'', ''2'']" by simp
  then show ?thesis using run by (simp add: o_def)
qed



section \<open>Callbacks without state\<close>

primrec stable :: "task \<Rightarrow> bool" where
  "stable (Finished out) = True"
| "stable (Tell es t) = stable t"
| "stable (Await f) = ((\<forall>h h'. f h = f h') \<and> (\<forall>h. stable (f h)))"

lemma stable_path: "path t es out \<Longrightarrow> stable t \<Longrightarrow> out = fst (run_task t h0)"
proof (induction arbitrary: h0 rule: path.induct)
  case (await f h es out)
  from await.prems have "f h = f h0" "stable (f h)" by auto
  with await.IH show ?case by simp
qed simp_all

definition stateless :: "('i, 'o) hook \<Rightarrow> bool" where
  "stateless f \<longleftrightarrow> (\<forall>h h' i. f h i = f h' i)"

lemma stable_await: "stateless f \<Longrightarrow> (\<And>r. stable (k r)) \<Longrightarrow> stable (await ev f i k)"
  unfolding await_def stateless_def by auto metis

lemma stable_fire_all:
  "\<forall>f \<in> set fs. stateless f \<Longrightarrow> (\<And>b. stable (k b)) \<Longrightarrow> stable (fire_all n phase ev fs i b k)"
  by (induction fs arbitrary: b) (auto intro!: stable_await split: sum.split)

definition stateless_hooks :: "toolHooks \<Rightarrow> toolmap \<Rightarrow> bool" where
  "stateless_hooks hooks toolMap \<longleftrightarrow>
     (\<forall>f \<in> set (hOnToolCallStart hooks). stateless f) \<and> (\<forall>f \<in> set (hOnToolCall hooks). stateless f) \<and>
     (\<forall>f. hOnBeforeExecute hooks = Some f \<longrightarrow> stateless f) \<and>
     (\<forall>f. hOnAfterExecute hooks = Some f \<longrightarrow> stateless f) \<and>
     (\<forall>t \<in> snd ` set toolMap. \<forall>f. tlExecute t = Some f \<longrightarrow> stateless f)"

lemma stable_call_task:
  assumes "stateless_hooks hooks toolMap"
  shows "stable (call_task hooks unmarshal step ctx toolMap tc)"
proof -
  have st: "(\<And>b. stable (k b)) \<Longrightarrow> stable (onToolCallStart hooks step tc' k)" for k tc'
    using assms by (simp add: onToolCallStart_def stable_fire_all stateless_hooks_def)
  have tc: "stable t \<Longrightarrow> stable (onToolCall hooks info t)" for info t
    using assms by (simp add: onToolCall_def stable_fire_all stateless_hooks_def)
  have rep: "stable (report_call hooks unmarshal step tc' res err md)" for tc' res err md
    by (simp add: report_call_def tc)
  have aft: "stable (after_call hooks unmarshal step ctx' tc' res err)" for ctx' tc' res err
    using assms by (auto simp: after_call_def Let_def rep stateless_hooks_def
        intro!: stable_await split: option.split sum.split)
  have exe: "stateless e \<Longrightarrow> stable (execute_call hooks unmarshal step e ctx' tc')" for e ctx' tc'
    by (auto simp: execute_call_def aft intro!: stable_await split: sum.split)
  have bef: "stateless e \<Longrightarrow> stable (before_call hooks unmarshal step e ctx' tc' br)" for e ctx' tc' br
    by (auto simp: before_call_def exe tc)
  have sta: "stateless e \<Longrightarrow> stable (started_call hooks unmarshal step e ctx' tc')" for e ctx' tc'
    using assms by (auto simp: started_call_def Let_def exe bef stateless_hooks_def
        intro!: stable_await split: option.split sum.split)
  have fn: "stateless e \<Longrightarrow> stable (toolFn hooks unmarshal step ctx e tc)" for e
    by (auto simp: toolFn_def sta intro!: st)
  have "stateless (case tlExecute tool of Some e \<Rightarrow> e | None \<Rightarrow> nil_call)"
    if "map_of toolMap (tcName tc) = Some tool" for tool
    using assms map_of_SomeD [OF that]
    by (force simp: stateless_hooks_def stateless_def nil_call_def split: option.split)
  then show ?thesis by (auto simp: call_task_def unknown_call_def Let_def intro!: fn st tc split: option.split)
qed

text \<open>
  C24: parallel execution is equivalent to sequential execution: when the tools and hooks keep no
  state of their own, the tool messages and results of \<open>executeToolsParallel\<close> are the same for
  every schedule of the goroutines, and the same as with the \<open>SequentialTools\<close> option.
\<close>

theorem parallel_equals_sequential:
  assumes "stateless_hooks hooks toolMap"
  shows "fst (executeToolsParallel unmarshal schedule ctx calls toolMap step hooks h) =
    fst (executeToolsParallel unmarshal schedule' ctx calls toolMap step (hooks\<lparr>hSequential := True\<rparr>) h)"
proof -
  let ?hooks = "hooks\<lparr>hSequential := True\<rparr>"
  have seq_hooks: "stateless_hooks ?hooks toolMap" using assms by (simp add: stateless_hooks_def)
  have same: "call_task ?hooks unmarshal step ctx toolMap tc = call_task hooks unmarshal step ctx toolMap tc" for tc
    by (simp add: call_task_def toolFn_def started_call_def before_call_def execute_call_def after_call_def
        report_call_def onToolCall_def onToolCallStart_def unknown_call_def tool_panics_def
        cong: option.case_cong sum.case_cong prod.case_cong if_cong)
  let ?tasks = "map (call_task hooks unmarshal step ctx toolMap) calls"
  have outs: "outs = map (\<lambda>t. fst (run_task t h)) ?tasks" if "task_paths ?tasks h outs h'" for outs h'
  proof (rule nth_equalityI)
    show "length outs = length (map (\<lambda>t. fst (run_task t h)) ?tasks)" using that by (auto simp: task_paths_def)
    fix i assume i: "i < length outs"
    with that obtain es where "path (?tasks ! i) es (outs ! i)" and "i < length calls"
      by (auto simp: task_paths_def)
    with stable_path [OF this(1)] stable_call_task [OF assms] i
    show "outs ! i = map (\<lambda>t. fst (run_task t h)) ?tasks ! i" by simp
  qed
  obtain m1 r1 h1 m2 r2 h2 where
    runs: "executeToolsParallel unmarshal schedule ctx calls toolMap step hooks h = ((m1, r1), h1)"
      "executeToolsParallel unmarshal schedule' ctx calls toolMap step ?hooks h = ((m2, r2), h2)"
    by (metis prod.collapse)
  from executeToolsParallel_outputs [OF runs(1)] executeToolsParallel_outputs [OF runs(2)] outs
  show ?thesis unfolding runs same by auto
qed

lemma parallel_equals_sequential_witness:
  "fst (executeToolsParallel (\<lambda>_. None) [1, 0, 1] no_context [example_call ''1'' ''f'', example_call ''2'' ''f'']
      [(''f'', example_tool ''f'')] 1 no_hooks []) =
   fst (executeToolsParallel (\<lambda>_. None) [] no_context [example_call ''1'' ''f'', example_call ''2'' ''f'']
      [(''f'', example_tool ''f'')] 1 (no_hooks\<lparr>hSequential := True\<rparr>) [])"
  by (rule parallel_equals_sequential)
     (simp add: stateless_hooks_def stateless_def no_hooks_def example_tool_def)

section \<open>The events of a call\<close>

primrec tells :: "(event \<Rightarrow> bool) \<Rightarrow> task \<Rightarrow> bool" where
  "tells P (Finished out) = True"
| "tells P (Tell es t) = (list_all P es \<and> tells P t)"
| "tells P (Await f) = (\<forall>h. tells P (f h))"

lemma tells_path: "path t es out \<Longrightarrow> tells P t \<Longrightarrow> list_all P es"
  by (induction rule: path.induct) auto

fun tool_event :: "event \<Rightarrow> bool" where
  "tool_event (EvToolStart _) = True"
| "tool_event (EvToolBefore _) = True"
| "tool_event (EvToolExecute _ _ _) = True"
| "tool_event (EvToolAfter _) = True"
| "tool_event (EvToolCall _) = True"
| "tool_event (EvPanic _ _) = True"
| "tool_event _ = False"

lemma tells_await [simp]: "tells P (await ev f i k) \<longleftrightarrow> P ev \<and> (\<forall>h. tells P (k (f h i)))"
  by (simp add: await_def)

lemma tells_panics [simp]: "list_all tool_event (replicate n (EvPanic ph p))"
  by (simp add: list_all_iff)

lemma tells_fire_all:
  "tool_event ev \<Longrightarrow> (\<And>b. tells tool_event (k b)) \<Longrightarrow> tells tool_event (fire_all n phase ev fs i b k)"
  by (induction fs arbitrary: b) (auto split: sum.split)

lemma tells_call_task: "tells tool_event (call_task hooks unmarshal step ctx toolMap tc)"
proof -
  have st: "(\<And>b. tells tool_event (k b)) \<Longrightarrow> tells tool_event (onToolCallStart hooks step tc' k)" for k tc'
    by (simp add: onToolCallStart_def tells_fire_all)
  have tc: "tells tool_event t \<Longrightarrow> tells tool_event (onToolCall hooks info t)" for info t
    by (simp add: onToolCall_def tells_fire_all)
  have rep: "tells tool_event (report_call hooks unmarshal step tc' res err md)" for tc' res err md
    by (simp add: report_call_def tc)
  have aft: "tells tool_event (after_call hooks unmarshal step ctx' tc' res err)" for ctx' tc' res err
    by (auto simp: after_call_def Let_def rep tool_panics_def split: option.split sum.split)
  have exe: "tells tool_event (execute_call hooks unmarshal step e ctx' tc')" for e ctx' tc'
    by (auto simp: execute_call_def aft tool_panics_def split: sum.split)
  have bef: "tells tool_event (before_call hooks unmarshal step e ctx' tc' br)" for e ctx' tc' br
    by (auto simp: before_call_def exe tc)
  have sta: "tells tool_event (started_call hooks unmarshal step e ctx' tc')" for e ctx' tc'
    by (auto simp: started_call_def Let_def exe bef tool_panics_def split: option.split sum.split)
  have fn: "tells tool_event (toolFn hooks unmarshal step ctx e tc)" for e
    by (auto simp: toolFn_def sta intro!: st)
  show ?thesis by (auto simp: call_task_def unknown_call_def Let_def intro!: fn st tc split: option.split)
qed

lemma executeToolsParallel_events:
  assumes "executeToolsParallel unmarshal schedule ctx calls toolMap step hooks h = (r, h')"
  shows "\<exists>tr. h' = h @ tr \<and> list_all tool_event tr"
proof -
  obtain msgs results where r: "r = (msgs, results)" by (cases r)
  from executeToolsParallel_outputs [OF assms [unfolded r]] obtain outs where
    "task_paths (map (call_task hooks unmarshal step ctx toolMap) calls) h outs h'" by auto
  then obtain ess tr where *: "h' = h @ tr" "interleaving ess tr" "length ess = length calls"
    "\<forall>i < length calls. path (map (call_task hooks unmarshal step ctx toolMap) calls ! i) (ess ! i) (outs ! i)"
    by (auto simp: task_paths_def)
  have "list_all tool_event es" if "es \<in> set ess" for es
    using that *(3,4) tells_path [OF _ tells_call_task] by (auto simp: in_set_conv_nth)
  with * interleaving_set [OF *(2)] show ?thesis by (auto simp: list_all_iff)
qed

end
