(* ===== verification/Retry.thy ===== *)
theory Retry
  imports Hooks
begin

text \<open>
  Retries of model calls (\<open>src/retry.go\<close>): which errors are retried, how long the loop waits
  (server hints from headers or the error body, else exponential backoff with jitter) and the
  loop \<open>withRetry\<close>. The clock, the random generator, the HTTP date parser and the
  cancellable sleep are a parameter.
\<close>

section \<open>Retryable errors\<close>

definition isNetworkError :: "go_error \<Rightarrow> bool" where
  "isNetworkError err =
     (if error_is err ErrDeadlineExceeded \<or> error_is err ErrContextCanceled then False
      else if is_net_Error err then True
      else
        let msg = error_text err in
        contains msg ''connection reset by peer'' \<or> contains msg ''connection refused'' \<or>
        contains msg ''TLS handshake timeout'' \<or> contains msg ''no such host'' \<or>
        contains msg ''i/o timeout'')"

definition retryable :: "go_error option \<Rightarrow> bool" where
  "retryable err = (case err of
      None \<Rightarrow> False
    | Some e \<Rightarrow> (case as_APIError e of Some a \<Rightarrow> IsRetryable a | None \<Rightarrow> isNetworkError e))"

section \<open>Durations\<close>

text \<open>Nanoseconds in Go's \<open>int64\<close>: every product wraps.\<close>

type_synonym duration = int

definition wrap64 :: "int \<Rightarrow> int" where "wrap64 n = (n + 2 ^ 63) mod 2 ^ 64 - 2 ^ 63"

definition Millisecond :: duration where "Millisecond = 1000000"
definition Second :: duration where "Second = 1000000000"

lemma wrap64_id [simp]: "- (2 ^ 63) \<le> n \<Longrightarrow> n < 2 ^ 63 \<Longrightarrow> wrap64 n = n"
  by (simp add: wrap64_def)

lemma wrap64_range: "- (2 ^ 63) \<le> wrap64 n \<and> wrap64 n < 2 ^ 63"
  by (simp add: wrap64_def)

text \<open>\<open>strconv.ParseInt(s, 10, 64)\<close>: \<^const>\<open>None\<close> on a syntax or range error.\<close>

definition ParseInt :: "string \<Rightarrow> int option" where
  "ParseInt s =
     (let (neg, ds) = (case s of
            [] \<Rightarrow> (False, [])
          | c # r \<Rightarrow> if c = CHR ''-'' then (True, r) else if c = CHR ''+'' then (False, r) else (False, s))
      in if ds = [] \<or> \<not> list_all is_digit ds then None
         else let v = (if neg then - int (decimal ds) else int (decimal ds)) in
           if v < - (2 ^ 63) \<or> 2 ^ 63 \<le> v then None else Some v)"

text \<open>
  The pattern \<open>(?i)(?:wait|retry after)\s+(\d+)\s+seconds?\<close>. Every repetition is followed by a
  class disjoint from its own, so that a match at a position needs no backtracking; \<open>s\<close> also folds
  to the long s (two bytes in UTF-8), the other letters only to their other ASCII case.
\<close>

definition lower :: "char \<Rightarrow> char" where
  "lower c = (let n = of_char c in if 65 \<le> n \<and> n \<le> (90 :: nat) then char_of (n + 32) else c)"

fun strip_fold :: "string \<Rightarrow> string \<Rightarrow> string option" where
  "strip_fold [] s = Some s"
| "strip_fold (p # ps) s =
     (if p = CHR ''s'' \<and> has_prefix s [CHR 0xC5, CHR 0xBF] then strip_fold ps (drop 2 s)
      else case s of [] \<Rightarrow> None | c # r \<Rightarrow> if lower c = p then strip_fold ps r else None)"

definition re_space :: "char \<Rightarrow> bool" where
  "re_space c \<longleftrightarrow> c \<in> {TAB, LF, CHR 0x0C, CR, SPACE}"

definition span_some :: "(char \<Rightarrow> bool) \<Rightarrow> string \<Rightarrow> (string \<times> string) option" where
  "span_some P s = (if takeWhile P s = [] then None else Some (takeWhile P s, dropWhile P s))"

definition wait_match :: "string \<Rightarrow> string option" where
  "wait_match s =
     (case (case strip_fold ''wait'' s of Some r \<Rightarrow> Some r | None \<Rightarrow> strip_fold ''retry after'' s) of
        None \<Rightarrow> None
      | Some r \<Rightarrow> (case span_some re_space r of
            None \<Rightarrow> None
          | Some (_, r1) \<Rightarrow> (case span_some is_digit r1 of
                None \<Rightarrow> None
              | Some (ds, r2) \<Rightarrow> (case span_some re_space r2 of
                    None \<Rightarrow> None
                  | Some (_, r3) \<Rightarrow> (case strip_fold ''second'' r3 of None \<Rightarrow> None | Some _ \<Rightarrow> Some ds)))))"

fun find_wait :: "string \<Rightarrow> string option" where
  "find_wait [] = None"
| "find_wait (c # s) = (case wait_match (c # s) of Some ds \<Rightarrow> Some ds | None \<Rightarrow> find_wait s)"

definition parseRetryFromBody :: "string \<Rightarrow> duration" where
  "parseRetryFromBody msg =
     (case find_wait msg of
        None \<Rightarrow> 0
      | Some ds \<Rightarrow> (case ParseInt ds of
            None \<Rightarrow> 0
          | Some v \<Rightarrow> if v \<le> 0 then 0 else wrap64 (v * Second)))"

text \<open>
  The outside world of the retry loop: \<open>jitter_ms b\<close> is the truncated float product
  \<open>b * (0.5 + rand.Float64()) * 1000\<close>, \<open>until\<close> the time to an HTTP date, \<open>sleep_for\<close> the context
  error when the sleep is cut short.
\<close>

record retry_env =
  jitter_ms :: "event list \<Rightarrow> nat \<Rightarrow> int"
  until :: "event list \<Rightarrow> string \<Rightarrow> duration option"
  sleep_for :: "event list \<Rightarrow> duration \<Rightarrow> go_error option"

definition backoffDuration :: "(nat \<Rightarrow> int) \<Rightarrow> nat \<Rightarrow> duration" where
  "backoffDuration jitter attempt =
     (let base = min 60 (2 * 2 ^ attempt) in wrap64 (jitter base * Millisecond))"

definition positive_int :: "string \<Rightarrow> int option" where
  "positive_int s = (case ParseInt s of Some v \<Rightarrow> if 0 < v then Some v else None | None \<Rightarrow> None)"

definition retryAfterDuration :: "(string \<Rightarrow> duration option) \<Rightarrow> go_error \<Rightarrow> duration" where
  "retryAfterDuration until_date err =
     (case as_APIError err of
        None \<Rightarrow> 0
      | Some a \<Rightarrow>
          (case Option.bind (map_of (ResponseHeaders a) ''retry-after-ms'') positive_int of
             Some v \<Rightarrow> wrap64 (v * Millisecond)
           | None \<Rightarrow>
               (case Option.bind (map_of (ResponseHeaders a) ''retry-after'') positive_int of
                  Some v \<Rightarrow> wrap64 (v * Second)
                | None \<Rightarrow>
                    (case Option.bind (map_of (ResponseHeaders a) ''retry-after'') until_date of
                       Some d \<Rightarrow> if 0 < d then d
                                 else (let b = parseRetryFromBody (api_error.Message a) in if 0 < b then b else 0)
                     | None \<Rightarrow> (let b = parseRetryFromBody (api_error.Message a) in if 0 < b then b else 0)))))"

definition retryDelay :: "(nat \<Rightarrow> int) \<Rightarrow> (string \<Rightarrow> duration option) \<Rightarrow> go_error \<Rightarrow> nat \<Rightarrow> duration" where
  "retryDelay jitter until_date err attempt =
     (let serverDelay = retryAfterDuration until_date err;
          expDelay = backoffDuration jitter attempt
      in if 0 < serverDelay \<and> (serverDelay < 60 * Second \<or> serverDelay < expDelay)
         then serverDelay else expDelay)"

section \<open>The loop\<close>

text \<open>
  \<open>fn\<close> returns a result and an error; \<open>left\<close> counts the retries still allowed. The attempt
  number is returned with the last answer.
\<close>

primrec retry_loop :: "retry_env \<Rightarrow> (nat \<times> go_error \<times> int, unit) hook option \<Rightarrow> 'a \<Rightarrow>
    ('z world_scheme, 'a \<times> go_error option, 'a \<times> go_error option) stmt \<Rightarrow> nat \<Rightarrow> nat \<Rightarrow>
    'a \<times> go_error option \<Rightarrow> ('z world_scheme, 'a \<times> go_error option, nat \<times> 'a \<times> go_error option) stmt" where
  "retry_loop re observer zero fn 0 attempt r = pure (attempt, r)"
| "retry_loop re observer zero fn (Suc left) attempt r =
     (case snd r of
        None \<Rightarrow> pure (attempt, r)
      | Some err \<Rightarrow>
          if \<not> retryable (Some err) then pure (attempt, r)
          else reads_state (\<lambda>s.
            let delay = retryDelay (jitter_ms re (hist s)) (until re (hist s)) err attempt in
            andThen (case observer of
                       None \<Rightarrow> pure ()
                     | Some f \<Rightarrow> invoke (EvRetry attempt err delay) f (attempt, err, delay))
              (\<lambda>_. reads_state (\<lambda>s. case sleep_for re (hist s) delay of
                 Some sleepErr \<Rightarrow> return_early (zero, Some sleepErr)
               | None \<Rightarrow> andThen fn (retry_loop re observer zero fn left (attempt + 1))))))"

definition retries_exhausted :: "int \<Rightarrow> go_error \<Rightarrow> go_error" where
  "retries_exhausted maxRetries err = ErrWrap (''goai: '' @ show_nat (nat maxRetries) @ '' retries exhausted: '' @ error_text err) err"

definition withRetry :: "retry_env \<Rightarrow> int \<Rightarrow> (nat \<times> go_error \<times> int, unit) hook option \<Rightarrow> 'a \<Rightarrow>
    ('z world_scheme, 'a \<times> go_error option, 'a \<times> go_error option) stmt \<Rightarrow>
    ('z world_scheme, 'r, 'a \<times> go_error option) stmt" where
  "withRetry re maxRetries observer zero fn =
     call_body (andThen fn (\<lambda>r.
       andThen (retry_loop re observer zero fn (nat maxRetries) 0 r) (\<lambda>(attempt, result, err).
         case err of
           Some e \<Rightarrow>
             if int attempt = maxRetries \<and> 0 < maxRetries \<and> retryable (Some e)
             then pure (result, Some (retries_exhausted maxRetries e))
             else pure (result, Some e)
         | None \<Rightarrow> pure (result, None))))"


section \<open>Waiting times\<close>

lemma backoff_bounds:
  assumes "\<And>b. 500 * int b \<le> jitter b \<and> jitter b \<le> 1500 * int b"
  shows "0 < backoffDuration jitter attempt \<and> backoffDuration jitter attempt \<le> 90 * Second"
proof -
  let ?b = "min 60 (2 * 2 ^ attempt) :: nat"
  have b: "1 \<le> ?b" "?b \<le> 60" by simp_all
  have "500 \<le> jitter ?b" "jitter ?b \<le> 90000" using assms [of ?b] b by linarith+
  then have "backoffDuration jitter attempt = jitter ?b * Millisecond"
    by (simp add: backoffDuration_def Let_def Millisecond_def)
  with \<open>500 \<le> jitter ?b\<close> \<open>jitter ?b \<le> 90000\<close> show ?thesis
    by (simp add: Millisecond_def Second_def)
qed

text \<open>
  C27: no retry waits longer than 90 seconds, and none spins: whatever the server sends in its
  headers or its error body (values that overflow the duration arithmetic included), the delay
  before the next attempt is positive and at most 90 seconds. The hypothesis is the documented
  range of the random factor, one half to three halves of the base.
\<close>

theorem retryDelay_bounds:
  assumes "\<And>b. 500 * int b \<le> jitter b \<and> jitter b \<le> 1500 * int b"
  shows "0 < retryDelay jitter until_date err attempt \<and> retryDelay jitter until_date err attempt \<le> 90 * Second"
  using backoff_bounds [of jitter attempt, OF assms] by (auto simp: retryDelay_def Let_def Second_def)

lemma retryDelay_bounds_witness:
  "0 < retryDelay (\<lambda>b. 1000 * int b) (\<lambda>_. None)
     (ErrAPI \<lparr>Message = ''Please wait 9300000000 seconds'', StatusCode = 429, IsRetryable = True,
              ResponseBody = [], ResponseHeaders = [(''retry-after'', ''9223372037'')]\<rparr>) 3"
  by (rule conjunct1 [OF retryDelay_bounds]) simp

section \<open>What the loop returns\<close>

text \<open>A model call whose answers are given beforehand.\<close>

record 'a scripted = world +
  answers :: "('a \<times> go_error option) list"

definition next_answer :: "('a scripted, 'r, 'a \<times> go_error option) stmt" where
  "next_answer = (\<lambda>s. (Value (hd (answers s)), s\<lparr>answers := tl (answers s)\<rparr>))"

text \<open>The first answer that is not a retryable error, among the first and \<open>n\<close> more; with its index.\<close>

fun settle :: "nat \<Rightarrow> ('a \<times> go_error option) list \<Rightarrow> nat \<times> 'a \<times> go_error option" where
  "settle (Suc n) (r # rs) =
     (if retryable (snd r) then (case settle n rs of (k, x) \<Rightarrow> (Suc k, x)) else (0, r))"
| "settle n rs = (0, hd rs)"

definition final_answer :: "int \<Rightarrow> nat \<times> 'a \<times> go_error option \<Rightarrow> 'a \<times> go_error option" where
  "final_answer maxRetries r = (case r of (k, x, e) \<Rightarrow> (x, case e of
      Some err \<Rightarrow> Some (if int k = maxRetries \<and> 0 < maxRetries \<and> retryable e
                        then retries_exhausted maxRetries err else err)
    | None \<Rightarrow> None))"

definition silent :: "('i, unit) hook option \<Rightarrow> bool" where
  "silent observer \<longleftrightarrow> (\<forall>f h i. observer = Some f \<longrightarrow> f h i = Inr ())"

lemma next_answer_Cons: "answers s = x # xs \<Longrightarrow> next_answer s = (Value x, s\<lparr>answers := xs\<rparr>)"
  by (simp add: next_answer_def)

lemma settle_at_most: "fst (settle n rs) \<le> n"
  by (induction n rs rule: settle.induct) (auto split: prod.splits)

lemma retryable_None [simp]: "\<not> retryable None"
  by (simp add: retryable_def)

lemma retry_loop_settles:
  assumes "\<And>h d. sleep_for re h d = None" "silent observer"
    and "n \<le> length (answers s)"
  shows "\<exists>s'. retry_loop re observer zero next_answer n a r s =
      (Value (a + fst (settle n (r # answers s)), snd (settle n (r # answers s))), s') \<and>
    answers s' = drop (fst (settle n (r # answers s))) (answers s)"
  using assms(3)
proof (induction n arbitrary: a r s)
  case 0
  show ?case by (simp add: pure_def)
next
  case (Suc n)
  show ?case
  proof (cases "retryable (snd r)")
    case True
    then obtain err where err: "snd r = Some err" by (cases "snd r") auto
    obtain x xs where ans: "answers s = x # xs" using Suc.prems by (cases "answers s") auto
    define s1 where "s1 = (case observer of None \<Rightarrow> s | Some f \<Rightarrow>
      s\<lparr>hist := hist s @ [EvRetry a err (retryDelay (jitter_ms re (hist s)) (until re (hist s)) err a)]\<rparr>)"
    have s1: "answers s1 = x # xs" by (simp add: s1_def ans split: option.split)
    have "retry_loop re observer zero next_answer (Suc n) a r s =
        retry_loop re observer zero next_answer n (a + 1) x (s1\<lparr>answers := xs\<rparr>)"
      using err True assms(1,2) ans
      by (auto simp: next_answer_Cons Let_def reads_state_def andThen_def invoke_def log_event_def
          modify_def pure_def s1_def silent_def split: option.splits)
    moreover have "n \<le> length (answers (s1\<lparr>answers := xs\<rparr>))" using Suc.prems ans by simp
    from Suc.IH [OF this, of "a + 1" x] obtain s' where
      "retry_loop re observer zero next_answer n (a + 1) x (s1\<lparr>answers := xs\<rparr>) =
         (Value (a + 1 + fst (settle n (x # xs)), snd (settle n (x # xs))), s')"
      "answers s' = drop (fst (settle n (x # xs))) xs" by auto
    ultimately show ?thesis using True ans by (auto split: prod.split)
  next
    case False
    then show ?thesis by (cases "snd r") (simp_all add: pure_def)
  qed
qed

text \<open>
  C13: \<open>withRetry\<close> calls the model until an answer is a success or an error that is not retryable,
  at most \<open>maxRetries + 1\<close> times, and returns that answer; only when the retry budget is used up
  on a retryable error is the error wrapped as "retries exhausted". No answer beyond the one
  returned is consumed.
\<close>

theorem withRetry_settles:
  assumes "\<And>h d. sleep_for re h d = None" "silent observer"
    and "nat maxRetries < length (answers s)"
  shows "\<exists>s'. withRetry re maxRetries observer zero next_answer s =
      (Value (final_answer maxRetries (settle (nat maxRetries) (answers s))), s') \<and>
    answers s' = drop (Suc (fst (settle (nat maxRetries) (answers s)))) (answers s) \<and>
    fst (settle (nat maxRetries) (answers s)) \<le> nat maxRetries"
proof -
  obtain x xs where ans: "answers s = x # xs" using assms(3) by (cases "answers s") auto
  have "nat maxRetries \<le> length (answers (s\<lparr>answers := xs\<rparr>))" using assms(3) ans by simp
  from retry_loop_settles [OF assms(1,2) this, of zero 0 x] obtain s' where
    loop: "retry_loop re observer zero next_answer (nat maxRetries) 0 x (s\<lparr>answers := xs\<rparr>) =
      (Value (settle (nat maxRetries) (x # xs)), s')"
    "answers s' = drop (fst (settle (nat maxRetries) (x # xs))) xs" by auto
  have "withRetry re maxRetries observer zero next_answer s =
      (Value (final_answer maxRetries (settle (nat maxRetries) (x # xs))), s')"
    using loop(1) ans unfolding withRetry_def call_body_def andThen_def
    by (auto simp: next_answer_Cons final_answer_def pure_def split: prod.splits option.splits)
  with loop(2) ans settle_at_most [of "nat maxRetries" "x # xs"] show ?thesis by auto
qed

lemma withRetry_settles_witness:
  "\<exists>s'. withRetry \<lparr>jitter_ms = \<lambda>_ b. 1000 * int b, until = \<lambda>_ _. None, sleep_for = \<lambda>_ _. None\<rparr> 2 None 0
      next_answer \<lparr>hist = [], answers = [(0, Some (ErrNet ''reset'')), (7, None), (8 :: nat, None)]\<rparr> =
      (Value (7, None), s')"
  using withRetry_settles [of "\<lparr>jitter_ms = \<lambda>_ b. 1000 * int b, until = \<lambda>_ _. None, sleep_for = \<lambda>_ _. None\<rparr>"
      None 2 "\<lparr>hist = [], answers = [(0, Some (ErrNet ''reset'')), (7, None), (8 :: nat, None)]\<rparr>" 0]
  by (auto simp: final_answer_def retryable_def isNetworkError_def error_is_def is_net_Error_def
      as_APIError_def silent_def numeral_2_eq_2)

end
