(* ===== verification/ToolLoop.thy ===== *)
theory ToolLoop
  imports ToolExec Retry
begin

text \<open>
  The synchronous tool loop, \<open>GenerateText\<close> of \<open>src/generate.go\<close>: call the model, execute the
  requested tools, append both to the conversation, repeat. The model, the hooks, the tools and the
  scheduler are parameters; everything they can observe is the event list of the run, which also
  records the states published through \<open>WithStateRef\<close>.
\<close>

section \<open>Options and environment\<close>

record gen_options = request_options +
  oMaxSteps :: int
  oSequentialTools :: bool
  oMaxRetries :: int
  oOnStepFinish :: "(StepResult, unit) hook list"
  oOnFinish :: "(FinishInfo, unit) hook list"
  oOnRequest :: "(RequestInfo, unit) hook list"
  oOnResponse :: "(ResponseInfo, unit) hook list"
  oOnToolCall :: "(ToolCallInfo, unit) hook list"
  oOnToolCallStart :: "(ToolCallStartInfo, unit) hook list"
  oOnBeforeToolExecute :: "(BeforeToolExecuteInfo, BeforeToolExecuteResult) hook option"
  oOnAfterToolExecute :: "(AfterToolExecuteInfo, AfterToolExecuteResult) hook option"
  oOnBeforeStep :: "(BeforeStepInfo, BeforeStepResult) hook option"
  oOnPanic :: nat
  oRetryObserver :: "(nat \<times> go_error \<times> int, unit) hook option"
  oStopWhen :: "(StepResult list, bool) hook option"
  oStateRef :: bool

text \<open>
  The model's \<open>DoGenerate\<close> returns a result pointer and an error; \<^const>\<open>None\<close> as the model itself
  is the nil interface.
\<close>

record gen_env =
  geModel :: "(GenerateParams, GenerateResult option \<times> go_error option) hook option"
  geRetry :: retry_env
  geSchedule :: "event list \<Rightarrow> nat list"
  geContext :: go_context
  geUnmarshal :: "string \<Rightarrow> any option"

text \<open>The local variables of \<open>GenerateText\<close>.\<close>

record text_run = world +
  rParams :: GenerateParams
  rSteps :: "StepResult list"
  rTotalUsage :: Usage
  rLastReasoning :: "Part list"
  rInflight :: nat

type_synonym 'a text_stmt = "(text_run, go_error + TextResult, 'a) stmt"

definition announce :: "bool \<Rightarrow> StepKind \<Rightarrow> nat \<Rightarrow> ('z world_scheme, 'r, unit) stmt" where
  "announce ref kind step = (if ref then log_event (EvState kind step) else pure ())"

section \<open>The parts of a step\<close>

text \<open>\<open>OnBeforeStep\<close>: whether it stopped the loop.\<close>

definition before_step :: "'z gen_options_scheme \<Rightarrow> nat \<Rightarrow> ('s text_run_scheme, 'r, bool) stmt" where
  "before_step opts step =
     (case oOnBeforeStep opts of
        None \<Rightarrow> pure False
      | Some f \<Rightarrow>
          if step \<le> 1 then pure False
          else reads_state (\<lambda>s.
            let info = \<lparr>bsStep = step, bsMessages = gpMessages (rParams s)\<rparr> in
            andThen (callHook (oOnPanic opts) ''OnBeforeStep'' (invoke (EvBeforeStep info) f info)) (\<lambda>bsr.
              if brStop bsr then pure True
              else andThen
                (modify (rParams_update (gpMessages_update (\<lambda>ms. ms @ brExtraMessages bsr))))
                (\<lambda>_. pure False))))"

definition request_hooks :: "'z gen_options_scheme \<Rightarrow> ('s text_run_scheme, 'r, unit) stmt" where
  "request_hooks opts = reads_state (\<lambda>s.
     let info = \<lparr>rqMessageCount = length (gpMessages (rParams s)), rqToolCount = length (gpTools (rParams s)),
                 rqMessages = requestMessages (gpSystem (rParams s)) (gpMessages (rParams s))\<rparr>
     in call_hooks (oOnPanic opts) ''OnRequest'' (EvRequest info) (oOnRequest opts) info)"

definition model_call :: "'z gen_options_scheme \<Rightarrow> gen_env \<Rightarrow>
    (GenerateParams, GenerateResult option \<times> go_error option) hook \<Rightarrow> nat \<Rightarrow>
    (text_run, 'r, GenerateResult option \<times> go_error option) stmt" where
  "model_call opts env model step =
     andThen (announce (oStateRef opts) StepLLMInFlight step) (\<lambda>_.
     andThen (modify (rInflight_update (\<lambda>_. step))) (\<lambda>_.
       withRetry (geRetry env) (oMaxRetries opts) (oRetryObserver opts) None
         (reads_state (\<lambda>s. invoke (EvGenerate (rParams s)) model (rParams s)))))"

definition nil_dereference :: go_panic where
  "nil_dereference = PanicError (ErrMsg ''runtime error: invalid memory address or nil pointer dereference'')"

definition response_hooks :: "'z gen_options_scheme \<Rightarrow> GenerateResult option \<Rightarrow> go_error option \<Rightarrow> (text_run, 'r, unit) stmt" where
  "response_hooks opts result err =
     (let status = (case err of None \<Rightarrow> 0 | Some e \<Rightarrow>
                      (case as_APIError e of Some a \<Rightarrow> StatusCode a | None \<Rightarrow> 0));
          info = \<lparr>rsUsage = (if err = None then grUsage (the result) else zero_Usage),
                  rsFinishReason = (if err = None then grFinishReason (the result) else FinishNone),
                  rsError = err, rsStatusCode = status\<rparr>
      in call_hooks (oOnPanic opts) ''OnResponse'' (EvResponse info) (oOnResponse opts) info)"

definition fireOnFinish :: "'z gen_options_scheme \<Rightarrow> FinishInfo \<Rightarrow> ('s world_scheme, 'r, unit) stmt" where
  "fireOnFinish opts info = call_hooks (oOnPanic opts) ''OnFinish'' (EvFinish info) (oOnFinish opts) info"

definition abort_step :: "'z gen_options_scheme \<Rightarrow> go_error \<Rightarrow> (text_run, go_error + 'x, 'a) stmt" where
  "abort_step opts err = reads_state (\<lambda>s.
     andThen (fireOnFinish opts
       \<lparr>fiStepsExhausted = False, fiTotalSteps = length (rSteps s), fiTotalUsage = rTotalUsage s,
        fiFinishReason = (if rSteps s = [] then FinishNone else srFinishReason (last (rSteps s))),
        fiStoppedBy = StopCauseAbort\<rparr>)
     (\<lambda>_. return_early (Inl err)))"

definition step_result :: "nat \<Rightarrow> GenerateResult \<Rightarrow> StepResult" where
  "step_result step r = \<lparr>srContent = grContent r, srNumber = step, srText = grText r,
     srReasoning = grReasoning r, srToolCalls = grToolCalls r, srToolResults = [],
     srFinishReason = grFinishReason r, srUsage = grUsage r, srResponse = grResponse r,
     srProviderMetadata = grProviderMetadata r, srSources = grSources r\<rparr>"

definition last_reasoning :: "GenerateResult \<Rightarrow> Part list" where
  "last_reasoning r =
     (if grReasoningParts r = [] \<and> grReasoning r \<noteq> []
      then [zero_Part\<lparr>pType := PartReasoning, pText := grReasoning r\<rparr>] else grReasoningParts r)"

definition record_step :: "'z gen_options_scheme \<Rightarrow> nat \<Rightarrow> GenerateResult \<Rightarrow> unit text_stmt" where
  "record_step opts step r =
     andThen (modify (\<lambda>s. s\<lparr>rSteps := rSteps s @ [step_result step r],
                            rTotalUsage := addUsage (rTotalUsage s) (grUsage r),
                            rLastReasoning := last_reasoning r\<rparr>)) (\<lambda>_.
     andThen (announce (oStateRef opts) StepStepFinished step) (\<lambda>_.
       call_hooks (oOnPanic opts) ''OnStepFinish'' (EvStepFinish (step_result step r))
         (oOnStepFinish opts) (step_result step r)))"

text \<open>Whether the step is the last one because the model asked for nothing the loop can execute.\<close>

definition settled_step :: "GenerateParams \<Rightarrow> toolmap \<Rightarrow> GenerateResult \<Rightarrow> bool" where
  "settled_step params toolMap r =
     (let reason = (if grToolCalls r \<noteq> [] then FinishToolCalls else grFinishReason r) in
      reason \<noteq> FinishToolCalls \<or>
      (grToolCalls r = [] \<and> \<not> hasProviderDefinedTools (gpTools params)) \<or>
      (grToolCalls r \<noteq> [] \<and> toolMap = []))"

definition natural_exit :: "'z gen_options_scheme \<Rightarrow> nat \<Rightarrow> toolmap \<Rightarrow> GenerateResult \<Rightarrow> 'a text_stmt" where
  "natural_exit opts originalLen toolMap r = reads_state (\<lambda>s.
     let tr = (buildTextResult (rSteps s) (rTotalUsage s))
                \<lparr>txResponseMessages := buildResponseMessages
                   (drop originalLen (gpMessages (rParams s))) (rSteps s) (rLastReasoning s)\<rparr>
     in andThen (fireOnFinish opts
          \<lparr>fiStepsExhausted = False, fiTotalSteps = length (rSteps s), fiTotalUsage = rTotalUsage s,
           fiFinishReason = txFinishReason tr,
           fiStoppedBy = (if grToolCalls r \<noteq> [] \<and> toolMap = [] then StopCauseNoExecutableTools
                          else StopCauseNatural)\<rparr>)
        (\<lambda>_. return_early (Inr tr)))"

definition tool_hooks :: "'z gen_options_scheme \<Rightarrow> toolHooks" where
  "tool_hooks opts = \<lparr>hSequential = oSequentialTools opts, hOnToolCallStart = oOnToolCallStart opts,
     hOnToolCall = oOnToolCall opts, hOnBeforeExecute = oOnBeforeToolExecute opts,
     hOnAfterExecute = oOnAfterToolExecute opts, hOnPanic = oOnPanic opts\<rparr>"

definition set_last_results :: "ToolResult list \<Rightarrow> StepResult list \<Rightarrow> StepResult list" where
  "set_last_results results steps = butlast steps @ [(last steps)\<lparr>srToolResults := results\<rparr>]"

text \<open>Executing the step's tools, on a step with tool calls: the tool messages.\<close>

definition run_tools :: "'z gen_options_scheme \<Rightarrow> gen_env \<Rightarrow> toolmap \<Rightarrow> nat \<Rightarrow> GenerateResult \<Rightarrow> Message list text_stmt" where
  "run_tools opts env toolMap step r =
     (if grToolCalls r = [] then pure []
      else andThen (announce (oStateRef opts) StepToolExecuting step) (\<lambda>_. reads_state (\<lambda>s.
        case executeToolsParallel (geUnmarshal env) (geSchedule env (hist s)) (geContext env)
               (grToolCalls r) toolMap step (tool_hooks opts) (hist s) of
          ((msgs, results), h) \<Rightarrow>
            andThen (modify (\<lambda>s. s\<lparr>hist := h, rSteps := set_last_results results (rSteps s)\<rparr>))
              (\<lambda>_. pure msgs))))"

definition fold_step :: "GenerateResult \<Rightarrow> Message list \<Rightarrow> text_run \<Rightarrow> text_run" where
  "fold_step r toolMessages s =
     s\<lparr>rParams := setPreviousResponseID
         ((rParams s)\<lparr>gpMessages := appendToolRoundTrip (gpMessages (rParams s)) (grText r)
            (rLastReasoning s) (grToolCalls r) toolMessages (grContent r)\<rparr>) (grResponse r)\<rparr>"

definition stopSafe :: "nat \<Rightarrow> (StepResult list, bool) hook \<Rightarrow> StepResult list \<Rightarrow> ('z world_scheme, 'r, bool) stmt" where
  "stopSafe n pred steps = callHook n ''StopWhen'' (invoke (EvStopWhen steps) pred steps)"

definition stop_when :: "'z gen_options_scheme \<Rightarrow> ('s text_run_scheme, 'r, bool) stmt" where
  "stop_when opts =
     (case oStopWhen opts of None \<Rightarrow> pure False
      | Some pred \<Rightarrow> reads_state (\<lambda>s. stopSafe (oOnPanic opts) pred (rSteps s)))"

section \<open>The loop\<close>

text \<open>
  The second half of an iteration, in which the model asked for tools: execute them, fold the step
  into the conversation, ask the stop predicate. \<open>Some cause\<close> is a \<open>break\<close> with \<open>hookStopped\<close> set.
\<close>

definition continue_step :: "'z gen_options_scheme \<Rightarrow> gen_env \<Rightarrow> toolmap \<Rightarrow> nat \<Rightarrow> GenerateResult \<Rightarrow>
    StopCause option text_stmt" where
  "continue_step opts env toolMap step r =
     andThen (modify (rParams_update (gpToolChoice_update (\<lambda>_. [])))) (\<lambda>_.
     andThen (run_tools opts env toolMap step r) (\<lambda>toolMessages.
     andThen (modify (fold_step r toolMessages)) (\<lambda>_.
     andThen (stop_when opts) (\<lambda>stopped.
       pure (if stopped then Some StopCausePredicate else None)))))"

definition answered_step :: "'z gen_options_scheme \<Rightarrow> gen_env \<Rightarrow> nat \<Rightarrow> toolmap \<Rightarrow> nat \<Rightarrow> GenerateResult \<Rightarrow>
    StopCause option text_stmt" where
  "answered_step opts env originalLen toolMap step r =
     andThen (record_step opts step r) (\<lambda>_. reads_state (\<lambda>s.
       if settled_step (rParams s) toolMap r then natural_exit opts originalLen toolMap r
       else continue_step opts env toolMap step r))"

text \<open>What follows the model call, with its two return values; a nil result is dereferenced.\<close>

definition model_returned :: "'z gen_options_scheme \<Rightarrow> gen_env \<Rightarrow> nat \<Rightarrow> toolmap \<Rightarrow> nat \<Rightarrow>
    GenerateResult option \<times> go_error option \<Rightarrow> StopCause option text_stmt" where
  "model_returned opts env originalLen toolMap step re =
     (case re of (result, err) \<Rightarrow>
        if err = None \<and> result = None then go_panics nil_dereference
        else andThen (response_hooks opts result err) (\<lambda>_.
          case err of
            Some e \<Rightarrow> abort_step opts e
          | None \<Rightarrow> answered_step opts env originalLen toolMap step (the result)))"

text \<open>One iteration of the loop.\<close>

definition text_step :: "'z gen_options_scheme \<Rightarrow> gen_env \<Rightarrow>
    (GenerateParams, GenerateResult option \<times> go_error option) hook \<Rightarrow> nat \<Rightarrow> toolmap \<Rightarrow> nat \<Rightarrow>
    StopCause option text_stmt" where
  "text_step opts env model originalLen toolMap step =
     andThen (before_step opts step) (\<lambda>stop.
     if stop then pure (Some StopCauseBeforeStep)
     else andThen (request_hooks opts) (\<lambda>_.
          andThen (model_call opts env model step)
            (model_returned opts env originalLen toolMap step)))"

primrec text_loop :: "'z gen_options_scheme \<Rightarrow> gen_env \<Rightarrow>
    (GenerateParams, GenerateResult option \<times> go_error option) hook \<Rightarrow> nat \<Rightarrow> toolmap \<Rightarrow> nat \<Rightarrow> nat \<Rightarrow>
    StopCause option text_stmt" where
  "text_loop opts env model originalLen toolMap 0 step = pure None"
| "text_loop opts env model originalLen toolMap (Suc left) step =
     andThen (text_step opts env model originalLen toolMap step) (\<lambda>c. case c of
         Some cause \<Rightarrow> pure (Some cause)
       | None \<Rightarrow> text_loop opts env model originalLen toolMap left (Suc step))"

definition loop_exit :: "'z gen_options_scheme \<Rightarrow> nat \<Rightarrow> StopCause option \<Rightarrow> 'a text_stmt" where
  "loop_exit opts originalLen broke = reads_state (\<lambda>s.
     let current = (case broke of Some c \<Rightarrow> c | None \<Rightarrow> StopCauseUnset);
         (cause, exhausted) = finalizeStopCause (broke \<noteq> None) current (rSteps s) (oMaxSteps opts);
         tr = (buildTextResult (rSteps s) (rTotalUsage s))
                \<lparr>txStepsExhausted := exhausted,
                 txResponseMessages := buildResponseMessages
                   (drop originalLen (gpMessages (rParams s))) (rSteps s) (rLastReasoning s)\<rparr>
     in andThen (fireOnFinish opts
          \<lparr>fiStepsExhausted = exhausted, fiTotalSteps = length (rSteps s), fiTotalUsage = rTotalUsage s,
           fiFinishReason = txFinishReason tr, fiStoppedBy = cause\<rparr>)
        (\<lambda>_. return_early (Inr tr)))"

definition generate_body :: "'z gen_options_scheme \<Rightarrow> gen_env \<Rightarrow> unit text_stmt" where
  "generate_body opts env =
     (case geModel env of
        None \<Rightarrow> return_early (Inl (ErrMsg ''goai: model must not be nil''))
      | Some model \<Rightarrow>
          if oPrompt opts = [] \<and> oMessages opts = []
          then return_early (Inl (ErrMsg ''goai: prompt or messages must not be empty''))
          else
            let params = buildParams opts in
            andThen (modify (rParams_update (\<lambda>_. params))) (\<lambda>_.
            case buildToolMap (oTools opts) of
              Inl err \<Rightarrow> return_early (Inl err)
            | Inr toolMap \<Rightarrow>
                andThen (text_loop opts env model (length (gpMessages params)) toolMap (nat (oMaxSteps opts)) 1)
                  (loop_exit opts (length (gpMessages params)))))"

definition publish_idle :: "bool \<Rightarrow> text_run \<Rightarrow> text_run" where
  "publish_idle ref s =
     (if ref then s\<lparr>hist := hist s @ [EvState StepIdle (max (length (rSteps s)) (rInflight s))]\<rparr> else s)"

definition GenerateText_stmt :: "'z gen_options_scheme \<Rightarrow> gen_env \<Rightarrow> unit text_stmt" where
  "GenerateText_stmt opts env =
     recoverToError (oOnPanic opts)
       (finally_do
          (andThen (announce (oStateRef opts) StepStarting 0) (\<lambda>_. generate_body opts env))
          (publish_idle (oStateRef opts)))"

definition zero_Params :: GenerateParams where
  "zero_Params = \<lparr>gpMessages = [], gpSystem = [], gpTools = [], gpMaxOutputTokens = 0,
     gpTemperature = None, gpTopP = None, gpTopK = None, gpFrequencyPenalty = None,
     gpPresencePenalty = None, gpSeed = None, gpStopSequences = [], gpHeaders = [],
     gpProviderOptions = [], gpPromptCaching = False, gpCacheTTL = [], gpToolChoice = [],
     gpResponseFormat = None\<rparr>"

definition start_run :: "event list \<Rightarrow> text_run" where
  "start_run h = \<lparr>hist = h, rParams = zero_Params, rSteps = [], rTotalUsage = zero_Usage,
     rLastReasoning = [], rInflight = 0\<rparr>"

text \<open>The result of a call and everything it did, in order.\<close>

definition GenerateText :: "'z gen_options_scheme \<Rightarrow> gen_env \<Rightarrow> (go_error + TextResult) \<times> event list" where
  "GenerateText opts env =
     (case GenerateText_stmt opts env (start_run []) of
        (Returns r, s) \<Rightarrow> (r, hist s)
      | (Value _, s) \<Rightarrow> (Inl (ErrMsg []), hist s)
      | (Panics _, s) \<Rightarrow> (Inl (ErrMsg []), hist s))"

end
