(* ===== verification/Accumulate.thy ===== *)
theory Accumulate
  imports Messages
begin

text \<open>
  Reading a provider's stream (\<open>src/generate.go\<close>): the accumulator of reasoning parts, \<open>drainStep\<close>,
  which the streaming tool loop runs on each step's stream while it forwards the chunks, and the
  switch of \<open>TextStream.consume\<close>, which rebuilds the whole result from the chunks that arrive. A
  channel that is read until it is closed is the list of its chunks.
\<close>

section \<open>Reasoning parts\<close>

record reasoningAccumulator =
  raText :: string
  raParts :: "Part list"
  raCurrent :: "Part option"
  raKey :: string

definition no_reasoning :: reasoningAccumulator where
  "no_reasoning = \<lparr>raText = [], raParts = [], raCurrent = None, raKey = []\<rparr>"

text \<open>\<open>for k, v := range m\<close> copying every key but some into another map.\<close>

definition copy_keys :: "string list \<Rightarrow> anymap \<Rightarrow> anymap \<Rightarrow> anymap" where
  "copy_keys skip m target =
     foldr (\<lambda>(k, v) t. if k \<in> set skip then t else AList.update k v t) m target"

fun boundary_key :: "string list \<Rightarrow> anymap \<Rightarrow> string \<times> bool" where
  "boundary_key [] metadata = ([], False)"
| "boundary_key (name # names) metadata =
     (case get_str metadata name of
        Some value \<Rightarrow> if value \<noteq> [] then (name @ '':'' @ value, True) else boundary_key names metadata
      | None \<Rightarrow> boundary_key names metadata)"

definition reasoningBoundaryKey :: "anymap \<Rightarrow> string \<times> bool" where
  "reasoningBoundaryKey metadata = boundary_key [''reasoningId'', ''blockId'', ''itemId''] metadata"

definition reasoningSignatureChanged :: "anymap \<Rightarrow> anymap \<Rightarrow> bool" where
  "reasoningSignatureChanged existing incoming =
     (case (get_str existing ''signature'', get_str incoming ''signature'') of
        (Some old, Some sig) \<Rightarrow> old \<noteq> [] \<and> sig \<noteq> [] \<and> old \<noteq> sig
      | _ \<Rightarrow> False)"

definition reasoningSignaturePresenceChanged :: "anymap \<Rightarrow> anymap \<Rightarrow> bool" where
  "reasoningSignaturePresenceChanged existing incoming \<longleftrightarrow>
     (get_str existing ''signature'' \<noteq> None) \<noteq> (get_str incoming ''signature'' \<noteq> None)"

definition reasoningBoundaryChanged :: "Part \<Rightarrow> string \<Rightarrow> string \<Rightarrow> bool \<Rightarrow> StreamChunk \<Rightarrow> bool" where
  "reasoningBoundaryChanged current currentKey incomingKey incomingHasKey chunk =
     (if currentKey \<noteq> [] \<and> incomingHasKey \<and> currentKey \<noteq> incomingKey then True
      else if scText chunk = [] then False
      else if (currentKey = [] \<and> incomingHasKey) \<or> (currentKey \<noteq> [] \<and> \<not> incomingHasKey)
      then pText current \<noteq> []
      else reasoningSignatureChanged (pProviderOptions current) (scMetadata chunk) \<or>
           reasoningSignaturePresenceChanged (pProviderOptions current) (scMetadata chunk))"

definition flush_reasoning :: "reasoningAccumulator \<Rightarrow> reasoningAccumulator" where
  "flush_reasoning a =
     (case raCurrent a of
        None \<Rightarrow> a
      | Some cur \<Rightarrow>
          \<lparr>raText = [],
           raParts = (if pText cur \<noteq> [] \<or> pProviderOptions cur \<noteq> [] then raParts a @ [cur] else raParts a),
           raCurrent = None, raKey = []\<rparr>)"

definition finish_reasoning :: "reasoningAccumulator \<Rightarrow> Part list \<times> reasoningAccumulator" where
  "finish_reasoning a = (let b = flush_reasoning a in (raParts b, b\<lparr>raParts := []\<rparr>))"

definition fresh_part :: Part where
  "fresh_part = zero_Part\<lparr>pType := PartReasoning\<rparr>"

definition add_reasoning :: "reasoningAccumulator \<Rightarrow> StreamChunk \<Rightarrow> reasoningAccumulator" where
  "add_reasoning a chunk =
     (let (key, hasKey) = reasoningBoundaryKey (scMetadata chunk);
          b = (case raCurrent a of
                 Some cur \<Rightarrow> if reasoningBoundaryChanged cur (raKey a) key hasKey chunk
                             then flush_reasoning a else a
               | None \<Rightarrow> a);
          (cur, k) = (case raCurrent b of Some cur \<Rightarrow> (cur, raKey b) | None \<Rightarrow> (fresh_part, key));
          txt = raText b @ scText chunk
      in b\<lparr>raText := txt, raKey := k,
           raCurrent := Some (cur\<lparr>pText := txt,
             pProviderOptions := copy_keys [''source''] (scMetadata chunk) (pProviderOptions cur)\<rparr>)\<rparr>)"

definition reasoningText :: "Part list \<Rightarrow> string" where
  "reasoningText parts = concat (map pText parts)"

lemmas reasoning_defs = add_reasoning_def finish_reasoning_def flush_reasoning_def fresh_part_def

lemma map_of_copy_keys:
  "map_of (copy_keys skip m t) k =
     (if k \<in> set skip then map_of t k
      else case map_of m k of Some v \<Rightarrow> Some v | None \<Rightarrow> map_of t k)"
  by (induction m) (auto simp: copy_keys_def update_conv')

lemma copy_keys_Nil [simp]: "copy_keys skip [] t = t"
  by (simp add: copy_keys_def)

lemma has_key_copy_keys [simp]:
  "has_key (copy_keys skip m t) k \<longleftrightarrow> (k \<notin> set skip \<and> has_key m k) \<or> has_key t k"
  by (auto simp: has_key_def map_of_copy_keys split: option.splits)

text \<open>What the accumulator keeps true: the builder holds the text of the open part.\<close>

definition reasoning_ok :: "reasoningAccumulator \<Rightarrow> bool" where
  "reasoning_ok a \<longleftrightarrow> raText a = (case raCurrent a of Some cur \<Rightarrow> pText cur | None \<Rightarrow> [])"

definition reasoning_so_far :: "reasoningAccumulator \<Rightarrow> string" where
  "reasoning_so_far a = reasoningText (raParts a) @ raText a"

lemma no_reasoning_ok [simp]: "reasoning_ok no_reasoning" "reasoning_so_far no_reasoning = []"
  by (simp_all add: reasoning_ok_def no_reasoning_def reasoning_so_far_def reasoningText_def)

lemma flush_reasoning_ok [simp]:
  "reasoning_ok a \<Longrightarrow> reasoning_ok (flush_reasoning a)"
  "reasoning_ok a \<Longrightarrow> reasoning_so_far (flush_reasoning a) = reasoning_so_far a"
  by (auto simp: reasoning_ok_def reasoning_so_far_def flush_reasoning_def reasoningText_def split: option.splits)

lemma flushed_text [simp]: "reasoning_ok a \<Longrightarrow> raText (flush_reasoning a) = []"
  by (auto simp: reasoning_ok_def flush_reasoning_def split: option.splits)

lemma add_reasoning_ok [simp]:
  assumes "reasoning_ok a"
  shows "reasoning_ok (add_reasoning a chunk)"
    "reasoning_so_far (add_reasoning a chunk) = reasoning_so_far a @ scText chunk"
proof -
  obtain key hasKey where k: "reasoningBoundaryKey (scMetadata chunk) = (key, hasKey)" by fastforce
  define b where "b = (case raCurrent a of
      Some cur \<Rightarrow> if reasoningBoundaryChanged cur (raKey a) key hasKey chunk then flush_reasoning a else a
    | None \<Rightarrow> a)"
  have b: "reasoning_so_far b = reasoning_so_far a"
    using assms by (auto simp: b_def split: option.split)
  show "reasoning_ok (add_reasoning a chunk)"
    by (simp add: add_reasoning_def reasoning_ok_def Let_def split: prod.split)
  have "reasoning_so_far (add_reasoning a chunk) = reasoning_so_far b @ scText chunk"
    by (simp add: add_reasoning_def reasoning_so_far_def Let_def b_def k split: prod.split)
  with b show "reasoning_so_far (add_reasoning a chunk) = reasoning_so_far a @ scText chunk" by simp
qed

lemma finish_reasoning_text:
  "reasoning_ok a \<Longrightarrow> reasoningText (fst (finish_reasoning a)) = reasoning_so_far a"
  using flush_reasoning_ok(2) [of a] by (simp add: finish_reasoning_def Let_def reasoning_so_far_def)


text \<open>A part is a maximal run of chunks with one boundary key, when every chunk has a key.\<close>

fun runs :: "('a \<Rightarrow> 'k) \<Rightarrow> 'a list \<Rightarrow> 'a list list" where
  "runs key [] = []"
| "runs key (x # xs) =
     (case runs key xs of
        [] \<Rightarrow> [[x]]
      | g # gs \<Rightarrow> if key x = key (hd g) then (x # g) # gs else [x] # g # gs)"

lemma runs_Nil_iff [simp]: "runs key xs = [] \<longleftrightarrow> xs = []"
  by (cases xs) (auto split: list.splits)

lemma runs_hd: "xs \<noteq> [] \<Longrightarrow> hd (runs key xs) \<noteq> [] \<and> hd (hd (runs key xs)) = hd xs"
  by (cases xs) (auto split: list.splits)

lemma runs_snoc:
  "runs key (xs @ [x]) =
     (if xs \<noteq> [] \<and> key (last xs) = key x
      then butlast (runs key xs) @ [last (runs key xs) @ [x]] else runs key xs @ [[x]])"
proof (induction xs)
  case (Cons y ys)
  show ?case
  proof (cases "ys = []")
    case False
    then obtain g gs where g: "runs key ys = g # gs" by (cases "runs key ys") auto
    with False runs_hd [of ys key] have h: "g \<noteq> []" "hd g = hd ys" by auto
    from Cons.IH g h False show ?thesis by (cases gs) auto
  qed simp
qed simp

abbreviation chunk_key :: "StreamChunk \<Rightarrow> string" where
  "chunk_key c \<equiv> fst (reasoningBoundaryKey (scMetadata c))"

definition keyed :: "StreamChunk \<Rightarrow> bool" where
  "keyed c \<longleftrightarrow> snd (reasoningBoundaryKey (scMetadata c)) \<and> get_str (scMetadata c) ''signature'' = None"

lemma get_str_copy_keys:
  "get_str (copy_keys skip m t) k =
     (if k \<in> set skip \<or> \<not> has_key m k then get_str t k else get_str m k)"
  by (auto simp: get_str_def map_of_copy_keys has_key_def split: option.splits)

lemma boundary_key_True: "boundary_key ks m = (k, True) \<Longrightarrow> k \<noteq> [] \<and> (\<exists>n\<in>set ks. has_key m n)"
  by (induction ks) (auto split: option.splits if_splits any.splits simp: get_str_def has_key_def)

lemma keyedE:
  assumes "keyed c"
  obtains k where "reasoningBoundaryKey (scMetadata c) = (k, True)" "k \<noteq> []"
    "\<exists>n. n \<noteq> ''source'' \<and> has_key (scMetadata c) n" "get_str (scMetadata c) ''signature'' = None"
proof -
  obtain k where k: "reasoningBoundaryKey (scMetadata c) = (k, True)"
    using assms by (cases "reasoningBoundaryKey (scMetadata c)") (auto simp: keyed_def)
  from boundary_key_True [OF k [unfolded reasoningBoundaryKey_def]] have "k \<noteq> []"
    and "\<exists>n\<in>set [''reasoningId'', ''blockId'', ''itemId'']. has_key (scMetadata c) n" by blast+
  then obtain n where n: "k \<noteq> []" "n \<in> set [''reasoningId'', ''blockId'', ''itemId'']" "has_key (scMetadata c) n"
    by blast
  from n(2) have "n \<noteq> ''source''" by auto
  with n have "\<exists>n. n \<noteq> ''source'' \<and> has_key (scMetadata c) n" by blast
  moreover have "get_str (scMetadata c) ''signature'' = None" using assms by (simp add: keyed_def)
  ultimately show ?thesis by (rule that [OF k n(1)])
qed

abbreviation run_text :: "StreamChunk list \<Rightarrow> string" where
  "run_text g \<equiv> concat (map scText g)"

definition keyed_inv :: "StreamChunk list \<Rightarrow> reasoningAccumulator \<Rightarrow> bool" where
  "keyed_inv xs a \<longleftrightarrow>
     map pText (raParts a) = map run_text (butlast (runs chunk_key xs)) \<and>
     raText a = run_text (last (runs chunk_key xs)) \<and> raKey a = chunk_key (last xs) \<and> raKey a \<noteq> [] \<and>
     (\<exists>cur. raCurrent a = Some cur \<and> pText cur = raText a \<and> pProviderOptions cur \<noteq> [] \<and>
        get_str (pProviderOptions cur) ''signature'' = None)"

lemma has_key_nonempty: "has_key m k \<Longrightarrow> m \<noteq> []"
  by (auto simp: has_key_def)

lemma copy_keys_nonempty: "n \<noteq> ''source'' \<Longrightarrow> has_key m n \<Longrightarrow> copy_keys [''source''] m t \<noteq> []"
  by (rule has_key_nonempty [of _ n]) simp

lemma keyed_inv_first: "keyed c \<Longrightarrow> keyed_inv [c] (add_reasoning no_reasoning c)"
  by (erule keyedE)
     (auto simp: keyed_inv_def add_reasoning_def no_reasoning_def fresh_part_def zero_Part_def
        get_str_copy_keys Let_def copy_keys_nonempty)

lemma keyed_inv_add:
  assumes "keyed_inv xs a" "xs \<noteq> []" "keyed c"
  shows "keyed_inv (xs @ [c]) (add_reasoning a c)"
proof -
  from assms(3) obtain k where k: "reasoningBoundaryKey (scMetadata c) = (k, True)" "k \<noteq> []"
      "\<exists>n. n \<noteq> ''source'' \<and> has_key (scMetadata c) n" "get_str (scMetadata c) ''signature'' = None"
    by (rule keyedE)
  from assms(1) obtain cur where cur: "raCurrent a = Some cur" "pText cur = raText a"
      "pProviderOptions cur \<noteq> []" "get_str (pProviderOptions cur) ''signature'' = None"
    and a: "map pText (raParts a) = map run_text (butlast (runs chunk_key xs))"
      "raText a = run_text (last (runs chunk_key xs))" "raKey a = chunk_key (last xs)" "raKey a \<noteq> []"
    by (auto simp: keyed_inv_def)
  have ne: "copy_keys [''source''] (scMetadata c) t \<noteq> []" for t
    using k(3) copy_keys_nonempty [of _ "scMetadata c" t] by metis
  have sig: "get_str (copy_keys [''source''] (scMetadata c) t) ''signature'' = None"
    if "get_str t ''signature'' = None" for t
    using that k(4) by (simp add: get_str_copy_keys)
  have changed: "reasoningBoundaryChanged cur (raKey a) k True c \<longleftrightarrow> raKey a \<noteq> k"
    using a(4) k(4) cur(4) by (simp add: reasoningBoundaryChanged_def reasoningSignatureChanged_def
        reasoningSignaturePresenceChanged_def)
  show ?thesis
  proof (cases "raKey a = k")
    case True
    then have "add_reasoning a c = a\<lparr>raText := raText a @ scText c,
        raCurrent := Some (cur\<lparr>pText := raText a @ scText c,
          pProviderOptions := copy_keys [''source''] (scMetadata c) (pProviderOptions cur)\<rparr>)\<rparr>"
      using changed k(1) cur(1) by (cases a) (simp add: add_reasoning_def Let_def)
    with True show ?thesis
      using a assms(2) k(1,2) ne sig [OF cur(4)]
      by (simp add: keyed_inv_def runs_snoc)
  next
    case False
    then have "add_reasoning a c =
        \<lparr>raText = scText c, raParts = raParts a @ [cur],
         raCurrent = Some (fresh_part\<lparr>pText := scText c,
           pProviderOptions := copy_keys [''source''] (scMetadata c) []\<rparr>), raKey = k\<rparr>"
      using changed k(1) cur
      by (simp add: add_reasoning_def flush_reasoning_def fresh_part_def zero_Part_def Let_def)
    with False show ?thesis
      using a assms(2) k(1,2) ne sig [of "[]"] cur(2)
        append_butlast_last_id [of "map run_text (runs chunk_key xs)"]
      by (simp add: keyed_inv_def runs_snoc map_butlast last_map)
  qed
qed

text \<open>
  C32: reasoning is cut into parts at the block boundaries and nowhere else: when every chunk names
  its block (and none is signed), the parts that \<open>finish\<close> returns are the maximal runs of chunks
  of one block, in order, each with the text of its run.
\<close>

theorem reasoning_parts_by_block:
  assumes "\<forall>c\<in>set chunks. keyed c"
  shows "map pText (fst (finish_reasoning (foldl add_reasoning no_reasoning chunks))) =
    map run_text (runs chunk_key chunks)"
proof (cases "chunks = []")
  case False
  then have "keyed_inv chunks (foldl add_reasoning no_reasoning chunks)"
    using assms
  proof (induction chunks rule: rev_induct)
    case (snoc c xs)
    then show ?case by (cases "xs = []") (auto intro: keyed_inv_first keyed_inv_add)
  qed simp
  moreover have "runs chunk_key chunks \<noteq> []" using False by simp
  ultimately show ?thesis
    using append_butlast_last_id [of "map run_text (runs chunk_key chunks)"]
    by (auto simp: keyed_inv_def finish_reasoning_def flush_reasoning_def map_butlast last_map)
qed (simp add: finish_reasoning_def flush_reasoning_def no_reasoning_def)

definition block_chunk :: "string \<Rightarrow> string \<Rightarrow> StreamChunk" where
  "block_chunk block text = zero_Chunk\<lparr>scType := ChunkReasoning, scText := text,
     scMetadata := [(''blockId'', AStr block)]\<rparr>"

theorem reasoning_parts_by_block_witness:
  "map pText (fst (finish_reasoning (foldl add_reasoning no_reasoning
     [block_chunk ''0'' ''ab'', block_chunk ''0'' ''c'', block_chunk ''1'' ''d'']))) = [''abc'', ''d'']"
  by (subst reasoning_parts_by_block)
     (simp_all add: block_chunk_def zero_Chunk_def keyed_def reasoningBoundaryKey_def get_str_def)

text \<open>
  The key of a block that joins a part opened by an empty chunk without a key is not recorded, so
  the next chunk of that block opens another part.
\<close>

lemma adopted_block_is_split:
  "map pText (fst (finish_reasoning (foldl add_reasoning no_reasoning
     [zero_Chunk, block_chunk ''0'' ''a'', block_chunk ''0'' ''b'']))) = [''a'', ''b'']"
  by code_simp

end
