(* ===== verification/Drain.thy ===== *)
theory Drain
  imports Accumulate
begin

text \<open>
  \<open>drainStep\<close> and \<open>provider.TrySend\<close>: one step's stream is forwarded to the consumer's channel and
  accumulated at the same time. The channel towards the consumer is a record: which of the sends
  find a receiver (against a cancelled context), how many were tried, and what was delivered.
\<close>

section \<open>The output channel\<close>

record sink =
  skReady :: "nat \<Rightarrow> bool"
  skTried :: nat
  skSent :: "StreamChunk list"
  skCtxErr :: go_error \<comment> \<open>\<open>ctx.Err()\<close> once the context is done\<close>

definition TrySend :: "sink \<Rightarrow> StreamChunk \<Rightarrow> bool \<times> sink" where
  "TrySend out chunk =
     (if skReady out (skTried out)
      then (True, out\<lparr>skTried := Suc (skTried out), skSent := skSent out @ [chunk]\<rparr>)
      else (False, out\<lparr>skTried := Suc (skTried out)\<rparr>))"

definition open_sink :: "sink \<Rightarrow> bool" where
  "open_sink out \<longleftrightarrow> skReady out = (\<lambda>_. True)"

lemma TrySend_open [simp]:
  "open_sink out \<Longrightarrow>
     TrySend out chunk = (True, out\<lparr>skTried := Suc (skTried out), skSent := skSent out @ [chunk]\<rparr>)"
  by (simp add: TrySend_def open_sink_def)

lemma open_sink_update [simp]:
  "open_sink (skTried_update f out) = open_sink out"
  "open_sink (skSent_update g out) = open_sink out"
  by (simp_all add: open_sink_def)

section \<open>drainStep\<close>

record drainResult =
  drContent :: "Part list option"
  drText :: string
  drReasoning :: "Part list"
  drReasoningText :: string
  drToolCalls :: "ToolCall list"
  drUsage :: Usage
  drFinishReason :: FinishReason
  drSources :: "source list"
  drResponse :: ResponseMetadata
  drProviderMetadata :: metamap
  drErr :: "go_error option"
  drErrForwarded :: bool

definition zero_drain :: drainResult where
  "zero_drain = \<lparr>drContent = None, drText = [], drReasoning = [], drReasoningText = [], drToolCalls = [],
     drUsage = zero_Usage, drFinishReason = FinishNone, drSources = [], drResponse = zero_Response,
     drProviderMetadata = [], drErr = None, drErrForwarded = False\<rparr>"

text \<open>The local variables: the text builder, the reasoning accumulator and the result so far.\<close>

record drain_vars =
  dvText :: string
  dvReasoning :: reasoningAccumulator
  dvResult :: drainResult

definition zero_drain_vars :: drain_vars where
  "zero_drain_vars = \<lparr>dvText = [], dvReasoning = no_reasoning, dvResult = zero_drain\<rparr>"

definition chunk_tool_call :: "StreamChunk \<Rightarrow> ToolCall" where
  "chunk_tool_call chunk = \<lparr>tcID = scToolCallID chunk, tcName = scToolName chunk,
     tcInput = scToolInput chunk, tcMetadata = scMetadata chunk\<rparr>"

definition chunk_sources :: "StreamChunk \<Rightarrow> source list" where
  "chunk_sources chunk = (case get_source (scMetadata chunk) ''source'' of Some s \<Rightarrow> [s] | None \<Rightarrow> [])"

definition metadata_sources :: "StreamChunk \<Rightarrow> source list" where
  "metadata_sources chunk = (case get_sources (scMetadata chunk) ''sources'' of Some s \<Rightarrow> s | None \<Rightarrow> [])"

definition metadata_providers :: "StreamChunk \<Rightarrow> metamap \<Rightarrow> metamap" where
  "metadata_providers chunk old =
     (case get_metamap (scMetadata chunk) ''providerMetadata'' of Some pm \<Rightarrow> pm | None \<Rightarrow> old)"

text \<open>The flat metadata keys are copied into the response's own metadata.\<close>

definition with_flat_metadata :: "anymap \<Rightarrow> ResponseMetadata \<Rightarrow> ResponseMetadata" where
  "with_flat_metadata metadata r =
     r\<lparr>rProviderMetadata := copy_keys [''providerMetadata'', ''sources''] metadata (rProviderMetadata r)\<rparr>"

definition take_metadata :: "StreamChunk \<Rightarrow> drainResult \<Rightarrow> drainResult" where
  "take_metadata chunk dr =
     dr\<lparr>drFinishReason := scFinishReason chunk, drUsage := scUsage chunk,
        drSources := drSources dr @ metadata_sources chunk,
        drProviderMetadata := metadata_providers chunk (drProviderMetadata dr),
        drResponse := with_flat_metadata (scMetadata chunk) (scResponse chunk)\<rparr>"

definition drain_chunk :: "drain_vars \<Rightarrow> StreamChunk \<Rightarrow> drain_vars" where
  "drain_chunk v chunk =
     (case scType chunk of
        ChunkText \<Rightarrow>
          v\<lparr>dvText := dvText v @ scText chunk,
            dvResult := (dvResult v)\<lparr>drSources := drSources (dvResult v) @ chunk_sources chunk\<rparr>\<rparr>
      | ChunkReasoning \<Rightarrow>
          v\<lparr>dvReasoning := add_reasoning (dvReasoning v) chunk,
            dvResult := (dvResult v)\<lparr>drSources := drSources (dvResult v) @ chunk_sources chunk\<rparr>\<rparr>
      | ChunkToolCall \<Rightarrow>
          v\<lparr>dvResult := (dvResult v)\<lparr>drToolCalls := drToolCalls (dvResult v) @ [chunk_tool_call chunk]\<rparr>\<rparr>
      | ChunkStepFinish \<Rightarrow>
          v\<lparr>dvReasoning := flush_reasoning (dvReasoning v), dvResult := take_metadata chunk (dvResult v)\<rparr>
      | ChunkFinish \<Rightarrow>
          v\<lparr>dvReasoning := flush_reasoning (dvReasoning v),
            dvResult := (take_metadata chunk (dvResult v))\<lparr>drContent := scContent chunk\<rparr>\<rparr>
      | ChunkError \<Rightarrow>
          v\<lparr>dvResult := (dvResult v)\<lparr>drErr := scError chunk, drErrForwarded := True\<rparr>\<rparr>
      | _ \<Rightarrow> v)"

definition drain_finish :: "drain_vars \<Rightarrow> drainResult" where
  "drain_finish v =
     (let parts = fst (finish_reasoning (dvReasoning v)) in
      (dvResult v)\<lparr>drText := dvText v, drReasoning := parts, drReasoningText := reasoningText parts\<rparr>)"

text \<open>
  Every chunk but the final one is sent before it is accumulated (an error chunk in its branch of
  the switch); a send that is refused ends the drain, discarding the rest of the stream.
\<close>

fun drain_loop :: "StreamChunk list \<Rightarrow> sink \<Rightarrow> drain_vars \<Rightarrow> drainResult \<times> sink" where
  "drain_loop [] out v = (drain_finish v, out)"
| "drain_loop (chunk # source) out v =
     (if scType chunk = ChunkFinish then drain_loop source out (drain_chunk v chunk)
      else case TrySend out chunk of
          (True, out) \<Rightarrow> drain_loop source out (drain_chunk v chunk)
        | (False, out) \<Rightarrow> ((dvResult v)\<lparr>drErr := Some (skCtxErr out)\<rparr>, out))"

definition drainStep :: "StreamChunk list \<Rightarrow> sink \<Rightarrow> drainResult \<times> sink" where
  "drainStep source out = drain_loop source out zero_drain_vars"

section \<open>What a drained step holds\<close>

definition of_type :: "StreamChunkType \<Rightarrow> StreamChunk list \<Rightarrow> StreamChunk list" where
  "of_type t cs = filter (\<lambda>c. scType c = t) cs"

lemma of_type_simps [simp]:
  "of_type t [] = []"
  "of_type t (c # cs) = (if scType c = t then c # of_type t cs else of_type t cs)"
  "of_type t (cs @ ds) = of_type t cs @ of_type t ds"
  by (simp_all add: of_type_def)

definition finishing :: "StreamChunk \<Rightarrow> bool" where
  "finishing c \<longleftrightarrow> scType c = ChunkStepFinish \<or> scType c = ChunkFinish"

definition last_or :: "'b \<Rightarrow> ('a \<Rightarrow> 'b) \<Rightarrow> 'a list \<Rightarrow> 'b" where
  "last_or d f xs = (if xs = [] then d else f (last xs))"

lemma last_or_snoc [simp]: "last_or d f (xs @ [x]) = f x"
  by (simp add: last_or_def)

lemma last_or_Nil [simp]: "last_or d f [] = d"
  by (simp add: last_or_def)

lemma drain_loop_open:
  "open_sink out \<Longrightarrow>
     drain_loop source out v =
       (drain_finish (foldl drain_chunk v source),
        out\<lparr>skTried := skTried out + length (filter (\<lambda>c. scType c \<noteq> ChunkFinish) source),
            skSent := skSent out @ filter (\<lambda>c. scType c \<noteq> ChunkFinish) source\<rparr>)"
  by (induction source arbitrary: out v) simp_all

definition drained :: "StreamChunk list \<Rightarrow> drain_vars" where
  "drained cs = foldl drain_chunk zero_drain_vars cs"

lemma drained_Nil [simp]: "drained [] = zero_drain_vars"
  by (simp add: drained_def)

lemma drained_snoc [simp]: "drained (cs @ [c]) = drain_chunk (drained cs) c"
  by (simp add: drained_def)

lemma drain_vars_start [simp]:
  "dvText zero_drain_vars = []" "dvReasoning zero_drain_vars = no_reasoning" "dvResult zero_drain_vars = zero_drain"
  by (simp_all add: zero_drain_vars_def)

lemma zero_drain_simps [simp]:
  "drContent zero_drain = None" "drToolCalls zero_drain = []" "drUsage zero_drain = zero_Usage"
  "drFinishReason zero_drain = FinishNone" "drErr zero_drain = None" "drErrForwarded zero_drain = False"
  "drSources zero_drain = []" "drResponse zero_drain = zero_Response" "drProviderMetadata zero_drain = []"
  by (simp_all add: zero_drain_def)

lemma drained_text: "dvText (drained cs) = concat (map scText (of_type ChunkText cs))"
  by (induction cs rule: rev_induct) (auto simp: drain_chunk_def split: StreamChunkType.split)

lemma drained_reasoning_ok [simp]: "reasoning_ok (dvReasoning (drained cs))"
  by (induction cs rule: rev_induct) (auto simp: drain_chunk_def split: StreamChunkType.split)

lemma drained_reasoning:
  "reasoning_so_far (dvReasoning (drained cs)) = concat (map scText (of_type ChunkReasoning cs))"
  by (induction cs rule: rev_induct) (auto simp: drain_chunk_def split: StreamChunkType.split)

lemma drained_calls: "drToolCalls (dvResult (drained cs)) = map chunk_tool_call (of_type ChunkToolCall cs)"
  by (induction cs rule: rev_induct) (auto simp: drain_chunk_def take_metadata_def split: StreamChunkType.split)

lemma drained_finish:
  "drUsage (dvResult (drained cs)) = last_or zero_Usage scUsage (filter finishing cs)"
  "drFinishReason (dvResult (drained cs)) = last_or FinishNone scFinishReason (filter finishing cs)"
  by (induction cs rule: rev_induct)
     (auto simp: drain_chunk_def take_metadata_def finishing_def split: StreamChunkType.split)

lemma drained_err: "drErr (dvResult (drained cs)) = last_or None scError (of_type ChunkError cs)"
  by (induction cs rule: rev_induct) (auto simp: drain_chunk_def take_metadata_def split: StreamChunkType.split)

lemma drained_content: "drContent (dvResult (drained cs)) = last_or None scContent (of_type ChunkFinish cs)"
  by (induction cs rule: rev_induct) (auto simp: drain_chunk_def take_metadata_def split: StreamChunkType.split)

definition source_of :: "StreamChunk \<Rightarrow> source list" where
  "source_of c = (case scType c of
      ChunkText \<Rightarrow> chunk_sources c | ChunkReasoning \<Rightarrow> chunk_sources c
    | ChunkStepFinish \<Rightarrow> metadata_sources c | ChunkFinish \<Rightarrow> metadata_sources c | _ \<Rightarrow> [])"

lemma drained_sources: "drSources (dvResult (drained cs)) = concat (map source_of cs)"
  by (induction cs rule: rev_induct)
     (auto simp: drain_chunk_def take_metadata_def source_of_def split: StreamChunkType.split)

lemma drained_response:
  "drResponse (dvResult (drained cs)) =
     last_or zero_Response (\<lambda>c. with_flat_metadata (scMetadata c) (scResponse c)) (filter finishing cs)"
  "drProviderMetadata (dvResult (drained cs)) = foldl (\<lambda>old c. metadata_providers c old) [] (filter finishing cs)"
  "drErrForwarded (dvResult (drained cs)) \<longleftrightarrow> of_type ChunkError cs \<noteq> []"
  by (induction cs rule: rev_induct)
     (auto simp: drain_chunk_def take_metadata_def finishing_def split: StreamChunkType.split)

lemma drain_finish_simps [simp]:
  "drText (drain_finish v) = dvText v" "drToolCalls (drain_finish v) = drToolCalls (dvResult v)"
  "drUsage (drain_finish v) = drUsage (dvResult v)" "drFinishReason (drain_finish v) = drFinishReason (dvResult v)"
  "drErr (drain_finish v) = drErr (dvResult v)" "drContent (drain_finish v) = drContent (dvResult v)"
  "drSources (drain_finish v) = drSources (dvResult v)" "drResponse (drain_finish v) = drResponse (dvResult v)"
  "drProviderMetadata (drain_finish v) = drProviderMetadata (dvResult v)"
  "drErrForwarded (drain_finish v) = drErrForwarded (dvResult v)"
  "reasoning_ok (dvReasoning v) \<Longrightarrow> drReasoningText (drain_finish v) = reasoning_so_far (dvReasoning v)"
  by (simp_all add: drain_finish_def Let_def finish_reasoning_text)

lemma drain_finish_parts: "reasoningText (drReasoning (drain_finish v)) = drReasoningText (drain_finish v)"
  by (simp add: drain_finish_def Let_def)

text \<open>
  C23: a step is drained without loss: while the consumer keeps receiving, \<open>drainStep\<close> returns the
  concatenated text and reasoning text of the stream (the latter also being the text of its reasoning
  parts), all its tool calls and all its sources in order, the usage, finish reason and response
  (with the flat metadata keys) of its last boundary chunk, the provider metadata of the last boundary
  that carries any, the content of its last final chunk, the last error and whether there was one; and it has
  forwarded every chunk except the final ones, in order.
\<close>

theorem drainStep_lossless:
  assumes "open_sink out" "drainStep cs out = (dr, out')"
  shows "drText dr = concat (map scText (of_type ChunkText cs)) \<and>
    drReasoningText dr = concat (map scText (of_type ChunkReasoning cs)) \<and>
    reasoningText (drReasoning dr) = drReasoningText dr \<and>
    drToolCalls dr = map chunk_tool_call (of_type ChunkToolCall cs) \<and>
    drSources dr = concat (map source_of cs) \<and>
    drUsage dr = last_or zero_Usage scUsage (filter finishing cs) \<and>
    drFinishReason dr = last_or FinishNone scFinishReason (filter finishing cs) \<and>
    drResponse dr =
      last_or zero_Response (\<lambda>c. with_flat_metadata (scMetadata c) (scResponse c)) (filter finishing cs) \<and>
    drProviderMetadata dr = foldl (\<lambda>old c. metadata_providers c old) [] (filter finishing cs) \<and>
    drContent dr = last_or None scContent (of_type ChunkFinish cs) \<and>
    drErr dr = last_or None scError (of_type ChunkError cs) \<and>
    (drErrForwarded dr \<longleftrightarrow> of_type ChunkError cs \<noteq> []) \<and>
    skSent out' = skSent out @ filter (\<lambda>c. scType c \<noteq> ChunkFinish) cs"
proof -
  have "dr = drain_finish (drained cs)"
    and "skSent out' = skSent out @ filter (\<lambda>c. scType c \<noteq> ChunkFinish) cs"
    using assms by (auto simp: drainStep_def drain_loop_open drained_def)
  then show ?thesis
    by (simp add: drained_text drained_reasoning drained_calls drained_sources drained_finish drained_err
        drained_content drained_response drain_finish_parts)
qed

definition new_sink :: sink where
  "new_sink = \<lparr>skReady = (\<lambda>_. True), skTried = 0, skSent = [], skCtxErr = ErrContextCanceled\<rparr>"

lemma open_new_sink [simp]: "open_sink new_sink"
  by (simp add: open_sink_def new_sink_def)

definition text_chunk :: "string \<Rightarrow> StreamChunk" where
  "text_chunk t = zero_Chunk\<lparr>scType := ChunkText, scText := t\<rparr>"

definition finish_chunk :: "FinishReason \<Rightarrow> StreamChunk" where
  "finish_chunk r = zero_Chunk\<lparr>scType := ChunkFinish, scFinishReason := r\<rparr>"

theorem drainStep_lossless_witness:
  "drText (fst (drainStep [text_chunk ''ab'', block_chunk ''0'' ''x'', text_chunk ''c'', finish_chunk FinishStop] new_sink)) = ''abc''"
  using drainStep_lossless [OF open_new_sink prod.collapse [symmetric],
      of "[text_chunk ''ab'', block_chunk ''0'' ''x'', text_chunk ''c'', finish_chunk FinishStop]"]
  by (simp add: text_chunk_def block_chunk_def finish_chunk_def zero_Chunk_def)

text \<open>When the consumer is gone the step is abandoned with the context's error.\<close>

lemma drain_loop_cases:
  "drain_loop cs out v = (dr, out') \<Longrightarrow> drErr dr = Some (skCtxErr out) \<or>
     skSent out' = skSent out @ filter (\<lambda>c. scType c \<noteq> ChunkFinish) cs"
proof (induction cs arbitrary: out v)
  case (Cons c cs)
  show ?case
  proof (cases "scType c = ChunkFinish")
    case True
    with Cons show ?thesis by simp
  next
    case False
    show ?thesis
    proof (cases "skReady out (skTried out)")
      case True
      with Cons.prems \<open>scType c \<noteq> ChunkFinish\<close> Cons.IH [of "snd (TrySend out c)" "drain_chunk v c"]
      show ?thesis by (simp add: TrySend_def)
    next
      case False
      with Cons.prems \<open>scType c \<noteq> ChunkFinish\<close> show ?thesis by (auto simp: TrySend_def)
    qed
  qed
qed simp

lemma drainStep_cancelled:
  "drainStep cs out = (dr, out') \<Longrightarrow> drErr dr = Some (skCtxErr out) \<or>
     skSent out' = skSent out @ filter (\<lambda>c. scType c \<noteq> ChunkFinish) cs"
  unfolding drainStep_def by (rule drain_loop_cases)

end
