(* ===== verification/Consume.thy ===== *)
theory Consume
  imports Drain
begin

text \<open>
  \<open>TextStream.consume\<close> and \<open>buildResult\<close>: the reader of a text stream, which rebuilds the result from
  the chunks, passes them on to the caller's channel and, in the single-shot case, fires the
  deferred callbacks. The caller keeps receiving as long as \<open>alive\<close> says so, check by check;
  after that the context is done.
\<close>

section \<open>State\<close>

record text_stream = world +
  tsText :: string
  tsToolCalls :: "ToolCall list"
  tsSources :: "source list"
  tsFinishReason :: FinishReason
  tsUsage :: Usage
  tsResponse :: ResponseMetadata
  tsProviderMetadata :: metamap
  tsStreamErr :: "go_error option"
  tsSteps :: "StepResult list"
  tsCurrentStep :: nat
  tsStepText :: string
  tsStepToolCalls :: "ToolCall list"
  tsStepSources :: "source list"
  tsReasoning :: reasoningAccumulator
  tsReasoningParts :: "Part list"
  tsContent :: "Part list option"
  tsResponseMessages :: "Message list option"
  tsStepsExhausted :: bool
  tsRawOut :: "StreamChunk list" \<comment> \<open>received through \<open>Stream()\<close>\<close>
  tsTextOut :: "string list" \<comment> \<open>received through \<open>TextStream()\<close>\<close>
  tsChecks :: nat

definition newTextStream :: "event list \<Rightarrow> text_stream" where
  "newTextStream h = \<lparr>hist = h, tsText = [], tsToolCalls = [], tsSources = [], tsFinishReason = FinishNone,
     tsUsage = zero_Usage, tsResponse = zero_Response, tsProviderMetadata = [], tsStreamErr = None,
     tsSteps = [], tsCurrentStep = 0, tsStepText = [], tsStepToolCalls = [], tsStepSources = [],
     tsReasoning = no_reasoning, tsReasoningParts = [], tsContent = None, tsResponseMessages = None,
     tsStepsExhausted = False, tsRawOut = [], tsTextOut = [], tsChecks = 0\<rparr>"

section \<open>The switch over the chunk types\<close>

definition pack_result :: "ToolResult \<Rightarrow> string \<times> string \<times> string \<times> go_error option \<times> bool" where
  "pack_result r = (trToolCallID r, trToolName r, trOutput r, trError r, trIsError r)"

fun unpack_result :: "string \<times> string \<times> string \<times> go_error option \<times> bool \<Rightarrow> ToolResult" where
  "unpack_result (i, n, out, e, b) =
     \<lparr>trToolCallID = i, trToolName = n, trOutput = out, trError = e, trIsError = b\<rparr>"

lemma unpack_pack_result [simp]: "unpack_result (pack_result r) = r"
  by (simp add: pack_result_def)

definition get_tool_results :: "anymap \<Rightarrow> string \<Rightarrow> ToolResult list option" where
  "get_tool_results m k =
     (case map_of m k of Some (AToolResults rs) \<Rightarrow> Some (map unpack_result rs) | _ \<Rightarrow> None)"

text \<open>The chunk by which the tool loop delivers tool results; it is not passed on.\<close>

definition results_chunk :: "StreamChunk \<Rightarrow> bool" where
  "results_chunk chunk \<longleftrightarrow> scType chunk = ChunkStepFinish \<and>
     get_str (scMetadata chunk) ''stepSource'' = Some ''goai-tool-results''"

definition goai_chunk :: "StreamChunk \<Rightarrow> bool" where
  "goai_chunk chunk \<longleftrightarrow> get_str (scMetadata chunk) ''stepSource'' = Some ''goai''"

definition backfill_results :: "text_stream \<Rightarrow> StreamChunk \<Rightarrow> text_stream" where
  "backfill_results ts chunk =
     (case get_tool_results (scMetadata chunk) ''toolResults'' of
        Some trs \<Rightarrow> if tsSteps ts \<noteq> []
          then ts\<lparr>tsSteps := butlast (tsSteps ts) @ [(last (tsSteps ts))\<lparr>srToolResults := trs\<rparr>]\<rparr> else ts
      | None \<Rightarrow> ts)"

definition add_sources :: "source list \<Rightarrow> text_stream \<Rightarrow> text_stream" where
  "add_sources ss ts = ts\<lparr>tsSources := tsSources ts @ ss, tsStepSources := tsStepSources ts @ ss\<rparr>"

definition goai_boundary :: "text_stream \<Rightarrow> StreamChunk \<Rightarrow> text_stream" where
  "goai_boundary ts chunk =
     (let (stepReasoning, reasoning) = finish_reasoning (tsReasoning ts);
          pm = metadata_providers chunk []
      in ts\<lparr>tsReasoning := reasoning,
            tsCurrentStep := Suc (tsCurrentStep ts),
            tsSteps := tsSteps ts @ [\<lparr>srContent = scContent chunk, srNumber = Suc (tsCurrentStep ts),
              srText = tsStepText ts, srReasoning = reasoningText stepReasoning,
              srToolCalls = tsStepToolCalls ts, srToolResults = [], srFinishReason = scFinishReason chunk,
              srUsage = scUsage chunk, srResponse = scResponse chunk, srProviderMetadata = pm,
              srSources = tsStepSources ts\<rparr>],
            tsUsage := addUsage (tsUsage ts) (scUsage chunk),
            tsFinishReason := scFinishReason chunk,
            tsResponse := scResponse chunk,
            tsProviderMetadata := pm,
            tsStepText := [], tsStepToolCalls := [], tsStepSources := []\<rparr>)"

definition provider_boundary :: "text_stream \<Rightarrow> StreamChunk \<Rightarrow> text_stream" where
  "provider_boundary ts chunk =
     add_sources (metadata_sources chunk)
       (ts\<lparr>tsReasoning := flush_reasoning (tsReasoning ts),
           tsFinishReason := scFinishReason chunk,
           tsResponse := with_flat_metadata (scMetadata chunk) (scResponse chunk),
           tsProviderMetadata := metadata_providers chunk (tsProviderMetadata ts)\<rparr>)"

definition final_chunk :: "text_stream \<Rightarrow> StreamChunk \<Rightarrow> text_stream" where
  "final_chunk ts chunk =
     (let response = (if rID (scResponse chunk) \<noteq> [] \<or> rModel (scResponse chunk) \<noteq> []
                      then scResponse chunk else tsResponse ts)
      in ts\<lparr>tsContent := (if scContent chunk \<noteq> None then scContent chunk else tsContent ts),
            tsUsage := scUsage chunk,
            tsFinishReason := scFinishReason chunk,
            tsSources := tsSources ts @ metadata_sources chunk,
            tsProviderMetadata := metadata_providers chunk (tsProviderMetadata ts),
            tsResponse := with_flat_metadata (scMetadata chunk) response\<rparr>)"

definition consume_chunk :: "text_stream \<Rightarrow> StreamChunk \<Rightarrow> text_stream" where
  "consume_chunk ts chunk =
     (case scType chunk of
        ChunkText \<Rightarrow>
          add_sources (chunk_sources chunk)
            (ts\<lparr>tsText := tsText ts @ scText chunk, tsStepText := tsStepText ts @ scText chunk\<rparr>)
      | ChunkReasoning \<Rightarrow>
          add_sources (chunk_sources chunk)
            (ts\<lparr>tsText := tsText ts @ scText chunk, tsReasoning := add_reasoning (tsReasoning ts) chunk\<rparr>)
      | ChunkToolCall \<Rightarrow>
          ts\<lparr>tsToolCalls := tsToolCalls ts @ [chunk_tool_call chunk],
             tsStepToolCalls := tsStepToolCalls ts @ [chunk_tool_call chunk]\<rparr>
      | ChunkStepFinish \<Rightarrow>
          if results_chunk chunk then backfill_results ts chunk
          else if goai_chunk chunk then goai_boundary ts chunk
          else provider_boundary ts chunk
      | ChunkFinish \<Rightarrow> final_chunk ts chunk
      | ChunkError \<Rightarrow> if tsStreamErr ts = None then ts\<lparr>tsStreamErr := scError chunk\<rparr> else ts
      | _ \<Rightarrow> ts)"

section \<open>Passing the chunks on\<close>

definition deliver_text :: "bool \<Rightarrow> (nat \<Rightarrow> bool) \<Rightarrow> StreamChunk \<Rightarrow> text_stream \<Rightarrow> bool \<times> text_stream" where
  "deliver_text textOut alive chunk ts =
     (if textOut \<and> scType chunk = ChunkText then
        if alive (tsChecks ts)
        then (True, ts\<lparr>tsTextOut := tsTextOut ts @ [scText chunk], tsChecks := Suc (tsChecks ts)\<rparr>)
        else (False, ts)
      else (True, ts))"

definition deliver :: "bool \<Rightarrow> bool \<Rightarrow> (nat \<Rightarrow> bool) \<Rightarrow> StreamChunk \<Rightarrow> text_stream \<Rightarrow> bool \<times> text_stream" where
  "deliver rawOut textOut alive chunk ts =
     (if rawOut then
        if alive (tsChecks ts)
        then deliver_text textOut alive chunk
               (ts\<lparr>tsRawOut := tsRawOut ts @ [chunk], tsChecks := Suc (tsChecks ts)\<rparr>)
        else (False, ts)
      else if textOut then deliver_text textOut alive chunk ts
      else (alive (tsChecks ts), ts\<lparr>tsChecks := Suc (tsChecks ts)\<rparr>))"

fun consume_loop :: "bool \<Rightarrow> bool \<Rightarrow> (nat \<Rightarrow> bool) \<Rightarrow> go_error \<Rightarrow> StreamChunk list \<Rightarrow> text_stream \<Rightarrow> text_stream" where
  "consume_loop rawOut textOut alive ctxErr [] ts =
     ts\<lparr>tsReasoningParts := fst (finish_reasoning (tsReasoning ts)),
        tsReasoning := snd (finish_reasoning (tsReasoning ts))\<rparr>"
| "consume_loop rawOut textOut alive ctxErr (chunk # source) ts =
     (if results_chunk chunk
      then consume_loop rawOut textOut alive ctxErr source (consume_chunk ts chunk)
      else case deliver rawOut textOut alive chunk (consume_chunk ts chunk) of
          (True, ts') \<Rightarrow> consume_loop rawOut textOut alive ctxErr source ts'
        | (False, ts') \<Rightarrow> ts'\<lparr>tsStreamErr := Some ctxErr\<rparr>)"

section \<open>The deferred callbacks\<close>

record stream_hooks =
  shOnResponse :: "(ResponseInfo, unit) hook list"
  shOnStepFinish :: "(StepResult, unit) hook list"
  shOnFinish :: "(FinishInfo, unit) hook list"
  shOnPanic :: nat
  shStateRef :: bool

type_synonym consume_stmt = "(text_stream, unit, unit) stmt"

definition error_status :: "go_error option \<Rightarrow> int" where
  "error_status err = (case err of None \<Rightarrow> 0
     | Some e \<Rightarrow> (case as_APIError e of Some a \<Rightarrow> StatusCode a | None \<Rightarrow> 0))"

definition deferred_response :: "stream_hooks \<Rightarrow> consume_stmt" where
  "deferred_response hs = reads_state (\<lambda>ts.
     let info = \<lparr>rsUsage = tsUsage ts, rsFinishReason = tsFinishReason ts, rsError = tsStreamErr ts,
                 rsStatusCode = error_status (tsStreamErr ts)\<rparr>
     in call_hooks (shOnPanic hs) ''OnResponse'' (EvResponse info) (shOnResponse hs) info)"

definition stream_step_result :: "text_stream \<Rightarrow> StepResult" where
  "stream_step_result ts = \<lparr>srContent = tsContent ts, srNumber = 1, srText = tsStepText ts, srReasoning = [],
     srToolCalls = tsToolCalls ts, srToolResults = [], srFinishReason = tsFinishReason ts,
     srUsage = tsUsage ts, srResponse = tsResponse ts, srProviderMetadata = tsProviderMetadata ts,
     srSources = tsSources ts\<rparr>"

definition deferred_step_finish :: "stream_hooks \<Rightarrow> consume_stmt" where
  "deferred_step_finish hs = reads_state (\<lambda>ts.
     call_hooks (shOnPanic hs) ''OnStepFinish'' (EvStepFinish (stream_step_result ts)) (shOnStepFinish hs)
       (stream_step_result ts))"

definition deferred_finish :: "stream_hooks \<Rightarrow> consume_stmt" where
  "deferred_finish hs = reads_state (\<lambda>ts.
     let info = \<lparr>fiStepsExhausted = False, fiTotalSteps = 1, fiTotalUsage = tsUsage ts,
                 fiFinishReason = tsFinishReason ts, fiStoppedBy = StopCauseNatural\<rparr>
     in call_hooks (shOnPanic hs) ''OnFinish'' (EvFinish info) (shOnFinish hs) info)"

definition set_stream_err :: "go_error \<Rightarrow> text_stream \<Rightarrow> text_stream" where
  "set_stream_err e ts = (if tsStreamErr ts = None then ts\<lparr>tsStreamErr := Some e\<rparr> else ts)"

definition publish_stream_idle :: "stream_hooks \<Rightarrow> text_stream \<Rightarrow> text_stream" where
  "publish_stream_idle hs ts = (if shStateRef hs then ts\<lparr>hist := hist ts @ [EvState StepIdle 1]\<rparr> else ts)"

definition consume :: "stream_hooks \<Rightarrow> bool \<Rightarrow> bool \<Rightarrow> (nat \<Rightarrow> bool) \<Rightarrow> go_error \<Rightarrow> StreamChunk list \<Rightarrow> consume_stmt" where
  "consume hs rawOut textOut alive ctxErr source =
     recoverToStreamErr (shOnPanic hs) ''stream'' set_stream_err
       (finally_do
          (deferring (deferring (deferring
             (modify (consume_loop rawOut textOut alive ctxErr source))
             (deferred_response hs)) (deferred_step_finish hs)) (deferred_finish hs))
          (publish_stream_idle hs))"

section \<open>The result\<close>

definition stream_steps :: "text_stream \<Rightarrow> StepResult list" where
  "stream_steps ts =
     (if tsSteps ts \<noteq> [] then tsSteps ts
      else if tsText ts \<noteq> [] \<or> tsToolCalls ts \<noteq> [] \<or> tsFinishReason ts \<noteq> FinishNone
      then [(stream_step_result ts)\<lparr>srReasoning := reasoningText (tsReasoningParts ts)\<rparr>]
      else [])"

definition buildResult :: "text_stream \<Rightarrow> TextResult" where
  "buildResult ts =
     (let calls = (if tsSteps ts \<noteq> [] then srToolCalls (last (tsSteps ts)) else tsToolCalls ts) in
      \<lparr>txText = tsText ts,
       txReasoning = concat (map srReasoning (stream_steps ts)),
       txToolCalls = calls,
       txSteps = stream_steps ts,
       txTotalUsage = tsUsage ts,
       txFinishReason = tsFinishReason ts,
       txResponse = tsResponse ts,
       txProviderMetadata = tsProviderMetadata ts,
       txSources = tsSources ts,
       txStepsExhausted = tsStepsExhausted ts,
       txResponseMessages =
         (case tsResponseMessages ts of
            Some msgs \<Rightarrow> msgs
          | None \<Rightarrow>
              if tsText ts \<noteq> [] \<or> calls \<noteq> [] \<or> (tsContent ts \<noteq> None \<and> tsContent ts \<noteq> Some []) \<or>
                 tsReasoningParts ts \<noteq> []
              then buildFinalAssistantMessages (tsStepText ts) calls (tsReasoningParts ts) (tsContent ts)
              else [])\<rparr>)"

end
