(* ===== verification/StreamLoop.thy ===== *)
theory StreamLoop
  imports ToolLoop Consume
begin

text \<open>
  Streaming generation, \<open>StreamText\<close> and \<open>streamWithToolLoop\<close> of \<open>src/generate.go\<close>. The loop runs in a
  goroutine of its own that drains each step's stream into the channel the reader consumes; what the
  reader does is \<^const>\<open>consume\<close>. The goroutine is run to its end first and the reader on the chunks
  it sent afterwards: the reader of a multi-step stream fires no callback, and how far it keeps
  up is the \<open>skReady\<close> of the channel.
\<close>

section \<open>State\<close>

record stream_env =
  seModel :: "(GenerateParams, StreamChunk list option \<times> go_error option) hook option"
  seRetry :: retry_env
  seSchedule :: "event list \<Rightarrow> nat list"
  seContext :: go_context
  seUnmarshal :: "string \<Rightarrow> any option"
  seReady :: "nat \<Rightarrow> bool"
  seCtxErr :: go_error

record stream_run = text_run +
  lLastFinishReason :: FinishReason
  lLastResponse :: ResponseMetadata
  lLastContent :: "Part list option"
  lOut :: sink
  lResponseMessages :: "Message list option"
  lStepsExhausted :: bool

type_synonym 'a stream_stmt = "(stream_run, unit, 'a) stmt"

definition send :: "StreamChunk \<Rightarrow> ('z stream_run_scheme, 'r, unit) stmt" where
  "send chunk = modify (\<lambda>s. s\<lparr>lOut := snd (TrySend (lOut s) chunk)\<rparr>)"

definition error_chunk :: "go_error \<Rightarrow> StreamChunk" where
  "error_chunk e = zero_Chunk\<lparr>scType := ChunkError, scError := Some e\<rparr>"

definition abort_chunk :: "FinishReason \<Rightarrow> Usage \<Rightarrow> StreamChunk" where
  "abort_chunk reason usage = zero_Chunk\<lparr>scType := ChunkFinish, scFinishReason := reason, scUsage := usage,
     scStoppedBy := StopCauseAbort\<rparr>"

section \<open>Opening a step's stream\<close>

definition open_stream :: "'z gen_options_scheme \<Rightarrow> stream_env \<Rightarrow>
    (GenerateParams, StreamChunk list option \<times> go_error option) hook \<Rightarrow>
    ('s text_run_scheme, 'r, StreamChunk list option \<times> go_error option) stmt" where
  "open_stream opts env model =
     withRetry (seRetry env) (oMaxRetries opts) (oRetryObserver opts) None
       (reads_state (\<lambda>s. invoke (EvGenerate (rParams s)) model (rParams s)))"

definition failed_response :: "'z gen_options_scheme \<Rightarrow> go_error \<Rightarrow> ('s world_scheme, 'r, unit) stmt" where
  "failed_response opts err =
     (let info = \<lparr>rsUsage = zero_Usage, rsFinishReason = FinishNone, rsError = Some err,
                  rsStatusCode = error_status (Some err)\<rparr>
      in call_hooks (oOnPanic opts) ''OnResponse'' (EvResponse info) (oOnResponse opts) info)"

definition last_finish :: "StepResult list \<Rightarrow> FinishReason" where
  "last_finish steps = (if steps = [] then FinishNone else srFinishReason (last steps))"

definition fire_abort :: "'z gen_options_scheme \<Rightarrow> ('s text_run_scheme, 'r, unit) stmt" where
  "fire_abort opts = reads_state (\<lambda>s. fireOnFinish opts
     \<lparr>fiStepsExhausted = False, fiTotalSteps = length (rSteps s), fiTotalUsage = rTotalUsage s,
      fiFinishReason = last_finish (rSteps s), fiStoppedBy = StopCauseAbort\<rparr>)"

definition open_failed :: "'z gen_options_scheme \<Rightarrow> go_error \<Rightarrow> 'a stream_stmt" where
  "open_failed opts err =
     andThen (failed_response opts err) (\<lambda>_.
     andThen (send (error_chunk err)) (\<lambda>_.
     andThen (reads_state (\<lambda>s. send (abort_chunk (lLastFinishReason s) (rTotalUsage s)))) (\<lambda>_.
     andThen (fire_abort opts) (\<lambda>_. return_early ()))))"

text \<open>Steps 2 and later: \<open>None\<close> when \<open>OnBeforeStep\<close> stopped the loop, else the opened stream.\<close>

definition next_stream :: "'z gen_options_scheme \<Rightarrow> stream_env \<Rightarrow>
    (GenerateParams, StreamChunk list option \<times> go_error option) hook \<Rightarrow> nat \<Rightarrow>
    StreamChunk list option option stream_stmt" where
  "next_stream opts env model step =
     andThen (before_step opts step) (\<lambda>stop.
       if stop then pure None
       else andThen (request_hooks opts) (\<lambda>_.
            andThen (announce (oStateRef opts) StepLLMInFlight step) (\<lambda>_.
            andThen (modify (rInflight_update (\<lambda>_. step))) (\<lambda>_.
            andThen (open_stream opts env model) (\<lambda>(result, err).
              case err of Some e \<Rightarrow> open_failed opts e | None \<Rightarrow> pure (Some result))))))"

definition first_stream :: "StreamChunk list option \<Rightarrow> nat \<Rightarrow> StreamChunk list option option stream_stmt" where
  "first_stream firstResult step =
     andThen (modify (rInflight_update (\<lambda>_. step))) (\<lambda>_. pure (Some firstResult))"

section \<open>A drained step\<close>

definition drain_failed :: "'z gen_options_scheme \<Rightarrow> drainResult \<Rightarrow> go_error \<Rightarrow> 'a stream_stmt" where
  "drain_failed opts ds err =
     andThen (if drErrForwarded ds then pure () else send (error_chunk err)) (\<lambda>_.
     andThen (reads_state (\<lambda>s. send (abort_chunk FinishNone (rTotalUsage s)))) (\<lambda>_.
     andThen (fire_abort opts) (\<lambda>_. return_early ())))"

definition drained_step_result :: "nat \<Rightarrow> drainResult \<Rightarrow> StepResult" where
  "drained_step_result step ds = \<lparr>srContent = drContent ds, srNumber = step, srText = drText ds,
     srReasoning = drReasoningText ds, srToolCalls = drToolCalls ds, srToolResults = [],
     srFinishReason = drFinishReason ds, srUsage = drUsage ds, srResponse = drResponse ds,
     srProviderMetadata = drProviderMetadata ds, srSources = drSources ds\<rparr>"

definition succeeded_response :: "'z gen_options_scheme \<Rightarrow> drainResult \<Rightarrow> ('s world_scheme, 'r, unit) stmt" where
  "succeeded_response opts ds =
     (let info = \<lparr>rsUsage = drUsage ds, rsFinishReason = drFinishReason ds, rsError = None, rsStatusCode = 0\<rparr>
      in call_hooks (oOnPanic opts) ''OnResponse'' (EvResponse info) (oOnResponse opts) info)"

definition record_drained :: "nat \<Rightarrow> drainResult \<Rightarrow> stream_run \<Rightarrow> stream_run" where
  "record_drained step ds s =
     s\<lparr>rSteps := rSteps s @ [drained_step_result step ds],
       rTotalUsage := addUsage (rTotalUsage s) (drUsage ds),
       lLastResponse := drResponse ds, lLastContent := drContent ds, rLastReasoning := drReasoning ds,
       rParams := setPreviousResponseID (rParams s) (drResponse ds)\<rparr>"

text \<open>The finish reason with the tool calls taken as authoritative.\<close>

definition normal_finish :: "ToolCall list \<Rightarrow> FinishReason \<Rightarrow> FinishReason" where
  "normal_finish calls reason = (if calls \<noteq> [] \<and> reason \<noteq> FinishToolCalls then FinishToolCalls else reason)"

definition step_chunk :: "drainResult \<Rightarrow> StreamChunk" where
  "step_chunk ds = zero_Chunk\<lparr>scType := ChunkStepFinish, scContent := drContent ds,
     scFinishReason := normal_finish (drToolCalls ds) (drFinishReason ds), scUsage := drUsage ds,
     scResponse := drResponse ds,
     scMetadata := [(''stepSource'', AStr ''goai''), (''providerMetadata'', AMetaMap (drProviderMetadata ds))]\<rparr>"

definition emit_step :: "'z gen_options_scheme \<Rightarrow> nat \<Rightarrow> drainResult \<Rightarrow> unit stream_stmt" where
  "emit_step opts step ds =
     andThen (succeeded_response opts ds) (\<lambda>_.
     andThen (modify (record_drained step ds)) (\<lambda>_.
     andThen (announce (oStateRef opts) StepStepFinished step) (\<lambda>_.
     andThen (call_hooks (oOnPanic opts) ''OnStepFinish'' (EvStepFinish (drained_step_result step ds))
                (oOnStepFinish opts) (drained_step_result step ds)) (\<lambda>_.
     andThen (modify (lLastFinishReason_update (\<lambda>_. normal_finish (drToolCalls ds) (drFinishReason ds)))) (\<lambda>_.
       send (step_chunk ds))))))"

definition stream_settled :: "GenerateParams \<Rightarrow> toolmap \<Rightarrow> drainResult \<Rightarrow> bool" where
  "stream_settled params toolMap ds \<longleftrightarrow>
     normal_finish (drToolCalls ds) (drFinishReason ds) \<noteq> FinishToolCalls \<or>
     (drToolCalls ds = [] \<and> \<not> hasProviderDefinedTools (gpTools params)) \<or>
     (drToolCalls ds \<noteq> [] \<and> toolMap = [])"

definition results_of :: "ToolResult list \<Rightarrow> StreamChunk" where
  "results_of results = zero_Chunk\<lparr>scType := ChunkStepFinish,
     scMetadata := [(''stepSource'', AStr ''goai-tool-results''),
                    (''toolResults'', AToolResults (map pack_result results))]\<rparr>"

definition stream_tools :: "'z gen_options_scheme \<Rightarrow> stream_env \<Rightarrow> toolmap \<Rightarrow> nat \<Rightarrow> drainResult \<Rightarrow>
    Message list stream_stmt" where
  "stream_tools opts env toolMap step ds =
     (if drToolCalls ds = [] then pure []
      else andThen (announce (oStateRef opts) StepToolExecuting step) (\<lambda>_. reads_state (\<lambda>s.
        case executeToolsParallel (seUnmarshal env) (seSchedule env (hist s)) (seContext env)
               (drToolCalls ds) toolMap step (tool_hooks opts) (hist s) of
          ((msgs, results), h) \<Rightarrow>
            andThen (modify (\<lambda>s. s\<lparr>hist := h, rSteps := set_last_results results (rSteps s)\<rparr>)) (\<lambda>_.
            andThen (send (results_of results)) (\<lambda>_. pure msgs)))))"

definition fold_drained :: "drainResult \<Rightarrow> Message list \<Rightarrow> stream_run \<Rightarrow> stream_run" where
  "fold_drained ds toolMsgs s =
     s\<lparr>rParams := (rParams s)\<lparr>gpMessages := appendToolRoundTrip (gpMessages (rParams s)) (drText ds)
         (drReasoning ds) (drToolCalls ds) toolMsgs (drContent ds), gpToolChoice := []\<rparr>\<rparr>"

definition continue_stream :: "'z gen_options_scheme \<Rightarrow> stream_env \<Rightarrow> toolmap \<Rightarrow> nat \<Rightarrow> drainResult \<Rightarrow>
    (bool \<times> StopCause) option stream_stmt" where
  "continue_stream opts env toolMap step ds =
     andThen (stream_tools opts env toolMap step ds) (\<lambda>toolMsgs.
     andThen (modify (fold_drained ds toolMsgs)) (\<lambda>_.
     andThen (stop_when opts) (\<lambda>stopped.
       pure (if stopped then Some (True, StopCausePredicate) else None))))"

text \<open>
  What follows the drain of a step. A \<open>break\<close> is \<open>Some\<close> of the values of \<open>hookStopped\<close> and
  \<open>stopCause\<close>.
\<close>

definition drained_step :: "'z gen_options_scheme \<Rightarrow> stream_env \<Rightarrow> toolmap \<Rightarrow> nat \<Rightarrow> drainResult \<Rightarrow>
    (bool \<times> StopCause) option stream_stmt" where
  "drained_step opts env toolMap step ds =
     (case drErr ds of
        Some err \<Rightarrow> drain_failed opts ds err
      | None \<Rightarrow>
          if drText ds = [] \<and> drToolCalls ds = [] \<and> drFinishReason ds = FinishNone
          then pure (Some (False, StopCauseEmpty))
          else andThen (emit_step opts step ds) (\<lambda>_. reads_state (\<lambda>s.
            if stream_settled (rParams s) toolMap ds then pure (Some (False, StopCauseNatural))
            else continue_stream opts env toolMap step ds)))"

definition stream_body :: "'z gen_options_scheme \<Rightarrow> stream_env \<Rightarrow> toolmap \<Rightarrow> nat \<Rightarrow> StreamChunk list option option \<Rightarrow>
    (bool \<times> StopCause) option stream_stmt" where
  "stream_body opts env toolMap step opened =
     (case opened of
        None \<Rightarrow> pure (Some (True, StopCauseBeforeStep))
      | Some None \<Rightarrow> go_panics nil_dereference
      | Some (Some source) \<Rightarrow>
          andThen (reads_state (\<lambda>s. case drainStep source (lOut s) of
                     (ds, out) \<Rightarrow> andThen (modify (lOut_update (\<lambda>_. out))) (\<lambda>_. pure ds)))
            (drained_step opts env toolMap step))"

primrec stream_loop :: "'z gen_options_scheme \<Rightarrow> stream_env \<Rightarrow>
    (GenerateParams, StreamChunk list option \<times> go_error option) hook \<Rightarrow> toolmap \<Rightarrow>
    StreamChunk list option \<Rightarrow> nat \<Rightarrow> nat \<Rightarrow> (bool \<times> StopCause) option stream_stmt" where
  "stream_loop opts env model toolMap firstResult 0 step = pure None"
| "stream_loop opts env model toolMap firstResult (Suc left) step =
     andThen (andThen (if step = 1 then first_stream firstResult step else next_stream opts env model step)
                (stream_body opts env toolMap step)) (\<lambda>c. case c of
         Some broke \<Rightarrow> pure (Some broke)
       | None \<Rightarrow> stream_loop opts env model toolMap firstResult left (Suc step))"

definition finish_stream :: "'z gen_options_scheme \<Rightarrow> nat \<Rightarrow> (bool \<times> StopCause) option \<Rightarrow> unit stream_stmt" where
  "finish_stream opts originalLen broke = reads_state (\<lambda>s.
     let (hookStopped, current) = (case broke of Some c \<Rightarrow> c | None \<Rightarrow> (False, StopCauseUnset));
         (cause, exhausted) = finalizeStopCause hookStopped current (rSteps s) (oMaxSteps opts);
         msgs = buildResponseMessages (drop originalLen (gpMessages (rParams s))) (rSteps s) (rLastReasoning s)
     in andThen (modify (\<lambda>s. s\<lparr>lStepsExhausted := exhausted,
            lResponseMessages := (if msgs = [] then None else Some msgs)\<rparr>)) (\<lambda>_.
        andThen (fireOnFinish opts
          \<lparr>fiStepsExhausted = exhausted, fiTotalSteps = length (rSteps s), fiTotalUsage = rTotalUsage s,
           fiFinishReason = lLastFinishReason s, fiStoppedBy = cause\<rparr>) (\<lambda>_.
        send (zero_Chunk\<lparr>scType := ChunkFinish, scContent := lLastContent s,
          scFinishReason := lLastFinishReason s, scUsage := rTotalUsage s, scResponse := lLastResponse s,
          scStoppedBy := cause\<rparr>))))"

definition publish_loop_idle :: "bool \<Rightarrow> stream_run \<Rightarrow> stream_run" where
  "publish_loop_idle ref s =
     (if ref then s\<lparr>hist := hist s @ [EvState StepIdle (max (length (rSteps s)) (rInflight s))]\<rparr> else s)"

text \<open>The deferred recovery of the goroutine: an error chunk and a final chunk.\<close>

definition stream_recover :: "nat \<Rightarrow> go_panic \<Rightarrow> unit stream_stmt" where
  "stream_recover n r =
     andThen (case asPanicError r of Some pe \<Rightarrow> pure pe | None \<Rightarrow> newPanicError n ''stream'' r) (\<lambda>pe.
     andThen (send (error_chunk pe)) (\<lambda>_. send (abort_chunk FinishNone zero_Usage)))"

text \<open>The goroutine of \<open>streamWithToolLoop\<close>.\<close>

definition stream_goroutine :: "'z gen_options_scheme \<Rightarrow> stream_env \<Rightarrow>
    (GenerateParams, StreamChunk list option \<times> go_error option) hook \<Rightarrow> toolmap \<Rightarrow>
    StreamChunk list option \<Rightarrow> nat \<Rightarrow> unit stream_stmt" where
  "stream_goroutine opts env model toolMap firstResult originalLen =
     recovering
       (finally_do
          (andThen (modify (rInflight_update (\<lambda>_. 1))) (\<lambda>_.
           andThen (stream_loop opts env model toolMap firstResult (nat (oMaxSteps opts)) 1)
             (finish_stream opts originalLen)))
          (publish_loop_idle (oStateRef opts)))
       (stream_recover (oOnPanic opts))"

section \<open>StreamText\<close>

text \<open>A \<open>TextStream\<close> before it is read: its source, its callbacks and what the loop left in it.\<close>

record stream_handle =
  thSource :: "StreamChunk list"
  thHooks :: stream_hooks
  thResponseMessages :: "Message list option"
  thStepsExhausted :: bool

type_synonym 'a start_stmt = "(stream_run, go_error + stream_handle, 'a) stmt"

definition start_failed :: "'z gen_options_scheme \<Rightarrow> go_error \<Rightarrow> 'a start_stmt" where
  "start_failed opts err =
     andThen (announce (oStateRef opts) StepIdle 1) (\<lambda>_.
     andThen (failed_response opts err) (\<lambda>_. return_early (Inl err)))"

text \<open>The synchronous first request of both paths.\<close>

definition first_request :: "'z gen_options_scheme \<Rightarrow> stream_env \<Rightarrow>
    (GenerateParams, StreamChunk list option \<times> go_error option) hook \<Rightarrow> StreamChunk list option start_stmt" where
  "first_request opts env model =
     andThen (modify (rParams_update (\<lambda>_. buildParams opts))) (\<lambda>_.
     andThen (announce (oStateRef opts) StepStarting 0) (\<lambda>_.
     andThen (announce (oStateRef opts) StepLLMInFlight 1) (\<lambda>_.
     andThen (request_hooks opts) (\<lambda>_.
     andThen (open_stream opts env model) (\<lambda>(result, err).
       case err of Some e \<Rightarrow> start_failed opts e | None \<Rightarrow> pure result)))))"

definition no_stream_hooks :: stream_hooks where
  "no_stream_hooks = \<lparr>shOnResponse = [], shOnStepFinish = [], shOnFinish = [], shOnPanic = 0, shStateRef = False\<rparr>"

definition streamWithToolLoop :: "'z gen_options_scheme \<Rightarrow> stream_env \<Rightarrow>
    (GenerateParams, StreamChunk list option \<times> go_error option) hook \<Rightarrow> toolmap \<Rightarrow> unit start_stmt" where
  "streamWithToolLoop opts env model toolMap =
     recoverToError (oOnPanic opts)
       (andThen (first_request opts env model) (\<lambda>firstResult.
        andThen (modify (\<lambda>s. snd (stream_goroutine opts env model toolMap firstResult
                                    (length (gpMessages (buildParams opts))) s))) (\<lambda>_.
        reads_state (\<lambda>s. return_early (Inr \<lparr>thSource = skSent (lOut s), thHooks = no_stream_hooks,
          thResponseMessages = lResponseMessages s, thStepsExhausted = lStepsExhausted s\<rparr>)))))"

definition single_shot :: "'z gen_options_scheme \<Rightarrow> stream_env \<Rightarrow>
    (GenerateParams, StreamChunk list option \<times> go_error option) hook \<Rightarrow> unit start_stmt" where
  "single_shot opts env model =
     andThen (first_request opts env model) (\<lambda>result.
       case result of
         None \<Rightarrow> go_panics nil_dereference
       | Some source \<Rightarrow> return_early (Inr \<lparr>thSource = source,
           thHooks = \<lparr>shOnResponse = oOnResponse opts, shOnStepFinish = oOnStepFinish opts,
             shOnFinish = oOnFinish opts, shOnPanic = oOnPanic opts, shStateRef = oStateRef opts\<rparr>,
           thResponseMessages = None, thStepsExhausted = False\<rparr>))"

definition refuse_stream :: "'z gen_options_scheme \<Rightarrow> go_error \<Rightarrow> 'a start_stmt" where
  "refuse_stream opts err =
     andThen (announce (oStateRef opts) StepStarting 0) (\<lambda>_.
     andThen (announce (oStateRef opts) StepIdle 0) (\<lambda>_. return_early (Inl err)))"

definition StreamText_stmt :: "'z gen_options_scheme \<Rightarrow> stream_env \<Rightarrow> unit start_stmt" where
  "StreamText_stmt opts env =
     recoverToError (oOnPanic opts)
       (case seModel env of
          None \<Rightarrow> refuse_stream opts (ErrMsg ''goai: model must not be nil'')
        | Some model \<Rightarrow>
            if oPrompt opts = [] \<and> oMessages opts = []
            then refuse_stream opts (ErrMsg ''goai: prompt or messages must not be empty'')
            else case buildToolMap (oTools opts) of
                Inl err \<Rightarrow> refuse_stream opts err
              | Inr toolMap \<Rightarrow>
                  if 1 < oMaxSteps opts \<and>
                     (toolMap \<noteq> [] \<or> hasProviderDefinedTools (ToolDefinitions (oTools opts)))
                  then streamWithToolLoop opts env model toolMap
                  else single_shot opts env model)"

definition start_stream :: "stream_env \<Rightarrow> stream_run" where
  "start_stream env = \<lparr>hist = [], rParams = zero_Params, rSteps = [], rTotalUsage = zero_Usage,
     rLastReasoning = [], rInflight = 0, lLastFinishReason = FinishNone, lLastResponse = zero_Response,
     lLastContent = None,
     lOut = \<lparr>skReady = seReady env, skTried = 0, skSent = [], skCtxErr = seCtxErr env\<rparr>,
     lResponseMessages = None, lStepsExhausted = False\<rparr>"

definition StreamText :: "'z gen_options_scheme \<Rightarrow> stream_env \<Rightarrow> (go_error + stream_handle) \<times> event list" where
  "StreamText opts env =
     (case StreamText_stmt opts env (start_stream env) of
        (Returns r, s) \<Rightarrow> (r, hist s)
      | (Value _, s) \<Rightarrow> (Inl (ErrMsg []), hist s)
      | (Panics _, s) \<Rightarrow> (Inl (ErrMsg []), hist s))"

text \<open>Reading a stream to its end: the reader's state, from which \<open>Result\<close> and \<open>Err\<close> answer.\<close>

definition read_stream :: "stream_handle \<Rightarrow> bool \<Rightarrow> bool \<Rightarrow> (nat \<Rightarrow> bool) \<Rightarrow> go_error \<Rightarrow> event list \<Rightarrow> text_stream" where
  "read_stream th rawOut textOut alive ctxErr h =
     (snd (consume (thHooks th) rawOut textOut alive ctxErr (thSource th) (newTextStream h)))
       \<lparr>tsResponseMessages := thResponseMessages th, tsStepsExhausted := thStepsExhausted th\<rparr>"

definition Result :: "stream_handle \<Rightarrow> (nat \<Rightarrow> bool) \<Rightarrow> go_error \<Rightarrow> event list \<Rightarrow> TextResult" where
  "Result th alive ctxErr h = buildResult (read_stream th False False alive ctxErr h)"

definition Err :: "stream_handle \<Rightarrow> (nat \<Rightarrow> bool) \<Rightarrow> go_error \<Rightarrow> event list \<Rightarrow> go_error option" where
  "Err th alive ctxErr h = tsStreamErr (read_stream th False False alive ctxErr h)"

end
