(* ===== verification/ConsumeFacts.thy ===== *)
theory ConsumeFacts
  imports Consume
begin

text \<open>
  Properties of the stream reader: it always terminates with every deferred callback fired, and the
  steps it rebuilds from forwarded chunks are the steps that were drained.
\<close>

section \<open>The deferred callbacks\<close>

definition hook_events :: "bool \<Rightarrow> event \<Rightarrow> event list \<Rightarrow> bool" where
  "hook_events some ev evs \<longleftrightarrow> (some \<longrightarrow> ev \<in> set evs) \<and> (\<forall>e\<in>set evs. e = ev \<or> (\<exists>p v. e = EvPanic p v))"

lemma panic_events_only: "e \<in> set (panic_events n p v) \<Longrightarrow> \<exists>p v. e = EvPanic p v"
  by (auto simp: panic_events_def split: option.splits)

lemma hook_events_append: "hook_events b ev xs \<Longrightarrow> hook_events False ev ys \<Longrightarrow> hook_events b ev (xs @ ys)"
  by (auto simp: hook_events_def)

lemma hook_events_hook: "hook_events True ev (ev # panic_events n p v)" "hook_events True ev [ev]"
  by (auto simp: hook_events_def dest: panic_events_only)

lemma hook_events_weaken: "hook_events True ev xs \<Longrightarrow> hook_events b ev xs"
  by (auto simp: hook_events_def)

definition settled_panic :: "go_panic \<Rightarrow> bool" where
  "settled_panic p \<longleftrightarrow> asPanicError p \<noteq> None"

lemma wp_call_hooks:
  fixes s :: "'z world_scheme"
  shows "wp (call_hooks n phase ev fs i :: ('z world_scheme, 'r, unit) stmt)
     (\<lambda>_ s'. \<exists>evs. s' = s\<lparr>hist := hist s @ evs\<rparr> \<and> hook_events (fs \<noteq> []) ev evs)
     (\<lambda>p s'. settled_panic p \<and> (\<exists>evs. s' = s\<lparr>hist := hist s @ evs\<rparr> \<and> hook_events (fs \<noteq> []) ev evs))
     (\<lambda>_ _. False) s"
  unfolding call_hooks_def
proof (rule wp_for_each [where I = "\<lambda>ys s'. \<exists>evs. s' = s\<lparr>hist := hist s @ evs\<rparr> \<and> hook_events (ys \<noteq> []) ev evs"], goal_cases)
  case 1
  show ?case by (rule exI [of _ "[]"]) (simp add: hook_events_def)
next
  case (2 ys f zs s')
  then obtain evs where evs: "s' = s\<lparr>hist := hist s @ evs\<rparr>" "hook_events (ys \<noteq> []) ev evs" by blast
  have fs: "fs \<noteq> []" using 2(1) by simp
  have app: "hook_events True ev (evs @ ev # panic_events n phase p)" "hook_events True ev (evs @ [ev])" for p
    using evs(2) by (auto simp: hook_events_def dest: panic_events_only)
  show ?case
  proof (cases "f (hist s @ evs @ [ev]) i")
    case (Inl p)
    then show ?thesis using evs(1) fs app(1) [of p]
      by (auto simp: settled_panic_def intro!: exI [of _ "evs @ ev # panic_events n phase p"])
  next
    case (Inr x)
    then show ?thesis using evs(1) app(2) by (auto intro!: exI [of _ "evs @ [ev]"])
  qed
next
  case (3 s')
  then show ?case by blast
qed

lemma call_hooks_end:
  fixes m :: "('z world_scheme, 'r, unit) stmt"
  assumes "m = call_hooks n phase ev fs i"
  shows "\<exists>r evs. m s = (r, s\<lparr>hist := hist s @ evs\<rparr>) \<and> hook_events (fs \<noteq> []) ev evs \<and>
    (r = Value () \<or> (\<exists>p. r = Panics p \<and> settled_panic p))"
proof -
  obtain r s' where r: "m s = (r, s')" by fastforce
  show ?thesis
    using wp_call_hooks [where 'r = 'r and 'z = 'z, of n phase ev fs i s] r assms
    by (cases r) (auto simp: wp_def)
qed

text \<open>A statement that only adds events and ends normally or in an already reported panic.\<close>

definition adds_events :: "('z world_scheme, unit, unit) stmt \<Rightarrow> 'z world_scheme \<Rightarrow> (event list \<Rightarrow> bool) \<Rightarrow> bool" where
  "adds_events m s P \<longleftrightarrow> (\<exists>r evs. m s = (r, s\<lparr>hist := hist s @ evs\<rparr>) \<and>
     (r = Value () \<or> (\<exists>p. r = Panics p \<and> settled_panic p)) \<and> P evs)"

lemma adds_events_pure: "adds_events (\<lambda>s. (Value (), s)) s (\<lambda>evs. evs = [])"
  by (simp add: adds_events_def)

lemma adds_events_deferring:
  assumes "adds_events m s P"
    and "\<And>h. d (s\<lparr>hist := h\<rparr>) = call_hooks n phase ev fs i (s\<lparr>hist := h\<rparr>)"
  shows "adds_events (deferring m d) s (\<lambda>evs. \<exists>a b. evs = a @ b \<and> P a \<and> hook_events (fs \<noteq> []) ev b)"
proof -
  obtain r a where m: "m s = (r, s\<lparr>hist := hist s @ a\<rparr>)"
    and r: "r = Value () \<or> (\<exists>p. r = Panics p \<and> settled_panic p)" and a: "P a"
    using assms(1) by (auto simp: adds_events_def)
  obtain q b where "d (s\<lparr>hist := hist s @ a\<rparr>) = (q, s\<lparr>hist := (hist s @ a) @ b\<rparr>)"
    and "q = Value () \<or> (\<exists>p. q = Panics p \<and> settled_panic p)" "hook_events (fs \<noteq> []) ev b"
    using call_hooks_end [OF refl, of n phase ev fs i "s\<lparr>hist := hist s @ a\<rparr>"] assms(2) by auto
  with m r obtain t where "deferring m d s = (t, s\<lparr>hist := hist s @ (a @ b)\<rparr>)"
      "t = Value () \<or> (\<exists>p. t = Panics p \<and> settled_panic p)"
    by (auto simp: deferring_def)
  with a \<open>hook_events (fs \<noteq> []) ev b\<close> show ?thesis unfolding adds_events_def by blast
qed

definition response_info :: "text_stream \<Rightarrow> ResponseInfo" where
  "response_info ts = \<lparr>rsUsage = tsUsage ts, rsFinishReason = tsFinishReason ts, rsError = tsStreamErr ts,
     rsStatusCode = error_status (tsStreamErr ts)\<rparr>"

definition finish_info :: "text_stream \<Rightarrow> FinishInfo" where
  "finish_info ts = \<lparr>fiStepsExhausted = False, fiTotalSteps = 1, fiTotalUsage = tsUsage ts,
     fiFinishReason = tsFinishReason ts, fiStoppedBy = StopCauseNatural\<rparr>"

lemma deferred_hooks:
  "deferred_response hs (s\<lparr>hist := h\<rparr>) =
     call_hooks (shOnPanic hs) ''OnResponse'' (EvResponse (response_info s)) (shOnResponse hs) (response_info s)
       (s\<lparr>hist := h\<rparr>)"
  "deferred_step_finish hs (s\<lparr>hist := h\<rparr>) =
     call_hooks (shOnPanic hs) ''OnStepFinish'' (EvStepFinish (stream_step_result s)) (shOnStepFinish hs)
       (stream_step_result s) (s\<lparr>hist := h\<rparr>)"
  "deferred_finish hs (s\<lparr>hist := h\<rparr>) =
     call_hooks (shOnPanic hs) ''OnFinish'' (EvFinish (finish_info s)) (shOnFinish hs) (finish_info s)
       (s\<lparr>hist := h\<rparr>)"
  by (simp_all add: deferred_response_def deferred_step_finish_def deferred_finish_def reads_state_def
      response_info_def finish_info_def stream_step_result_def Let_def)

definition teardown :: "stream_hooks \<Rightarrow> (text_stream, unit, unit) stmt" where
  "teardown hs = deferring (deferring (deferring (\<lambda>s. (Value (), s))
     (deferred_response hs)) (deferred_step_finish hs)) (deferred_finish hs)"

lemma teardown_events:
  "adds_events (teardown hs) s (\<lambda>evs. \<exists>a b c. evs = a @ b @ c \<and>
     hook_events (shOnResponse hs \<noteq> []) (EvResponse (response_info s)) a \<and>
     hook_events (shOnStepFinish hs \<noteq> []) (EvStepFinish (stream_step_result s)) b \<and>
     hook_events (shOnFinish hs \<noteq> []) (EvFinish (finish_info s)) c)"
proof -
  note steps = adds_events_deferring [OF adds_events_deferring [OF adds_events_deferring
      [OF adds_events_pure deferred_hooks(1)] deferred_hooks(2)] deferred_hooks(3)]
  from steps show ?thesis
    unfolding teardown_def by (auto simp: adds_events_def) (metis append.assoc append_Nil)+
qed

text \<open>The events that \<open>consume\<close> adds: the three deferred groups, then the idle state.\<close>

definition reader_events :: "stream_hooks \<Rightarrow> text_stream \<Rightarrow> event list \<Rightarrow> bool" where
  "reader_events hs s evs \<longleftrightarrow> (\<exists>a b c. evs = a @ b @ c @ (if shStateRef hs then [EvState StepIdle 1] else []) \<and>
     hook_events (shOnResponse hs \<noteq> []) (EvResponse (response_info s)) a \<and>
     hook_events (shOnStepFinish hs \<noteq> []) (EvStepFinish (stream_step_result s)) b \<and>
     hook_events (shOnFinish hs \<noteq> []) (EvFinish (finish_info s)) c)"

text \<open>
  C16: reading a stream always ends well: whatever the chunks, the caller's behaviour and the
  callbacks do (panics included), the reader returns, every registered group of deferred callbacks
  has been started in the order OnResponse, OnStepFinish, OnFinish with the final data of the
  stream, the state reference is left at \<open>StepIdle\<close> as the last thing published, and an
  accumulated stream error is kept.
\<close>

theorem consume_settles:
  "\<exists>ts' evs. consume hs rawOut textOut alive ctxErr source ts = (Value (), ts') \<and>
     hist ts' = hist (consume_loop rawOut textOut alive ctxErr source ts) @ evs \<and>
     reader_events hs (consume_loop rawOut textOut alive ctxErr source ts) evs \<and>
     (case tsStreamErr (consume_loop rawOut textOut alive ctxErr source ts) of
        None \<Rightarrow> True | Some e \<Rightarrow> tsStreamErr ts' = Some e)"
proof -
  define s where "s = consume_loop rawOut textOut alive ctxErr source ts"
  have body: "deferring (deferring (deferring (modify (consume_loop rawOut textOut alive ctxErr source))
      (deferred_response hs)) (deferred_step_finish hs)) (deferred_finish hs) ts = teardown hs s"
    by (simp add: teardown_def deferring_def modify_def s_def)
  obtain r evs where r: "teardown hs s = (r, s\<lparr>hist := hist s @ evs\<rparr>)"
      "r = Value () \<or> (\<exists>p. r = Panics p \<and> settled_panic p)"
    and evs: "\<exists>a b c. evs = a @ b @ c \<and>
     hook_events (shOnResponse hs \<noteq> []) (EvResponse (response_info s)) a \<and>
     hook_events (shOnStepFinish hs \<noteq> []) (EvStepFinish (stream_step_result s)) b \<and>
     hook_events (shOnFinish hs \<noteq> []) (EvFinish (finish_info s)) c"
    using teardown_events [of hs s] unfolding adds_events_def by blast
  have ends: "reader_events hs s (evs @ (if shStateRef hs then [EvState StepIdle 1] else []))"
    using evs unfolding reader_events_def by auto
  show ?thesis
    unfolding s_def [symmetric]
    using r ends body
    by (cases "tsStreamErr s")
       (auto simp: consume_def recoverToStreamErr_def recovering_def finally_do_def publish_stream_idle_def
          settled_panic_def modify_def set_stream_err_def)
qed


section \<open>What the reader accumulates\<close>

lemma consume_chunk_type:
  "scType c = ChunkText \<Longrightarrow> consume_chunk ts c = add_sources (chunk_sources c)
     (ts\<lparr>tsText := tsText ts @ scText c, tsStepText := tsStepText ts @ scText c\<rparr>)"
  "scType c = ChunkReasoning \<Longrightarrow> consume_chunk ts c = add_sources (chunk_sources c)
     (ts\<lparr>tsText := tsText ts @ scText c, tsReasoning := add_reasoning (tsReasoning ts) c\<rparr>)"
  "scType c = ChunkToolCall \<Longrightarrow> consume_chunk ts c =
     ts\<lparr>tsToolCalls := tsToolCalls ts @ [chunk_tool_call c],
        tsStepToolCalls := tsStepToolCalls ts @ [chunk_tool_call c]\<rparr>"
  "scType c = ChunkStepFinish \<Longrightarrow> consume_chunk ts c =
     (if results_chunk c then backfill_results ts c
      else if goai_chunk c then goai_boundary ts c else provider_boundary ts c)"
  "scType c = ChunkFinish \<Longrightarrow> consume_chunk ts c = final_chunk ts c"
  "scType c = ChunkError \<Longrightarrow> consume_chunk ts c =
     (if tsStreamErr ts = None then ts\<lparr>tsStreamErr := scError c\<rparr> else ts)"
  "scType c = ChunkToolCallDelta \<Longrightarrow> consume_chunk ts c = ts"
  "scType c = ChunkToolCallStreamStart \<Longrightarrow> consume_chunk ts c = ts"
  "scType c = ChunkToolResult \<Longrightarrow> consume_chunk ts c = ts"
  "scType c = ChunkOther x \<Longrightarrow> consume_chunk ts c = ts"
  by (simp_all add: consume_chunk_def)

text \<open>A provider's own stream: its step boundaries do not carry the tags of the tool loop.\<close>

definition untagged :: "StreamChunk \<Rightarrow> bool" where
  "untagged c \<longleftrightarrow> scType c = ChunkStepFinish \<longrightarrow> \<not> results_chunk c \<and> \<not> goai_chunk c"

definition fresh_step :: "text_stream \<Rightarrow> bool" where
  "fresh_step ts \<longleftrightarrow> tsStepText ts = [] \<and> tsStepToolCalls ts = [] \<and> tsStepSources ts = [] \<and>
     reasoning_ok (tsReasoning ts) \<and> reasoning_so_far (tsReasoning ts) = []"

abbreviation not_final :: "StreamChunk \<Rightarrow> bool" where
  "not_final c \<equiv> scType c \<noteq> ChunkFinish"

text \<open>The fields the step boundary reads, after the forwarded chunks of one step.\<close>

definition step_view :: "StreamChunk list \<Rightarrow> text_stream \<Rightarrow> text_stream \<Rightarrow> bool" where
  "step_view cs ts ts' \<longleftrightarrow>
     tsStepText ts' = concat (map scText (of_type ChunkText cs)) \<and>
     tsStepToolCalls ts' = map chunk_tool_call (of_type ChunkToolCall cs) \<and>
     tsStepSources ts' = concat (map source_of cs) \<and>
     reasoning_ok (tsReasoning ts') \<and>
     reasoning_so_far (tsReasoning ts') = concat (map scText (of_type ChunkReasoning cs)) \<and>
     tsSteps ts' = tsSteps ts \<and> tsCurrentStep ts' = tsCurrentStep ts \<and> tsUsage ts' = tsUsage ts"

lemma consume_provider_chunks:
  assumes "fresh_step ts" "\<forall>c\<in>set cs. untagged c \<and> not_final c"
  shows "step_view cs ts (foldl consume_chunk ts cs)"
  using assms(2)
proof (induction cs rule: rev_induct)
  case Nil
  then show ?case using assms(1) by (simp add: step_view_def fresh_step_def)
next
  case (snoc c cs)
  then have "step_view cs ts (foldl consume_chunk ts cs)" "untagged c" "not_final c" by auto
  then show ?case
    by (cases "scType c") (simp_all add: step_view_def consume_chunk_type untagged_def add_sources_def
        source_of_def provider_boundary_def)
qed

lemma of_type_not_final: "t \<noteq> ChunkFinish \<Longrightarrow> of_type t (filter not_final cs) = of_type t cs"
  by (induction cs) auto

text \<open>A whole stream read without the tool loop.\<close>

definition stream_view :: "StreamChunk list \<Rightarrow> text_stream \<Rightarrow> bool" where
  "stream_view cs ts \<longleftrightarrow>
     tsStepText ts = concat (map scText (of_type ChunkText cs)) \<and>
     tsToolCalls ts = map chunk_tool_call (of_type ChunkToolCall cs) \<and>
     tsSources ts = concat (map source_of cs) \<and>
     reasoning_ok (tsReasoning ts) \<and>
     reasoning_so_far (tsReasoning ts) = concat (map scText (of_type ChunkReasoning cs)) \<and>
     tsSteps ts = [] \<and>
     tsFinishReason ts = last_or FinishNone scFinishReason (filter finishing cs) \<and>
     tsUsage ts = last_or zero_Usage scUsage (of_type ChunkFinish cs)"

lemma consume_whole_stream:
  assumes "\<forall>c\<in>set cs. untagged c"
  shows "stream_view cs (foldl consume_chunk (newTextStream h) cs)"
  using assms
proof (induction cs rule: rev_induct)
  case Nil
  then show ?case by (simp add: stream_view_def newTextStream_def)
next
  case (snoc c cs)
  then have "stream_view cs (foldl consume_chunk (newTextStream h) cs)" "untagged c" by auto
  then show ?case
    by (cases "scType c") (simp_all add: stream_view_def consume_chunk_type untagged_def add_sources_def
        source_of_def provider_boundary_def final_chunk_def finishing_def Let_def)
qed

text \<open>Passing chunks on does not touch what is accumulated.\<close>

definition with_outputs :: "StreamChunk list \<Rightarrow> string list \<Rightarrow> nat \<Rightarrow> text_stream \<Rightarrow> text_stream" where
  "with_outputs r t n ts = ts\<lparr>tsRawOut := r, tsTextOut := t, tsChecks := n\<rparr>"

lemma with_outputs_with_outputs [simp]: "with_outputs r t n (with_outputs r' t' n' ts) = with_outputs r t n ts"
  by (simp add: with_outputs_def)

lemma with_outputs_fields [simp]:
  "tsReasoning (with_outputs r t n ts) = tsReasoning ts" "tsStepText (with_outputs r t n ts) = tsStepText ts"
  "tsToolCalls (with_outputs r t n ts) = tsToolCalls ts" "tsSources (with_outputs r t n ts) = tsSources ts"
  "tsSteps (with_outputs r t n ts) = tsSteps ts" "tsFinishReason (with_outputs r t n ts) = tsFinishReason ts"
  "tsUsage (with_outputs r t n ts) = tsUsage ts" "tsText (with_outputs r t n ts) = tsText ts"
  "tsStreamErr (with_outputs r t n ts) = tsStreamErr ts"
  by (simp_all add: with_outputs_def)

lemma consume_chunk_outputs [simp]:
  "consume_chunk (with_outputs r t n ts) c = with_outputs r t n (consume_chunk ts c)"
proof -
  have "backfill_results (with_outputs r t n ts) c = with_outputs r t n (backfill_results ts c)"
    by (cases "get_tool_results (scMetadata c) ''toolResults''") (simp_all add: backfill_results_def with_outputs_def)
  moreover have "goai_boundary (with_outputs r t n ts) c = with_outputs r t n (goai_boundary ts c)"
    by (cases "finish_reasoning (tsReasoning ts)") (simp add: goai_boundary_def with_outputs_def Let_def)
  moreover have "provider_boundary (with_outputs r t n ts) c = with_outputs r t n (provider_boundary ts c)"
    by (simp add: provider_boundary_def with_outputs_def add_sources_def)
  moreover have "final_chunk (with_outputs r t n ts) c = with_outputs r t n (final_chunk ts c)"
    by (simp add: final_chunk_def with_outputs_def Let_def)
  ultimately show ?thesis
    by (cases "scType c") (simp_all add: consume_chunk_type with_outputs_def add_sources_def)
qed

lemma foldl_consume_outputs [simp]:
  "foldl consume_chunk (with_outputs r t n ts) cs = with_outputs r t n (foldl consume_chunk ts cs)"
  by (induction cs arbitrary: ts) simp_all

definition close_reasoning :: "text_stream \<Rightarrow> text_stream" where
  "close_reasoning ts = ts\<lparr>tsReasoningParts := fst (finish_reasoning (tsReasoning ts)),
     tsReasoning := snd (finish_reasoning (tsReasoning ts))\<rparr>"

lemma deliver_alive:
  "\<exists>r t n. deliver rawOut textOut (\<lambda>_. True) c ts = (True, with_outputs r t n ts)"
proof -
  have "deliver rawOut textOut (\<lambda>_. True) c ts = (True, with_outputs
      (tsRawOut (snd (deliver rawOut textOut (\<lambda>_. True) c ts)))
      (tsTextOut (snd (deliver rawOut textOut (\<lambda>_. True) c ts)))
      (tsChecks (snd (deliver rawOut textOut (\<lambda>_. True) c ts))) ts)"
    by (simp add: deliver_def deliver_text_def with_outputs_def)
  then show ?thesis by blast
qed

lemma consume_loop_alive:
  "\<exists>r t n. consume_loop rawOut textOut (\<lambda>_. True) ctxErr cs ts =
     close_reasoning (with_outputs r t n (foldl consume_chunk ts cs))"
proof (induction cs arbitrary: ts)
  case Nil
  have "close_reasoning ts = close_reasoning (with_outputs (tsRawOut ts) (tsTextOut ts) (tsChecks ts) ts)"
    by (simp add: with_outputs_def)
  then show ?case by (auto simp: close_reasoning_def [symmetric])
next
  case (Cons c cs)
  obtain r t n where d: "deliver rawOut textOut (\<lambda>_. True) c (consume_chunk ts c) = (True, with_outputs r t n (consume_chunk ts c))"
    using deliver_alive by blast
  show ?case
    using Cons.IH [of "consume_chunk ts c"] Cons.IH [of "with_outputs r t n (consume_chunk ts c)"] d
    by auto
qed

text \<open>
  C31: the single-shot reader and the drain of the tool loop agree: on any provider stream that ends
  with its final chunk, whatever channel the caller reads, the result of a stream read by \<open>consume\<close>
  has the text, tool calls, sources, reasoning text, finish reason and usage that \<open>drainStep\<close>
  accumulates for the same chunks.
\<close>

theorem consume_agrees_with_drain:
  assumes "\<forall>c\<in>set cs. untagged c" "cs \<noteq> []" "scType (last cs) = ChunkFinish"
    and "ts = consume_loop rawOut textOut (\<lambda>_. True) ctxErr cs (newTextStream h)"
    and "dr = fst (drainStep cs new_sink)"
  shows "srText (stream_step_result ts) = drText dr \<and> srToolCalls (stream_step_result ts) = drToolCalls dr \<and>
    srSources (stream_step_result ts) = drSources dr \<and> srUsage (stream_step_result ts) = drUsage dr \<and>
    srFinishReason (stream_step_result ts) = drFinishReason dr \<and>
    reasoningText (tsReasoningParts ts) = drReasoningText dr \<and> tsSteps ts = []"
proof -
  have dr: "dr = drain_finish (drained cs)"
    by (simp add: assms(5) drainStep_def drain_loop_open drained_def)
  obtain r t n where ts: "ts = close_reasoning (with_outputs r t n (foldl consume_chunk (newTextStream h) cs))"
    using consume_loop_alive assms(4) by blast
  have ends: "filter finishing cs = filter finishing (butlast cs) @ [last cs]"
    "of_type ChunkFinish cs = of_type ChunkFinish (butlast cs) @ [last cs]"
  proof -
    have "cs = butlast cs @ [last cs]" using assms(2) by simp
    then show "filter finishing cs = filter finishing (butlast cs) @ [last cs]"
      "of_type ChunkFinish cs = of_type ChunkFinish (butlast cs) @ [last cs]"
      using assms(3) by (metis (full_types) filter.simps filter_append finishing_def,
          metis (full_types) of_type_simps)
  qed
  show ?thesis
    using consume_whole_stream [OF assms(1), of h]
    by (simp add: ts dr stream_view_def close_reasoning_def stream_step_result_def ends
        drained_text drained_calls drained_sources drained_reasoning drained_finish finish_reasoning_text)
qed

theorem consume_agrees_with_drain_witness:
  "srText (stream_step_result (consume_loop False True (\<lambda>_. True) ErrContextCanceled
     [text_chunk ''ab'', block_chunk ''0'' ''x'', finish_chunk FinishStop] (newTextStream []))) = ''ab''"
  using consume_agrees_with_drain [OF _ _ _ refl refl,
      of "[text_chunk ''ab'', block_chunk ''0'' ''x'', finish_chunk FinishStop]" False True ErrContextCanceled "[]"]
  by (simp add: untagged_def text_chunk_def block_chunk_def finish_chunk_def zero_Chunk_def
      drainStep_def drain_finish_def Let_def drain_chunk_def drain_loop_open)

end
