(* ===== verification/ToolLoopFacts.thy ===== *)
theory ToolLoopFacts
  imports ToolLoop
begin

text \<open>
  What \<open>GenerateText\<close> guarantees: it always returns; the states it publishes; how often it calls the
  model; when \<open>OnFinish\<close> fires and with what; what the steps and totals of its result are.
\<close>

section \<open>Observations of a run\<close>

fun calm :: "event \<Rightarrow> bool" where
  "calm (EvState _ _) = False"
| "calm (EvFinish _) = False"
| "calm (EvGenerate _) = False"
| "calm _ = True"

fun is_finish :: "event \<Rightarrow> bool" where
  "is_finish (EvFinish _) = True"
| "is_finish _ = False"

fun is_generate :: "event \<Rightarrow> bool" where
  "is_generate (EvGenerate _) = True"
| "is_generate _ = False"

definition finishes :: "event list \<Rightarrow> event list" where "finishes h = filter is_finish h"
definition model_calls :: "event list \<Rightarrow> nat" where "model_calls h = length (filter is_generate h)"

fun state_of :: "event \<Rightarrow> (StepKind \<times> nat) option" where
  "state_of (EvState k n) = Some (k, n)"
| "state_of _ = None"

definition states :: "event list \<Rightarrow> (StepKind \<times> nat) list" where
  "states h = List.map_filter state_of h"

lemma observe_append [simp]:
  "finishes (h @ h') = finishes h @ finishes h'"
  "model_calls (h @ h') = model_calls h + model_calls h'"
  "states (h @ h') = states h @ states h'"
  by (simp_all add: finishes_def model_calls_def states_def List.map_filter_def)

lemma observe_Cons [simp]:
  "finishes (e # h) = (if is_finish e then e # finishes h else finishes h)"
  "model_calls (e # h) = (if is_generate e then 1 else 0) + model_calls h"
  "states (e # h) = (case state_of e of None \<Rightarrow> states h | Some x \<Rightarrow> x # states h)"
  "finishes [] = []" "model_calls [] = 0" "states [] = []"
  by (simp_all add: finishes_def model_calls_def states_def List.map_filter_def split: option.split)

lemma calm_kinds: "calm e \<Longrightarrow> \<not> is_finish e \<and> \<not> is_generate e \<and> state_of e = None"
  by (cases e) auto

lemma calm_observe:
  "list_all calm es \<Longrightarrow> finishes es = [] \<and> model_calls es = 0 \<and> states es = []"
  by (induction es) (auto dest: calm_kinds)

lemma tool_event_calm: "tool_event e \<Longrightarrow> calm e"
  by (cases e) auto

section \<open>Statements that only run callbacks\<close>

text \<open>The part of the state the callbacks cannot touch, and the events they may add.\<close>

definition quiet :: "text_run \<Rightarrow> text_run \<Rightarrow> bool" where
  "quiet s s' \<longleftrightarrow> rSteps s' = rSteps s \<and> rTotalUsage s' = rTotalUsage s \<and> rInflight s' = rInflight s \<and>
     (\<exists>es. hist s' = hist s @ es \<and> list_all calm es)"

lemma quiet_refl [simp]: "quiet s s"
  by (simp add: quiet_def)

lemma quiet_trans [trans]: "quiet s s' \<Longrightarrow> quiet s' s'' \<Longrightarrow> quiet s s''"
  by (auto simp: quiet_def)

lemma quiet_observe:
  assumes "quiet s s'"
  shows "rSteps s' = rSteps s" "rTotalUsage s' = rTotalUsage s" "rInflight s' = rInflight s"
    "finishes (hist s') = finishes (hist s)" "model_calls (hist s') = model_calls (hist s)"
    "states (hist s') = states (hist s)"
  using assms calm_observe by (auto simp: quiet_def)

definition quiet_stmt :: "(text_run, 'r, 'a) stmt \<Rightarrow> bool" where
  "quiet_stmt m \<longleftrightarrow> (\<forall>s. wp m (\<lambda>_. quiet s) (\<lambda>_. quiet s) (\<lambda>_ _. False) s)"

lemma wp_quiet:
  assumes "quiet_stmt m" "\<And>x s'. quiet s s' \<Longrightarrow> Q x s'" "\<And>p s'. quiet s s' \<Longrightarrow> E p s'"
  shows "wp m Q E R s"
  using assms(1) [unfolded quiet_stmt_def, rule_format, of s] by (rule wp_mono) (use assms(2,3) in auto)

lemma quiet_stmtI: "(\<And>s. wp m (\<lambda>_. quiet s) (\<lambda>_. quiet s) (\<lambda>_ _. False) s) \<Longrightarrow> quiet_stmt m"
  by (simp add: quiet_stmt_def)

lemma wp_seq:
  assumes "wp m P E R s" "\<And>x s'. P x s' \<Longrightarrow> wp (f x) Q E R s'"
  shows "wp (andThen m f) Q E R s"
  using assms by (auto elim: wp_mono)

lemma quiet_andThen: "quiet_stmt m \<Longrightarrow> (\<And>x. quiet_stmt (f x)) \<Longrightarrow> quiet_stmt (andThen m f)"
  by (rule quiet_stmtI, simp) (rule wp_quiet, assumption, rule wp_quiet, auto intro: quiet_trans)

lemma quiet_pure [simp]: "quiet_stmt (pure x)"
  by (simp add: quiet_stmt_def)

lemma quiet_reads: "(\<And>s. quiet_stmt (f s)) \<Longrightarrow> quiet_stmt (reads_state f)"
  by (rule quiet_stmtI, simp) (rule wp_quiet, auto)

lemma quiet_modify: "(\<And>s. quiet s (f s)) \<Longrightarrow> quiet_stmt (modify f)"
  by (simp add: quiet_stmt_def)

lemma quiet_hook: "calm ev \<Longrightarrow> quiet_stmt (callHook n phase (invoke ev f i))"
  by (auto simp: quiet_stmt_def quiet_def panic_events_def list_all_iff split: sum.split option.split)

lemma quiet_for_each: "(\<And>x. quiet_stmt (f x)) \<Longrightarrow> quiet_stmt (for_each f xs)"
  by (induction xs) (auto intro: quiet_andThen)

lemma quiet_call_hooks: "calm ev \<Longrightarrow> quiet_stmt (call_hooks n phase ev fs i)"
  unfolding call_hooks_def by (intro quiet_for_each quiet_hook)

lemma quiet_params [simp]: "quiet s (s\<lparr>rParams := p\<rparr>)" "quiet s (rParams_update g s)"
  by (simp_all add: quiet_def)

lemma quiet_before_step: "quiet_stmt (before_step opts step)"
  unfolding before_step_def Let_def
  by (cases "oOnBeforeStep opts") (auto intro!: quiet_reads quiet_andThen quiet_hook quiet_modify)

lemma quiet_request_hooks: "quiet_stmt (request_hooks opts)"
  unfolding request_hooks_def Let_def by (intro quiet_reads quiet_call_hooks) simp

lemma quiet_response_hooks: "quiet_stmt (response_hooks opts result err)"
  unfolding response_hooks_def Let_def by (intro quiet_call_hooks) simp

lemma quiet_stop_when: "quiet_stmt (stop_when opts)"
  unfolding stop_when_def stopSafe_def
  by (cases "oStopWhen opts") (auto intro!: quiet_reads quiet_hook)

lemmas quiet_stmts = quiet_before_step quiet_request_hooks quiet_response_hooks quiet_stop_when

section \<open>The model call\<close>

text \<open>Model calls add \<open>EvGenerate\<close> events, at most one per attempt, and calm ones.\<close>

definition attempts :: "nat \<Rightarrow> text_run \<Rightarrow> text_run \<Rightarrow> bool" where
  "attempts k s s' \<longleftrightarrow> rSteps s' = rSteps s \<and> rTotalUsage s' = rTotalUsage s \<and> rInflight s' = rInflight s \<and>
     finishes (hist s') = finishes (hist s) \<and> states (hist s') = states (hist s) \<and>
     model_calls (hist s') \<le> model_calls (hist s) + k"

lemma attempts_trans: "attempts k s s' \<Longrightarrow> attempts j s' s'' \<Longrightarrow> k + j \<le> n \<Longrightarrow> attempts n s s''"
  by (auto simp: attempts_def)

lemma quiet_attempts: "quiet s s' \<Longrightarrow> attempts k s s'"
  by (simp add: attempts_def quiet_observe)

lemma attempts_le: "attempts k s s' \<Longrightarrow> k \<le> n \<Longrightarrow> attempts n s s'"
  by (auto simp: attempts_def)

definition one_attempt :: "(GenerateParams, GenerateResult option \<times> go_error option) hook \<Rightarrow>
    (text_run, GenerateResult option \<times> go_error option, GenerateResult option \<times> go_error option) stmt" where
  "one_attempt model = reads_state (\<lambda>s. invoke (EvGenerate (rParams s)) model (rParams s))"

lemma wp_one_attempt:
  "wp (one_attempt model) (\<lambda>_. attempts 1 s) (\<lambda>_. attempts 1 s) (\<lambda>_ _. False) s"
  by (simp add: one_attempt_def attempts_def split: sum.split)

lemma wp_retry_loop:
  "wp (retry_loop re observer zero (one_attempt model) left a r)
     (\<lambda>_. attempts left s) (\<lambda>_. attempts left s) (\<lambda>_. attempts left s) s"
proof (induction left arbitrary: a r s)
  case 0
  show ?case by (simp add: attempts_def)
next
  case (Suc left)
  show ?case
  proof (cases "snd r")
    case None
    then show ?thesis by (simp add: attempts_def)
  next
    case (Some err)
    have rest: "wp (andThen (one_attempt model) (retry_loop re observer zero (one_attempt model) left (Suc a)))
        (\<lambda>_. attempts (Suc left) s) (\<lambda>_. attempts (Suc left) s) (\<lambda>_. attempts (Suc left) s) s1"
      if "attempts 0 s s1" for s1
    proof (rule wp_seq)
      show "wp (one_attempt model) (\<lambda>_. attempts 1 s) (\<lambda>_. attempts (Suc left) s) (\<lambda>_. attempts (Suc left) s) s1"
        by (rule wp_mono [OF wp_one_attempt]) (auto intro: attempts_trans [OF that])
      show "wp (retry_loop re observer zero (one_attempt model) left (Suc a) x)
          (\<lambda>_. attempts (Suc left) s) (\<lambda>_. attempts (Suc left) s) (\<lambda>_. attempts (Suc left) s) s2"
        if "attempts 1 s s2" for x s2
        by (rule wp_mono [OF Suc.IH]) (auto intro: attempts_trans [OF that])
    qed
    have idle: "attempts 0 s (s\<lparr>hist := hist s @ [EvRetry a err d]\<rparr>)" for d
      by (simp add: attempts_def)
    have "attempts k s s" for k by (simp add: attempts_def)
    with rest idle attempts_le [OF idle, of "Suc left"] Some show ?thesis
      by (auto simp: Let_def simp del: wp_andThen split: option.split sum.split)
        (auto split: option.split sum.split)
  qed
qed

lemma wp_withRetry:
  "wp (withRetry re m observer zero (one_attempt model) :: (text_run, 'r, _) stmt)
     (\<lambda>_. attempts (nat m + 1) s) (\<lambda>_. attempts (nat m + 1) s) (\<lambda>_ _. False) s"
  unfolding withRetry_def wp_call_body
proof (rule wp_seq)
  show "wp (one_attempt model) (\<lambda>_. attempts 1 s) (\<lambda>_. attempts (nat m + 1) s) (\<lambda>_. attempts (nat m + 1) s) s"
    by (rule wp_mono [OF wp_one_attempt]) (auto intro: attempts_le)
  show "wp (andThen (retry_loop re observer zero (one_attempt model) (nat m) 0 x) (\<lambda>(attempt, result, err).
         case err of None \<Rightarrow> pure (result, None)
         | Some e \<Rightarrow> if int attempt = m \<and> 0 < m \<and> retryable (Some e)
             then pure (result, Some (retries_exhausted m e)) else pure (result, Some e)))
      (\<lambda>_. attempts (nat m + 1) s) (\<lambda>_. attempts (nat m + 1) s) (\<lambda>_. attempts (nat m + 1) s) s1"
    if one: "attempts 1 s s1" for x s1
  proof (rule wp_seq)
    show "wp (retry_loop re observer zero (one_attempt model) (nat m) 0 x)
        (\<lambda>_. attempts (nat m + 1) s) (\<lambda>_. attempts (nat m + 1) s) (\<lambda>_. attempts (nat m + 1) s) s1"
      by (rule wp_mono [OF wp_retry_loop]) (auto intro: attempts_trans [OF one])
  qed (auto split: prod.split option.split)
qed

section \<open>The published states\<close>

definition live :: "bool \<Rightarrow> text_run \<Rightarrow> bool" where
  "live ref s \<longleftrightarrow>
     (if ref then states (hist s) \<noteq> [] \<and> hd (states (hist s)) = (StepStarting, 0) \<and>
        sorted (map snd (states (hist s))) \<and>
        (\<forall>x \<in> set (states (hist s)). fst x \<noteq> StepIdle \<and> snd x \<le> rInflight s)
      else states (hist s) = [])"

lemma live_same: "live ref s \<Longrightarrow> states (hist s') = states (hist s) \<Longrightarrow> rInflight s' = rInflight s \<Longrightarrow> live ref s'"
  by (simp add: live_def)

text \<open>Announcing a state at the current step or, with the counter, at the next one.\<close>

lemma sorted_snoc: "sorted xs \<Longrightarrow> \<forall>x \<in> set xs. x \<le> (y :: nat) \<Longrightarrow> sorted (xs @ [y])"
  by (simp add: sorted_append)

lemma live_announce:
  assumes "live True s" "k \<noteq> StepIdle" "rInflight s \<le> n"
  shows "live True (s\<lparr>hist := hist s @ [EvState k n], rInflight := n\<rparr>)"
proof -
  have "sorted (map snd (states (hist s)) @ [n])"
    using assms by (intro sorted_snoc) (auto simp: live_def)
  with assms show ?thesis by (fastforce simp: live_def)
qed

lemma wp_announce [simp]:
  "wp (announce ref k n) Q E R s = Q () (if ref then s\<lparr>hist := hist s @ [EvState k n]\<rparr> else s)"
  by (simp add: announce_def)

section \<open>Firing OnFinish\<close>

definition core_same :: "text_run \<Rightarrow> text_run \<Rightarrow> bool" where
  "core_same s s' \<longleftrightarrow> rSteps s' = rSteps s \<and> rTotalUsage s' = rTotalUsage s \<and> rInflight s' = rInflight s \<and>
     states (hist s') = states (hist s) \<and> model_calls (hist s') = model_calls (hist s)"

lemma panic_events_observe [simp]:
  "finishes (panic_events n ph p) = []" "model_calls (panic_events n ph p) = 0" "states (panic_events n ph p) = []"
proof -
  have "list_all calm (panic_events n ph p)"
    by (simp add: panic_events_def list_all_iff split: option.split)
  then show "finishes (panic_events n ph p) = []" "model_calls (panic_events n ph p) = 0"
    "states (panic_events n ph p) = []" using calm_observe by blast+
qed

lemma wp_fireOnFinish:
  "wp (fireOnFinish opts info)
     (\<lambda>_ s'. core_same s s' \<and>
        finishes (hist s') = finishes (hist s) @ replicate (length (oOnFinish opts)) (EvFinish info))
     (\<lambda>_. core_same s) (\<lambda>_ _. False) s"
  unfolding fireOnFinish_def call_hooks_def
proof (rule wp_for_each [where I = "\<lambda>ys s'. core_same s s' \<and>
    finishes (hist s') = finishes (hist s) @ replicate (length ys) (EvFinish info)"])
  fix ys zs :: "(FinishInfo, unit) hook list" and x :: "(FinishInfo, unit) hook" and s1
  assume "core_same s s1 \<and> finishes (hist s1) = finishes (hist s) @ replicate (length ys) (EvFinish info)"
  then show "wp (callHook (oOnPanic opts) ''OnFinish'' (invoke (EvFinish info) x info))
      (\<lambda>_ s'. core_same s s' \<and> finishes (hist s') = finishes (hist s) @ replicate (length (ys @ [x])) (EvFinish info))
      (\<lambda>_. core_same s) (\<lambda>_ _. False) s1"
    by (auto simp: core_same_def replicate_append_same split: sum.split)
qed (simp_all add: core_same_def)

section \<open>The invariant of the loop\<close>

text \<open>
  \<open>n\<close> steps are complete; \<open>k\<close> is the step counter announced last (the step in flight, if any).
\<close>

definition budget :: "'z gen_options_scheme \<Rightarrow> nat" where
  "budget opts = nat (oMaxRetries opts) + 1"

definition run_inv :: "'z gen_options_scheme \<Rightarrow> nat \<Rightarrow> nat \<Rightarrow> text_run \<Rightarrow> bool" where
  "run_inv opts n k s \<longleftrightarrow>
     map srNumber (rSteps s) = [1..<Suc n] \<and> rTotalUsage s = total_usage (map srUsage (rSteps s)) \<and>
     rInflight s = k \<and> model_calls (hist s) \<le> k * budget opts \<and> finishes (hist s) = [] \<and>
     live (oStateRef opts) s"

lemma run_inv_length: "run_inv opts n k s \<Longrightarrow> length (rSteps s) = n"
  by (auto simp: run_inv_def dest: arg_cong [where f = length])

lemma run_inv_quiet: "run_inv opts n k s \<Longrightarrow> quiet s s' \<Longrightarrow> run_inv opts n k s'"
  by (auto simp: run_inv_def quiet_observe intro: live_same)

definition finish_matches :: "TextResult \<Rightarrow> FinishInfo \<Rightarrow> bool" where
  "finish_matches tr info \<longleftrightarrow>
     fiTotalSteps info = length (txSteps tr) \<and> fiTotalUsage info = txTotalUsage tr \<and>
     fiFinishReason info = txFinishReason tr \<and> fiStepsExhausted info = txStepsExhausted tr \<and>
     IsValid (fiStoppedBy info) \<and> fiStoppedBy info \<noteq> StopCauseAbort \<and>
     (txStepsExhausted tr \<longleftrightarrow> fiStoppedBy info = StopCauseMaxSteps)"

text \<open>What holds when the function returns, with at most \<open>M\<close> steps allowed.\<close>

definition returned :: "'z gen_options_scheme \<Rightarrow> nat \<Rightarrow> go_error + TextResult \<Rightarrow> text_run \<Rightarrow> bool" where
  "returned opts M r s \<longleftrightarrow> live (oStateRef opts) s \<and> rInflight s \<le> M \<and> model_calls (hist s) \<le> M * budget opts \<and>
     (case r of
        Inr tr \<Rightarrow> (\<exists>n \<le> M. map srNumber (txSteps tr) = [1..<Suc n]) \<and>
          txTotalUsage tr = total_usage (map srUsage (txSteps tr)) \<and>
          (\<exists>info. finishes (hist s) = replicate (length (oOnFinish opts)) (EvFinish info) \<and> finish_matches tr info)
      | Inl _ \<Rightarrow> finishes (hist s) = [] \<or>
          (\<exists>info. finishes (hist s) = replicate (length (oOnFinish opts)) (EvFinish info) \<and>
                  fiStoppedBy info = StopCauseAbort))"

definition unwinding :: "'z gen_options_scheme \<Rightarrow> nat \<Rightarrow> text_run \<Rightarrow> bool" where
  "unwinding opts M s \<longleftrightarrow> live (oStateRef opts) s \<and> rInflight s \<le> M \<and> model_calls (hist s) \<le> M * budget opts"

lemma run_inv_unwinding: "run_inv opts n k s \<Longrightarrow> k \<le> M \<Longrightarrow> unwinding opts M s"
  unfolding run_inv_def unwinding_def by (meson le_trans mult_le_mono1 order_refl)

lemma unwinding_core: "unwinding opts M s \<Longrightarrow> core_same s s' \<Longrightarrow> unwinding opts M s'"
  by (auto simp: unwinding_def core_same_def intro: live_same)

lemma live_next:
  assumes "live ref s" "rInflight s \<le> n" "k \<noteq> StepIdle"
  shows "live ref ((if ref then s\<lparr>hist := hist s @ [EvState k n]\<rparr> else s)\<lparr>rInflight := n\<rparr>)"
  using assms live_announce [of s k n] by (cases ref) (auto simp: live_def)

lemma wp_model_call:
  assumes inv: "run_inv opts n n s" and le: "Suc n \<le> M"
  shows "wp (model_call opts env model (Suc n)) (\<lambda>_. run_inv opts n (Suc n)) (\<lambda>_. unwinding opts M) (\<lambda>_ _. False) s"
proof -
  let ?s1 = "(if oStateRef opts then s\<lparr>hist := hist s @ [EvState StepLLMInFlight (Suc n)]\<rparr> else s)\<lparr>rInflight := Suc n\<rparr>"
  have live1: "live (oStateRef opts) ?s1"
    using inv by (intro live_next) (simp_all add: run_inv_def)
  have s1: "rSteps ?s1 = rSteps s" "rTotalUsage ?s1 = rTotalUsage s" "rInflight ?s1 = Suc n"
    "finishes (hist ?s1) = finishes (hist s)" "model_calls (hist ?s1) = model_calls (hist s)"
    by simp_all
  have post: "run_inv opts n (Suc n) s'" if "attempts (nat (oMaxRetries opts) + 1) ?s1 s'" for s'
  proof -
    have "model_calls (hist s') \<le> model_calls (hist s) + budget opts"
      using that s1 by (simp add: attempts_def budget_def)
    moreover have "live (oStateRef opts) s'" using that live1 by (auto simp: attempts_def intro: live_same)
    ultimately show ?thesis using that inv s1 by (auto simp: attempts_def run_inv_def)
  qed
  have "wp (withRetry (geRetry env) (oMaxRetries opts) (oRetryObserver opts) None (one_attempt model))
      (\<lambda>_. run_inv opts n (Suc n)) (\<lambda>_. unwinding opts M) (\<lambda>_ _. False) ?s1"
    by (rule wp_mono [OF wp_withRetry]) (use post run_inv_unwinding le in blast)+
  then show ?thesis by (simp add: model_call_def one_attempt_def [symmetric])
qed

lemma run_inv_announce:
  assumes "run_inv opts n k s" "kind \<noteq> StepIdle"
  shows "run_inv opts n k (if oStateRef opts then s\<lparr>hist := hist s @ [EvState kind k]\<rparr> else s)"
proof -
  let ?s1 = "if oStateRef opts then s\<lparr>hist := hist s @ [EvState kind k]\<rparr> else s"
  have "live (oStateRef opts) (?s1\<lparr>rInflight := k\<rparr>)"
    by (rule live_next) (use assms in \<open>simp_all add: run_inv_def\<close>)
  then have "live (oStateRef opts) ?s1"
    by (rule live_same) (use assms in \<open>simp_all add: run_inv_def\<close>)
  with assms show ?thesis by (simp add: run_inv_def del: upt_Suc)
qed

lemma run_inv_steps:
  assumes "run_inv opts n k s" "map srNumber (rSteps s') = [1..<Suc n']"
    "rTotalUsage s' = total_usage (map srUsage (rSteps s'))" "rInflight s' = k" "hist s' = hist s"
  shows "run_inv opts n' k s'"
proof -
  have "live (oStateRef opts) s" "rInflight s = k" using assms(1) by (simp_all add: run_inv_def)
  then have "live (oStateRef opts) s'" using assms(4,5) by (simp add: live_same)
  with assms show ?thesis by (simp add: run_inv_def)
qed

lemma run_inv_record:
  assumes "run_inv opts n k s"
  shows "run_inv opts (Suc n) k (s\<lparr>rSteps := rSteps s @ [step_result (Suc n) r],
     rTotalUsage := addUsage (rTotalUsage s) (grUsage r), rLastReasoning := lr\<rparr>)"
  by (rule run_inv_steps [OF assms]) (use assms in \<open>simp_all add: run_inv_def step_result_def\<close>)

lemma wp_record_step:
  assumes inv: "run_inv opts n (Suc n) s" and le: "Suc n \<le> M"
  shows "wp (record_step opts (Suc n) r) (\<lambda>_. run_inv opts (Suc n) (Suc n)) (\<lambda>_. unwinding opts M) (\<lambda>_ _. False) s"
proof -
  let ?s1 = "s\<lparr>rSteps := rSteps s @ [step_result (Suc n) r],
     rTotalUsage := addUsage (rTotalUsage s) (grUsage r), rLastReasoning := last_reasoning r\<rparr>"
  let ?s2 = "if oStateRef opts then ?s1\<lparr>hist := hist ?s1 @ [EvState StepStepFinished (Suc n)]\<rparr> else ?s1"
  have inv2: "run_inv opts (Suc n) (Suc n) ?s2"
    by (rule run_inv_announce [OF run_inv_record [OF inv]]) simp
  have "wp (call_hooks (oOnPanic opts) ''OnStepFinish'' (EvStepFinish (step_result (Suc n) r))
         (oOnStepFinish opts) (step_result (Suc n) r) :: unit text_stmt)
      (\<lambda>_. run_inv opts (Suc n) (Suc n)) (\<lambda>_. unwinding opts M) (\<lambda>_ _. False) ?s2"
  proof (rule wp_quiet [OF quiet_call_hooks])
    show "run_inv opts (Suc n) (Suc n) s'" if "quiet ?s2 s'" for s'
      by (rule run_inv_quiet [OF inv2 that])
    then show "unwinding opts M s'" if "quiet ?s2 s'" for s'
      using that le run_inv_unwinding by blast
  qed simp
  then show ?thesis unfolding record_step_def wp_andThen wp_modify wp_announce by simp
qed

lemma run_inv_results:
  assumes "run_inv opts (Suc n) k s"
  shows "run_inv opts (Suc n) k (s\<lparr>rSteps := set_last_results results (rSteps s)\<rparr>)"
proof -
  obtain xs x where steps: "rSteps s = xs @ [x]"
    using run_inv_length [OF assms] by (metis length_0_conv nat.distinct(1) rev_exhaust)
  then have "map srNumber (set_last_results results (rSteps s)) = map srNumber (rSteps s)"
    "map srUsage (set_last_results results (rSteps s)) = map srUsage (rSteps s)"
    by (simp_all add: set_last_results_def)
  with assms show ?thesis by (intro run_inv_steps [OF assms]) (simp_all add: run_inv_def)
qed

lemma run_inv_hist:
  "run_inv opts n k s \<Longrightarrow> list_all calm es \<Longrightarrow> run_inv opts n k (s\<lparr>hist := hist s @ es\<rparr>)"
  by (rule run_inv_quiet) (auto simp: quiet_def)

lemma wp_run_tools:
  assumes "run_inv opts (Suc n) (Suc n) s"
  shows "wp (run_tools opts env toolMap (Suc n) r) (\<lambda>_. run_inv opts (Suc n) (Suc n)) E R s"
proof -
  let ?s1 = "if oStateRef opts then s\<lparr>hist := hist s @ [EvState StepToolExecuting (Suc n)]\<rparr> else s"
  have s1: "run_inv opts (Suc n) (Suc n) ?s1" by (rule run_inv_announce [OF assms]) simp
  obtain msgs results h where run: "executeToolsParallel (geUnmarshal env) (geSchedule env (hist ?s1)) (geContext env)
      (grToolCalls r) toolMap (Suc n) (tool_hooks opts) (hist ?s1) = ((msgs, results), h)"
    by (metis prod.collapse)
  from executeToolsParallel_events [OF run] obtain tr where h: "h = hist ?s1 @ tr" "list_all tool_event tr"
    by blast
  then have "list_all calm tr" using tool_event_calm by (auto simp: list_all_iff)
  from run_inv_results [OF run_inv_hist [OF s1 this]]
  have "run_inv opts (Suc n) (Suc n) (?s1\<lparr>hist := h, rSteps := set_last_results results (rSteps ?s1)\<rparr>)"
    by (simp add: h(1))
  with assms run show ?thesis unfolding run_tools_def by (auto simp: Let_def split: prod.split)
qed

lemma run_inv_params: "run_inv opts n k s \<Longrightarrow> run_inv opts n k (rParams_update f s)"
  by (rule run_inv_steps) (simp_all add: run_inv_def)

lemma run_inv_fold: "run_inv opts n k s \<Longrightarrow> run_inv opts n k (fold_step r ms s)"
  unfolding fold_step_def by (rule run_inv_steps) (simp_all add: run_inv_def)

lemma wp_abort_step:
  assumes "run_inv opts n k s" "k \<le> M"
  shows "wp (abort_step opts err) Q (\<lambda>_. unwinding opts M) (returned opts M) s"
  unfolding abort_step_def wp_reads_state
proof (rule wp_seq, rule wp_mono [OF wp_fireOnFinish])
  have unw: "unwinding opts M s" by (rule run_inv_unwinding [OF assms])
  show "unwinding opts M s'" if "core_same s s'" for s' by (rule unwinding_core [OF unw that])
  fix info s'
  assume "core_same s s' \<and> finishes (hist s') = finishes (hist s) @ replicate (length (oOnFinish opts)) (EvFinish \<lparr>fiStepsExhausted = False, fiTotalSteps = length (rSteps s), fiTotalUsage = rTotalUsage s,
        fiFinishReason = (if rSteps s = [] then FinishNone else srFinishReason (last (rSteps s))),
        fiStoppedBy = StopCauseAbort\<rparr>)"
  then show "wp (return_early (Inl err)) Q (\<lambda>_. unwinding opts M) (returned opts M) s'"
    using unwinding_core [OF unw, of s'] assms(1)
    by (auto simp: returned_def unwinding_def run_inv_def core_same_def)
qed simp_all

lemma returned_result:
  assumes inv: "run_inv opts n k s" "k \<le> M" "n \<le> M" and core: "core_same s s'"
    and fin: "finishes (hist s') = finishes (hist s) @ replicate (length (oOnFinish opts)) (EvFinish info)"
    and tr: "txSteps tr = rSteps s" "txTotalUsage tr = rTotalUsage s" and "finish_matches tr info"
  shows "returned opts M (Inr tr) s'"
proof -
  have "unwinding opts M s'" using unwinding_core [OF run_inv_unwinding [OF inv(1,2)] core] .
  with assms show ?thesis by (auto simp: returned_def unwinding_def run_inv_def)
qed

lemma buildTextResult_fields [simp]:
  "txSteps (buildTextResult steps u) = steps" "txTotalUsage (buildTextResult steps u) = u"
  "txStepsExhausted (buildTextResult steps u) = False"
  by (simp_all add: buildTextResult_def)

lemma wp_natural_exit:
  assumes "run_inv opts n k s" "k \<le> M" "n \<le> M"
  shows "wp (natural_exit opts originalLen toolMap r) Q (\<lambda>_. unwinding opts M) (returned opts M) s"
  unfolding natural_exit_def wp_reads_state Let_def
proof (rule wp_seq, rule wp_mono [OF wp_fireOnFinish])
  show "unwinding opts M s'" if "core_same s s'" for s'
    by (rule unwinding_core [OF run_inv_unwinding [OF assms(1,2)] that])
  fix s' assume "core_same s s' \<and> finishes (hist s') = finishes (hist s) @
      replicate (length (oOnFinish opts)) (EvFinish
       \<lparr>fiStepsExhausted = False, fiTotalSteps = length (rSteps s), fiTotalUsage = rTotalUsage s,
        fiFinishReason = txFinishReason ((buildTextResult (rSteps s) (rTotalUsage s))
                \<lparr>txResponseMessages := buildResponseMessages
                   (drop originalLen (gpMessages (rParams s))) (rSteps s) (rLastReasoning s)\<rparr>),
        fiStoppedBy = (if grToolCalls r \<noteq> [] \<and> toolMap = [] then StopCauseNoExecutableTools else StopCauseNatural)\<rparr>)"
  then show "wp (return_early (Inr ((buildTextResult (rSteps s) (rTotalUsage s))
                \<lparr>txResponseMessages := buildResponseMessages
                   (drop originalLen (gpMessages (rParams s))) (rSteps s) (rLastReasoning s)\<rparr>)))
      Q (\<lambda>_. unwinding opts M) (returned opts M) s'"
    by (auto simp: finish_matches_def intro!: returned_result [OF assms])
qed simp_all

lemma finalizeStopCause_cases:
  assumes "finalizeStopCause hookStopped cur steps m = (cause, exhausted)"
    and "cur \<in> {StopCauseUnset, StopCauseBeforeStep, StopCausePredicate}"
  shows "IsValid cause \<and> cause \<noteq> StopCauseAbort \<and> (exhausted \<longleftrightarrow> cause = StopCauseMaxSteps)"
  using assms by (auto simp: finalizeStopCause_def Let_def split: if_splits)

lemma wp_loop_exit:
  assumes "run_inv opts n k s" "k \<le> M" "n \<le> M" "broke \<in> {None, Some StopCauseBeforeStep, Some StopCausePredicate}"
  shows "wp (loop_exit opts originalLen broke) Q (\<lambda>_. unwinding opts M) (returned opts M) s"
proof -
  let ?cur = "case broke of Some c \<Rightarrow> c | None \<Rightarrow> StopCauseUnset"
  obtain cause exhausted where fin: "finalizeStopCause (broke \<noteq> None) ?cur (rSteps s) (oMaxSteps opts) = (cause, exhausted)"
    by fastforce
  have cause: "IsValid cause" "cause \<noteq> StopCauseAbort" "exhausted \<longleftrightarrow> cause = StopCauseMaxSteps"
    using finalizeStopCause_cases [OF fin] assms(4) by auto
  let ?tr = "(buildTextResult (rSteps s) (rTotalUsage s))\<lparr>txStepsExhausted := exhausted,
     txResponseMessages := buildResponseMessages (drop originalLen (gpMessages (rParams s))) (rSteps s) (rLastReasoning s)\<rparr>"
  have "wp (andThen (fireOnFinish opts
          \<lparr>fiStepsExhausted = exhausted, fiTotalSteps = length (rSteps s), fiTotalUsage = rTotalUsage s,
           fiFinishReason = txFinishReason ?tr, fiStoppedBy = cause\<rparr>) (\<lambda>_. return_early (Inr ?tr)))
      Q (\<lambda>_. unwinding opts M) (returned opts M) s"
  proof (rule wp_seq, rule wp_mono [OF wp_fireOnFinish])
    show "unwinding opts M s'" if "core_same s s'" for s'
      by (rule unwinding_core [OF run_inv_unwinding [OF assms(1,2)] that])
    fix s' assume "core_same s s' \<and> finishes (hist s') = finishes (hist s) @
        replicate (length (oOnFinish opts)) (EvFinish
          \<lparr>fiStepsExhausted = exhausted, fiTotalSteps = length (rSteps s), fiTotalUsage = rTotalUsage s,
           fiFinishReason = txFinishReason ?tr, fiStoppedBy = cause\<rparr>)"
    then show "wp (return_early (Inr ?tr)) Q (\<lambda>_. unwinding opts M) (returned opts M) s'"
      using cause by (auto simp: finish_matches_def intro!: returned_result [OF assms(1-3)])
  qed simp_all
  then show ?thesis unfolding loop_exit_def wp_reads_state Let_def fin by simp
qed

section \<open>One iteration and the whole loop\<close>

lemma wp_quiet_inv:
  assumes "quiet_stmt m" "run_inv opts n k s" "k \<le> M"
    and "\<And>x s'. run_inv opts n k s' \<Longrightarrow> wp (f x) Q (\<lambda>_. unwinding opts M) R s'"
  shows "wp (andThen m f) Q (\<lambda>_. unwinding opts M) R s"
proof (rule wp_seq)
  show "wp m (\<lambda>_. run_inv opts n k) (\<lambda>_. unwinding opts M) R s"
    by (rule wp_quiet [OF assms(1)]) (use run_inv_quiet [OF assms(2)] run_inv_unwinding assms(3) in blast)+
qed (rule assms(4))

definition step_post :: "'z gen_options_scheme \<Rightarrow> nat \<Rightarrow> nat \<Rightarrow> StopCause option \<Rightarrow> text_run \<Rightarrow> bool" where
  "step_post opts M n c s \<longleftrightarrow> (case c of
      None \<Rightarrow> run_inv opts (Suc n) (Suc n) s
    | Some cause \<Rightarrow> (\<exists>m \<le> M. run_inv opts m m s) \<and> cause \<in> {StopCauseBeforeStep, StopCausePredicate})"

lemma wp_continue_step:
  assumes inv: "run_inv opts (Suc n) (Suc n) s" and le: "Suc n \<le> M"
  shows "wp (continue_step opts env toolMap (Suc n) r)
     (step_post opts M n) (\<lambda>_. unwinding opts M) (returned opts M) s"
  unfolding continue_step_def wp_andThen [of "modify _"] wp_modify
proof (rule wp_seq, rule wp_run_tools [OF run_inv_params [OF inv]])
  fix ms s' assume "run_inv opts (Suc n) (Suc n) s'"
  then have folded: "run_inv opts (Suc n) (Suc n) (fold_step r ms s')" by (rule run_inv_fold)
  show "wp (andThen (modify (fold_step r ms)) (\<lambda>_. andThen (stop_when opts)
        (\<lambda>stopped. pure (if stopped then Some StopCausePredicate else None))))
      (step_post opts M n) (\<lambda>_. unwinding opts M) (returned opts M) s'"
    unfolding wp_andThen [of "modify _"] wp_modify
    by (rule wp_quiet_inv [OF quiet_stop_when folded le]) (use le in \<open>auto simp: step_post_def\<close>)
qed

lemma wp_answered_step:
  assumes inv: "run_inv opts n (Suc n) s" and le: "Suc n \<le> M"
  shows "wp (answered_step opts env originalLen toolMap (Suc n) r)
     (step_post opts M n) (\<lambda>_. unwinding opts M) (returned opts M) s"
  unfolding answered_step_def
proof (rule wp_seq, rule wp_mono [OF wp_record_step [OF inv le]])
  fix u s1 assume s1: "run_inv opts (Suc n) (Suc n) s1"
  show "wp (reads_state (\<lambda>s. if settled_step (rParams s) toolMap r then natural_exit opts originalLen toolMap r
       else continue_step opts env toolMap (Suc n) r))
     (step_post opts M n) (\<lambda>_. unwinding opts M) (returned opts M) s1"
    unfolding wp_reads_state wp_if
    using wp_natural_exit [OF s1 le le] wp_continue_step [OF s1 le] by auto
qed simp_all

lemma wp_model_returned:
  assumes inv: "run_inv opts n (Suc n) s" and le: "Suc n \<le> M"
  shows "wp (model_returned opts env originalLen toolMap (Suc n) re)
     (step_post opts M n) (\<lambda>_. unwinding opts M) (returned opts M) s"
proof (cases re)
  case (Pair result err)
  show ?thesis
  proof (cases "err = None \<and> result = None")
    case True
    with Pair run_inv_unwinding [OF inv le] show ?thesis by (simp add: model_returned_def)
  next
    case False
    have "wp (andThen (response_hooks opts result err) (\<lambda>_. case err of
            Some e \<Rightarrow> abort_step opts e
          | None \<Rightarrow> answered_step opts env originalLen toolMap (Suc n) (the result)))
        (step_post opts M n) (\<lambda>_. unwinding opts M) (returned opts M) s"
      by (rule wp_quiet_inv [OF quiet_response_hooks inv le])
         (use wp_abort_step wp_answered_step le in \<open>auto split: option.split\<close>)
    with Pair False show ?thesis by (auto simp: model_returned_def simp del: wp_andThen)
  qed
qed

lemma wp_text_step:
  assumes inv: "run_inv opts n n s" and le: "Suc n \<le> M"
  shows "wp (text_step opts env model originalLen toolMap (Suc n))
     (step_post opts M n) (\<lambda>_. unwinding opts M) (returned opts M) s"
  unfolding text_step_def
proof (rule wp_quiet_inv [OF quiet_before_step inv])
  show n: "n \<le> M" using le by simp
  fix stop s1 assume s1: "run_inv opts n n s1"
  have call: "wp (andThen (model_call opts env model (Suc n)) (model_returned opts env originalLen toolMap (Suc n)))
      (step_post opts M n) (\<lambda>_. unwinding opts M) (returned opts M) s2" if "run_inv opts n n s2" for s2
    by (rule wp_seq, rule wp_mono [OF wp_model_call [OF that le]]) (use wp_model_returned le in auto)
  have "wp (andThen (request_hooks opts) (\<lambda>_.
          andThen (model_call opts env model (Suc n)) (model_returned opts env originalLen toolMap (Suc n))))
      (step_post opts M n) (\<lambda>_. unwinding opts M) (returned opts M) s1"
    by (rule wp_quiet_inv [OF quiet_request_hooks s1 n call])
  with s1 n show "wp (if stop then pure (Some StopCauseBeforeStep)
     else andThen (request_hooks opts) (\<lambda>_.
          andThen (model_call opts env model (Suc n)) (model_returned opts env originalLen toolMap (Suc n))))
     (step_post opts M n) (\<lambda>_. unwinding opts M) (returned opts M) s1"
    by (cases stop) (auto simp: step_post_def simp del: wp_andThen)
qed

lemma wp_text_loop:
  assumes "run_inv opts n n s" "n + left \<le> M"
  shows "wp (text_loop opts env model originalLen toolMap left (Suc n))
     (\<lambda>c s. (\<exists>m \<le> M. run_inv opts m m s) \<and> c \<in> {None, Some StopCauseBeforeStep, Some StopCausePredicate})
     (\<lambda>_. unwinding opts M) (returned opts M) s"
  using assms
proof (induction left arbitrary: n s)
  case 0
  then show ?case by auto
next
  case (Suc left)
  have "Suc n \<le> M" using Suc.prems(2) by simp
  show ?case unfolding text_loop.simps
  proof (rule wp_seq, rule wp_text_step [OF Suc.prems(1) \<open>Suc n \<le> M\<close>])
    fix c s1 assume post: "step_post opts M n c s1"
    show "wp (case c of Some cause \<Rightarrow> pure (Some cause)
         | None \<Rightarrow> text_loop opts env model originalLen toolMap left (Suc (Suc n)))
       (\<lambda>c s. (\<exists>m \<le> M. run_inv opts m m s) \<and> c \<in> {None, Some StopCauseBeforeStep, Some StopCausePredicate})
       (\<lambda>_. unwinding opts M) (returned opts M) s1"
    proof (cases c)
      case None
      with post have "run_inv opts (Suc n) (Suc n) s1" by (simp add: step_post_def)
      from Suc.IH [OF this] Suc.prems(2) None show ?thesis by simp
    next
      case (Some cause)
      with post show ?thesis by (auto simp: step_post_def)
    qed
  qed
qed

section \<open>The function\<close>

definition step_bound :: "'z gen_options_scheme \<Rightarrow> nat" where
  "step_bound opts = nat (oMaxSteps opts)"

lemma returned_early:
  assumes "live (oStateRef opts) s" "rInflight s = 0" "finishes (hist s) = []" "model_calls (hist s) = 0"
  shows "returned opts M (Inl err) s"
  using assms by (simp add: returned_def)

lemma wp_generate_body:
  assumes "run_inv opts 0 0 s"
  shows "wp (generate_body opts env) Q (\<lambda>_. unwinding opts (step_bound opts)) (returned opts (step_bound opts)) s"
proof (cases "geModel env")
  case None
  with assms show ?thesis by (simp add: generate_body_def returned_early run_inv_def)
next
  case (Some model)
  let ?M = "step_bound opts" and ?n = "length (gpMessages (buildParams opts))"
  have early: "returned opts ?M (Inl err) s'" if "run_inv opts 0 0 s'" for err s'
    using that by (intro returned_early) (simp_all add: run_inv_def)
  have go: "wp (case buildToolMap (oTools opts) of Inl err \<Rightarrow> return_early (Inl err)
       | Inr toolMap \<Rightarrow> andThen (text_loop opts env model ?n toolMap (nat (oMaxSteps opts)) 1) (loop_exit opts ?n))
     Q (\<lambda>_. unwinding opts ?M) (returned opts ?M) s'" if s': "run_inv opts 0 0 s'" for s'
  proof (cases "buildToolMap (oTools opts)")
    case (Inl err)
    with early [OF s'] show ?thesis by simp
  next
    case (Inr toolMap)
    have "wp (andThen (text_loop opts env model ?n toolMap (nat (oMaxSteps opts)) (Suc 0)) (loop_exit opts ?n))
        Q (\<lambda>_. unwinding opts ?M) (returned opts ?M) s'"
      by (rule wp_seq, rule wp_text_loop [OF s'])
         (auto simp: step_bound_def simp del: wp_andThen intro: wp_loop_exit [where k = "_ :: nat"])
    with Inr show ?thesis by simp
  qed
  have "run_inv opts 0 0 (s\<lparr>rParams := buildParams opts\<rparr>)"
    using run_inv_params [OF assms, of "\<lambda>_. buildParams opts"] by simp
  from go [OF this] Some early [OF assms] show ?thesis
    by (simp add: generate_body_def Let_def)
qed

text \<open>The run once the deferred \<open>StepIdle\<close> is published.\<close>

definition finished_run :: "'z gen_options_scheme \<Rightarrow> nat \<Rightarrow> text_run \<Rightarrow> bool" where
  "finished_run opts M s \<longleftrightarrow>
     model_calls (hist s) \<le> M * budget opts \<and>
     (if oStateRef opts then
        \<exists>front n. states (hist s) = front @ [(StepIdle, n)] \<and> front \<noteq> [] \<and> hd front = (StepStarting, 0) \<and>
          sorted (map snd front @ [n]) \<and> (\<forall>x \<in> set front. fst x \<noteq> StepIdle)
      else states (hist s) = [])"

lemma publish_idle_observe:
  assumes "live (oStateRef opts) s" "model_calls (hist s) \<le> M * budget opts"
  shows "finished_run opts M (publish_idle (oStateRef opts) s)"
    and "finishes (hist (publish_idle (oStateRef opts) s)) = finishes (hist s)"
proof -
  let ?n = "max (length (rSteps s)) (rInflight s)"
  have "sorted (map snd (states (hist s)) @ [?n])" if "oStateRef opts"
    using assms(1) that by (intro sorted_snoc) (auto simp: live_def intro: max.coboundedI2)
  then show "finished_run opts M (publish_idle (oStateRef opts) s)"
    using assms unfolding finished_run_def publish_idle_def live_def by auto
  show "finishes (hist (publish_idle (oStateRef opts) s)) = finishes (hist s)"
    by (simp add: publish_idle_def)
qed

definition result_ok :: "'z gen_options_scheme \<Rightarrow> nat \<Rightarrow> go_error + TextResult \<Rightarrow> event list \<Rightarrow> bool" where
  "result_ok opts M r fs \<longleftrightarrow> (case r of
      Inr tr \<Rightarrow> (\<exists>n \<le> M. map srNumber (txSteps tr) = [1..<Suc n]) \<and>
        txTotalUsage tr = total_usage (map srUsage (txSteps tr)) \<and>
        (\<exists>info. fs = replicate (length (oOnFinish opts)) (EvFinish info) \<and> finish_matches tr info)
    | Inl _ \<Rightarrow> True)"

lemma wp_GenerateText:
  "wp (GenerateText_stmt opts env) (\<lambda>_ _. False) (\<lambda>_ _. False)
     (\<lambda>r s. finished_run opts (step_bound opts) s \<and> result_ok opts (step_bound opts) r (finishes (hist s))) (start_run [])"
proof -
  let ?M = "step_bound opts"
  let ?s0 = "if oStateRef opts then start_run [EvState StepStarting 0] else start_run []"
  have "run_inv opts 0 0 ?s0" by (simp add: run_inv_def start_run_def live_def)
  from wp_generate_body [OF this, of env "\<lambda>_ _. False"]
  have body: "wp (generate_body opts env) (\<lambda>_ _. False) (\<lambda>_. unwinding opts ?M) (returned opts ?M) ?s0" .
  have panic: "finished_run opts ?M (s'\<lparr>hist := hist s' @ panic_events n ph p\<rparr>)"
    if "finished_run opts ?M s'" for s' n ph p
    using that by (simp add: finished_run_def)
  have "wp (generate_body opts env) (\<lambda>_ _. False)
      (\<lambda>p s. finished_run opts ?M (publish_idle (oStateRef opts) s))
      (\<lambda>r s. finished_run opts ?M (publish_idle (oStateRef opts) s) \<and>
         result_ok opts ?M r (finishes (hist (publish_idle (oStateRef opts) s)))) ?s0"
    by (rule wp_mono [OF body])
       (auto simp: unwinding_def returned_def result_ok_def publish_idle_observe split: sum.splits)
  then have "wp (generate_body opts env) (\<lambda>_ _. False)
      (\<lambda>p s. finished_run opts ?M ((publish_idle (oStateRef opts) s)
          \<lparr>hist := hist (publish_idle (oStateRef opts) s) @ panic_events (oOnPanic opts) ''internal'' p\<rparr>))
      (\<lambda>r s. finished_run opts ?M (publish_idle (oStateRef opts) s) \<and>
         result_ok opts ?M r (finishes (hist (publish_idle (oStateRef opts) s)))) ?s0"
    by (rule wp_mono) (use panic in auto)
  moreover have "?s0 = (if oStateRef opts then (start_run [])\<lparr>hist := hist (start_run []) @ [EvState StepStarting 0]\<rparr>
      else start_run [])" by (simp add: start_run_def)
  ultimately show ?thesis
    by (auto simp: GenerateText_stmt_def result_ok_def elim!: wp_mono)
qed

lemma GenerateText_ok:
  assumes "GenerateText opts env = (r, h)"
  obtains s where "GenerateText_stmt opts env (start_run []) = (Returns r, s)" "h = hist s"
    "finished_run opts (step_bound opts) s" "result_ok opts (step_bound opts) r (finishes h)"
proof (cases "GenerateText_stmt opts env (start_run [])")
  case (Pair out s)
  with wp_GenerateText [of opts env] assms that show ?thesis
    by (auto simp: wp_def GenerateText_def split: outcome.splits)
qed

section \<open>A sample run\<close>

definition sample_options :: gen_options where
  "sample_options = \<lparr>oSystem = [], oPrompt = ''hi'', oMessages = [], oTools = [example_tool ''f''],
     oMaxOutputTokens = 0, oTemperature = None, oTopP = None, oTopK = None, oFrequencyPenalty = None,
     oPresencePenalty = None, oSeed = None, oStopSequences = [], oHeaders = [], oProviderOptions = [],
     oPromptCaching = False, oCacheTTL = [], oToolChoice = ''auto'',
     oMaxSteps = 3, oSequentialTools = False, oMaxRetries = 2, oOnStepFinish = [],
     oOnFinish = [\<lambda>_ _. Inr ()], oOnRequest = [], oOnResponse = [], oOnToolCall = [], oOnToolCallStart = [],
     oOnBeforeToolExecute = None, oOnAfterToolExecute = None, oOnBeforeStep = None, oOnPanic = 1,
     oRetryObserver = None, oStopWhen = None, oStateRef = True\<rparr>"

text \<open>A model that asks for one tool call and then answers.\<close>

definition sample_model :: "(GenerateParams, GenerateResult option \<times> go_error option) hook" where
  "sample_model h params = Inr (Some
     (if list_ex (\<lambda>m. mRole m = RoleTool) (gpMessages params)
      then zero_Result\<lparr>grText := ''done'', grFinishReason := FinishStop\<rparr>
      else zero_Result\<lparr>grToolCalls := [example_call ''1'' ''f''], grFinishReason := FinishOther\<rparr>), None)"

definition sample_env :: gen_env where
  "sample_env = \<lparr>geModel = Some sample_model,
     geRetry = \<lparr>jitter_ms = \<lambda>_ b. 1000 * int b, until = \<lambda>_ _. None, sleep_for = \<lambda>_ _. None\<rparr>,
     geSchedule = \<lambda>_. [], geContext = no_context, geUnmarshal = \<lambda>_. None\<rparr>"

section \<open>Properties\<close>

text \<open>
  C26: \<open>GenerateText\<close> always returns: for every model, every set of hooks and tools, panicking or not,
  and every schedule, the run ends with a result or an error; no panic escapes to the caller.
\<close>

theorem GenerateText_returns:
  "\<exists>r s. GenerateText_stmt opts env (start_run []) = (Returns r, s) \<and> GenerateText opts env = (r, hist s)"
proof -
  obtain r h where run: "GenerateText opts env = (r, h)" by fastforce
  from GenerateText_ok [OF run] run show ?thesis by metis
qed

text \<open>
  C25: bounded work: one call of \<open>GenerateText\<close> sends at most \<open>MaxSteps * (MaxRetries + 1)\<close> requests to
  the model, whatever the model and the hooks do.
\<close>

theorem GenerateText_model_calls:
  "model_calls (snd (GenerateText opts env)) \<le> nat (oMaxSteps opts) * (nat (oMaxRetries opts) + 1)"
proof -
  obtain r h where run: "GenerateText opts env = (r, h)" by fastforce
  from GenerateText_ok [OF run] run show ?thesis
    by (metis finished_run_def budget_def step_bound_def snd_conv)
qed

text \<open>
  C7: the published life cycle: with a \<open>StateRef\<close>, a run publishes \<open>(StepStarting, 0)\<close> first and
  \<open>StepIdle\<close> exactly once, last, on every way out (result, error, panicking hook), and the step
  number a poller sees never decreases.
\<close>

theorem GenerateText_states:
  assumes "oStateRef opts"
  shows "\<exists>front n. states (snd (GenerateText opts env)) = front @ [(StepIdle, n)] \<and>
    front \<noteq> [] \<and> hd front = (StepStarting, 0) \<and> sorted (map snd front @ [n]) \<and> StepIdle \<notin> fst ` set front"
proof -
  obtain r h where run: "GenerateText opts env = (r, h)" by fastforce
  from GenerateText_ok [OF run] obtain s where "h = hist s" "finished_run opts (step_bound opts) s" by blast
  with run assms show ?thesis by (fastforce simp: finished_run_def)
qed

lemma GenerateText_states_witness:
  "\<exists>front n. states (snd (GenerateText sample_options sample_env)) = front @ [(StepIdle, n)]"
proof -
  have "oStateRef sample_options" by (simp add: sample_options_def)
  from GenerateText_states [OF this, of sample_env] show ?thesis by blast
qed

text \<open>
  C8: \<open>OnFinish\<close> fires exactly once per registered hook on every successful return, with the totals of
  the returned result and a valid stop cause; \<open>StepsExhausted\<close> is set if and only if the cause is
  \<open>StopCauseMaxSteps\<close>.
\<close>

theorem GenerateText_finish:
  "case GenerateText opts env of
     (Inr tr, h) \<Rightarrow> \<exists>info. finishes h = replicate (length (oOnFinish opts)) (EvFinish info) \<and> finish_matches tr info
   | (Inl err, h) \<Rightarrow> True"
proof -
  obtain r h where run: "GenerateText opts env = (r, h)" by fastforce
  from GenerateText_ok [OF run] have "result_ok opts (step_bound opts) r (finishes h)" by blast
  with run show ?thesis by (auto simp: result_ok_def split: sum.splits)
qed

text \<open>
  C11: the steps of a result are numbered from 1 without gaps, there are at most \<open>MaxSteps\<close> of them, and
  \<open>TotalUsage\<close> is the sum of their usages.
\<close>

theorem GenerateText_steps:
  "case fst (GenerateText opts env) of
     Inr tr \<Rightarrow> length (txSteps tr) \<le> nat (oMaxSteps opts) \<and>
       map srNumber (txSteps tr) = [1..<Suc (length (txSteps tr))] \<and>
       txTotalUsage tr = total_usage (map srUsage (txSteps tr))
   | Inl err \<Rightarrow> True"
proof -
  obtain r h where run: "GenerateText opts env = (r, h)" by fastforce
  have len: "length xs = n" if "map srNumber xs = [1..<Suc n]" for xs n
    using arg_cong [OF that, of length] by (simp del: upt_Suc)
  from GenerateText_ok [OF run] have "result_ok opts (step_bound opts) r (finishes h)" by blast
  with run len show ?thesis
    by (auto simp: result_ok_def step_bound_def simp del: upt_Suc split: sum.splits)
qed

text \<open>
  The model ran a tool of its own and was cut off by \<open>MaxSteps\<close>: the step has no client tool call, so
  \<open>buildResponseMessages\<close> takes it for a natural end and appends its assistant message once more.
\<close>

definition server_tool_options :: gen_options where
  "server_tool_options = sample_options\<lparr>oMaxSteps := 1,
     oTools := [(example_tool ''web_search'')\<lparr>tlProviderDefinedType := ''openrouter:web_search'', tlExecute := None\<rparr>]\<rparr>"

definition server_tool_env :: gen_env where
  "server_tool_env = sample_env\<lparr>geModel := Some (\<lambda>_ _. Inr (Some
     (zero_Result\<lparr>grText := ''searching'', grFinishReason := FinishToolCalls\<rparr>), None))\<rparr>"

text \<open>
  A step whose tools the provider ran itself is duplicated in the transcript when the loop ends right
  after it (here by \<open>MaxSteps\<close>): \<open>ResponseMessages\<close> holds its assistant message twice.
\<close>

lemma server_tool_step_duplicated:
  "map_sum id txResponseMessages (fst (GenerateText server_tool_options server_tool_env)) =
     Inr [AssistantMessage ''searching'', AssistantMessage ''searching'']"
  by code_simp

end
