(* ===== verification/StreamLoopFacts.thy ===== *)
theory StreamLoopFacts
  imports StreamLoop ConsumeFacts ToolLoopFacts
begin

text \<open>
  Properties of streaming generation: the goroutine closes every stream with a final chunk, and the
  steps its reader rebuilds are the steps of the loop.
\<close>

section \<open>Statements that leave the loop's records alone\<close>

definition same_records :: "stream_run \<Rightarrow> stream_run \<Rightarrow> bool" where
  "same_records s s' \<longleftrightarrow> rSteps s' = rSteps s \<and> rTotalUsage s' = rTotalUsage s \<and> lOut s' = lOut s \<and>
     lLastFinishReason s' = lLastFinishReason s"

lemma same_records_refl [simp]: "same_records s s"
  by (simp add: same_records_def)

lemma same_records_trans: "same_records s s' \<Longrightarrow> same_records s' s'' \<Longrightarrow> same_records s s''"
  by (simp add: same_records_def)

lemma same_records_updates [simp]:
  "same_records s (hist_update f s)" "same_records s (rParams_update g s)" "same_records s (rInflight_update k s)"
  by (simp_all add: same_records_def)

definition keeps :: "(stream_run, 'r, 'a) stmt \<Rightarrow> bool" where
  "keeps m \<longleftrightarrow> (\<forall>s. wp m (\<lambda>_. same_records s) (\<lambda>_. same_records s) (\<lambda>_ _. False) s)"

lemma wp_keeps: "keeps m \<Longrightarrow> wp m (\<lambda>_. same_records s) (\<lambda>_. same_records s) (\<lambda>_ _. False) s"
  by (simp add: keeps_def)

lemma keepsI: "(\<And>s. wp m (\<lambda>_. same_records s) (\<lambda>_. same_records s) (\<lambda>_ _. False) s) \<Longrightarrow> keeps m"
  by (simp add: keeps_def)

lemma keeps_andThen [intro]: "keeps m \<Longrightarrow> (\<And>x. keeps (f x)) \<Longrightarrow> keeps (andThen m f)"
proof (rule keepsI, simp, rule wp_mono [OF wp_keeps])
  fix s x s' assume "\<And>x. keeps (f x)" "same_records s s'"
  then show "wp (f x) (\<lambda>_. same_records s) (\<lambda>_. same_records s) (\<lambda>_ _. False) s'"
    by (intro wp_mono [OF wp_keeps]) (auto intro: same_records_trans)
qed auto

lemma keeps_pure [simp, intro]: "keeps (pure x)"
  by (simp add: keeps_def)

lemma keeps_panics [simp, intro]: "keeps (go_panics x)"
  by (simp add: keeps_def)

lemma keeps_reads [intro]: "(\<And>s. keeps (f s)) \<Longrightarrow> keeps (reads_state f)"
  by (simp add: keeps_def)

lemma keeps_modify: "(\<And>s. same_records s (f s)) \<Longrightarrow> keeps (modify f)"
  by (simp add: keeps_def)

lemma keeps_log [intro]: "keeps (log_event ev)"
  by (simp add: keeps_def)

lemma keeps_invoke [intro]: "keeps (invoke ev f i)"
  by (simp add: keeps_def split: sum.split)

lemma keeps_callHook [intro]: "keeps m \<Longrightarrow> keeps (callHook n ph m)"
  by (rule keepsI, simp, rule wp_mono [OF wp_keeps]) (auto intro: same_records_trans)

lemma keeps_for_each [intro]: "(\<And>x. keeps (f x)) \<Longrightarrow> keeps (for_each f xs)"
  by (induction xs) auto

lemma keeps_call_hooks [intro]: "keeps (call_hooks n ph ev fs i)"
  unfolding call_hooks_def by blast

lemma keeps_announce [intro]: "keeps (announce ref k n)"
  by (simp add: announce_def keeps_log)

lemma keeps_before_step: "keeps (before_step opts step)"
  unfolding before_step_def Let_def
  by (cases "oOnBeforeStep opts") (auto intro!: keeps_reads keeps_andThen keeps_modify)

lemma keeps_request_hooks: "keeps (request_hooks opts)"
  unfolding request_hooks_def Let_def by blast

lemma keeps_failed_response: "keeps (failed_response opts e)"
  unfolding failed_response_def Let_def by blast

lemma keeps_succeeded_response: "keeps (succeeded_response opts ds)"
  unfolding succeeded_response_def Let_def by blast

lemma keeps_fireOnFinish: "keeps (fireOnFinish opts info)"
  unfolding fireOnFinish_def by blast

lemma keeps_fire_abort: "keeps (fire_abort opts)"
  unfolding fire_abort_def by (blast intro: keeps_fireOnFinish)

lemma keeps_stop_when: "keeps (stop_when opts)"
  unfolding stop_when_def stopSafe_def by (cases "oStopWhen opts") auto

text \<open>Opening a stream: the records are kept and what comes back is something the model returned.\<close>

definition model_stream :: "(GenerateParams, StreamChunk list option \<times> go_error option) hook \<Rightarrow>
    StreamChunk list option \<Rightarrow> bool" where
  "model_stream model result \<longleftrightarrow> (\<forall>cs. result = Some cs \<longrightarrow> (\<exists>h p e. model h p = Inr (Some cs, e)))"

definition stream_attempt :: "(GenerateParams, StreamChunk list option \<times> go_error option) hook \<Rightarrow>
    (stream_run, 'r, StreamChunk list option \<times> go_error option) stmt" where
  "stream_attempt model = reads_state (\<lambda>s. invoke (EvGenerate (rParams s)) model (rParams s))"

lemma wp_stream_attempt:
  "wp (stream_attempt model) (\<lambda>r s'. same_records s s' \<and> model_stream model (fst r)) (\<lambda>_. same_records s) (\<lambda>_ _. False) s"
  by (force simp: stream_attempt_def model_stream_def split: sum.split)

lemma wp_stream_retry:
  assumes "model_stream model (fst r)"
  shows "wp (retry_loop re observer None (stream_attempt model) left a r)
     (\<lambda>(_, r) s'. same_records s s' \<and> model_stream model (fst r)) (\<lambda>_. same_records s)
     (\<lambda>r s'. same_records s s' \<and> model_stream model (fst r)) s"
  using assms
proof (induction left arbitrary: a r s)
  case (Suc left)
  let ?Q = "\<lambda>s. \<lambda>(_ :: nat, r :: StreamChunk list option \<times> go_error option) s'. same_records s s' \<and> model_stream model (fst r)"
  let ?R = "\<lambda>s r s'. same_records s s' \<and> model_stream model (fst r)"
  have again: "wp (andThen (stream_attempt model) (retry_loop re observer None (stream_attempt model) left (Suc a)))
      (?Q s) (\<lambda>_. same_records s) (?R s) s1" if "same_records s s1" for s s1
  proof (rule wp_seq)
    show "wp (stream_attempt model) (?R s) (\<lambda>_. same_records s) (?R s) s1"
      by (rule wp_mono [OF wp_stream_attempt]) (use that in \<open>auto intro: same_records_trans\<close>)
    show "wp (retry_loop re observer None (stream_attempt model) left (Suc a) x) (?Q s) (\<lambda>_. same_records s) (?R s) s2"
      if "?R s x s2" for x s2
      by (rule wp_mono [OF Suc.IH]) (use that in \<open>auto intro: same_records_trans\<close>)
  qed
  have none: "model_stream model None" by (simp add: model_stream_def)
  show ?case
  proof (cases "snd r")
    case None
    with Suc.prems show ?thesis by simp
  next
    case (Some err)
    with Suc.prems none again [of s] show ?thesis
      by (auto simp: Let_def simp del: wp_andThen split: option.split sum.split)
         (auto split: option.split sum.split)
  qed
qed simp

lemma wp_open_stream:
  "wp (open_stream opts env model) (\<lambda>r s'. same_records s s' \<and> model_stream model (fst r)) (\<lambda>_. same_records s)
     (\<lambda>_ _. False) s"
  unfolding open_stream_def withRetry_def wp_call_body stream_attempt_def [symmetric]
proof (rule wp_seq)
  show "wp (stream_attempt model) (\<lambda>r s'. same_records s s' \<and> model_stream model (fst r)) (\<lambda>_. same_records s)
      (\<lambda>r s'. same_records s s' \<and> model_stream model (fst r)) s"
    by (rule wp_mono [OF wp_stream_attempt]) auto
next
  fix x :: "StreamChunk list option \<times> go_error option" and s1
  assume x: "same_records s s1 \<and> model_stream model (fst x)"
  show "wp (andThen (retry_loop (seRetry env) (oRetryObserver opts) None (stream_attempt model) (nat (oMaxRetries opts)) 0 x)
       (\<lambda>(attempt, result, err). case err of None \<Rightarrow> pure (result, None)
         | Some e \<Rightarrow> if int attempt = oMaxRetries opts \<and> 0 < oMaxRetries opts \<and> retryable (Some e)
             then pure (result, Some (retries_exhausted (oMaxRetries opts) e)) else pure (result, Some e)))
     (\<lambda>r s'. same_records s s' \<and> model_stream model (fst r)) (\<lambda>_. same_records s)
     (\<lambda>r s'. same_records s s' \<and> model_stream model (fst r)) s1"
  proof (rule wp_seq, rule wp_mono [OF wp_stream_retry])
    show "model_stream model (fst x)" using x by simp
  qed (use x in \<open>auto intro: same_records_trans split: prod.splits option.splits\<close>)
qed


section \<open>The reader behind the channel\<close>

text \<open>What the reader has accumulated from the chunks sent so far.\<close>

definition reader :: "stream_run \<Rightarrow> text_stream" where
  "reader s = foldl consume_chunk (newTextStream []) (skSent (lOut s))"

lemma reader_same: "same_records s s' \<Longrightarrow> reader s' = reader s"
  by (simp add: reader_def same_records_def)

text \<open>A step as the reader sees it: the finish reason normalised, without the sources.\<close>

definition unsourced :: "StepResult \<Rightarrow> StepResult" where
  "unsourced s = s\<lparr>srSources := []\<rparr>"

definition mirrored :: "StepResult \<Rightarrow> StepResult" where
  "mirrored s = unsourced (s\<lparr>srFinishReason := normal_finish (srToolCalls s) (srFinishReason s)\<rparr>)"

definition synced :: "nat \<Rightarrow> stream_run \<Rightarrow> bool" where
  "synced n s \<longleftrightarrow> open_sink (lOut s) \<and> length (rSteps s) = n \<and> fresh_step (reader s) \<and>
     tsCurrentStep (reader s) = n \<and> map unsourced (tsSteps (reader s)) = map mirrored (rSteps s) \<and>
     tsUsage (reader s) = rTotalUsage s"

definition failed :: "stream_run \<Rightarrow> bool" where
  "failed s \<longleftrightarrow> open_sink (lOut s) \<and> tsStreamErr (reader s) \<noteq> None \<and>
     (\<exists>front fin. skSent (lOut s) = front @ [fin] \<and> scType fin = ChunkFinish \<and> IsValid (scStoppedBy fin))"

abbreviation usable :: "stream_run \<Rightarrow> bool" where "usable s \<equiv> open_sink (lOut s)"

lemma synced_same: "synced n s \<Longrightarrow> same_records s s' \<Longrightarrow> synced n s'"
  by (simp add: synced_def reader_same) (simp add: same_records_def)

lemma failed_same: "failed s \<Longrightarrow> same_records s s' \<Longrightarrow> failed s'"
  by (simp add: failed_def reader_same) (simp add: same_records_def)

lemma usable_same: "usable s \<Longrightarrow> same_records s s' \<Longrightarrow> usable s'"
  by (simp add: same_records_def)

lemma wp_send [simp]:
  "usable s \<Longrightarrow> wp (send c) Q E R s =
     Q () (s\<lparr>lOut := (lOut s)\<lparr>skTried := Suc (skTried (lOut s)), skSent := skSent (lOut s) @ [c]\<rparr>\<rparr>)"
  by (simp add: send_def)

lemma reader_send [simp]:
  "reader (s\<lparr>lOut := (lOut s)\<lparr>skTried := k, skSent := skSent (lOut s) @ cs\<rparr>\<rparr>) = foldl consume_chunk (reader s) cs"
  by (simp add: reader_def)

lemma stream_err_sticky: "tsStreamErr ts \<noteq> None \<Longrightarrow> tsStreamErr (consume_chunk ts c) \<noteq> None"
proof (cases "scType c")
  case ChunkStepFinish
  assume "tsStreamErr ts \<noteq> None"
  with ChunkStepFinish show ?thesis
    by (auto simp: consume_chunk_type backfill_results_def goai_boundary_def provider_boundary_def
        add_sources_def Let_def split: option.split prod.split)
qed (auto simp: consume_chunk_type add_sources_def final_chunk_def Let_def)

lemma stream_err_stays: "tsStreamErr ts \<noteq> None \<Longrightarrow> tsStreamErr (foldl consume_chunk ts cs) \<noteq> None"
  by (induction cs arbitrary: ts) (use stream_err_sticky in auto)

lemma stream_err_set: "c \<in> set cs \<Longrightarrow> scType c = ChunkError \<Longrightarrow> scError c \<noteq> None \<Longrightarrow>
    tsStreamErr (foldl consume_chunk ts cs) \<noteq> None"
proof (induction cs arbitrary: ts)
  case (Cons d cs)
  show ?case
  proof (cases "c = d")
    case True
    then have "tsStreamErr (consume_chunk ts d) \<noteq> None"
      using Cons.prems by (simp add: consume_chunk_type)
    then show ?thesis by (simp add: stream_err_stays)
  qed (use Cons in auto)
qed simp

lemma error_chunk_simps [simp]:
  "scType (error_chunk e) = ChunkError" "scError (error_chunk e) = Some e"
  "scType (abort_chunk r u) = ChunkFinish" "scStoppedBy (abort_chunk r u) = StopCauseAbort"
  by (simp_all add: error_chunk_def abort_chunk_def)

lemma last_or_member: "last_or None f xs = Some e \<Longrightarrow> \<exists>x\<in>set xs. f x = Some e"
  by (auto simp: last_or_def split: if_splits)

section \<open>The failing exits\<close>

lemma failed_after_abort:
  assumes "usable s" "tsStreamErr (reader s) \<noteq> None"
  shows "failed (s\<lparr>lOut := (lOut s)\<lparr>skTried := k, skSent := skSent (lOut s) @ [abort_chunk r u]\<rparr>\<rparr>)"
  using assms stream_err_stays [OF assms(2), of "[abort_chunk r u]"] by (simp add: failed_def)

definition abort_sequence :: "'z gen_options_scheme \<Rightarrow> (stream_run \<Rightarrow> FinishReason) \<Rightarrow> 'a stream_stmt" where
  "abort_sequence opts reason =
     andThen (reads_state (\<lambda>s. send (abort_chunk (reason s) (rTotalUsage s)))) (\<lambda>_.
     andThen (fire_abort opts) (\<lambda>_. return_early ()))"

lemma failed_usable: "failed s \<Longrightarrow> usable s"
  by (simp add: failed_def)

lemma wp_abort_sequence:
  assumes "usable s" "tsStreamErr (reader s) \<noteq> None"
  shows "wp (abort_sequence opts reason) Q (\<lambda>_. usable) (\<lambda>_. failed) s"
  unfolding abort_sequence_def
proof (rule wp_seq [where P = "\<lambda>_. failed"])
  show "wp (reads_state (\<lambda>s. send (abort_chunk (reason s) (rTotalUsage s)))) (\<lambda>_. failed) (\<lambda>_. usable) (\<lambda>_. failed) s"
    using failed_after_abort [OF assms] assms(1) by simp
  show "wp (andThen (fire_abort opts) (\<lambda>_. return_early ())) Q (\<lambda>_. usable) (\<lambda>_. failed) s'" if "failed s'" for s'
    by (rule wp_seq, rule wp_mono [OF wp_keeps [OF keeps_fire_abort]])
       (use that failed_same failed_usable in auto)
qed

lemma reader_error:
  "usable s \<Longrightarrow> tsStreamErr (reader (s\<lparr>lOut := (lOut s)\<lparr>skTried := k, skSent := skSent (lOut s) @ [error_chunk e]\<rparr>\<rparr>)) \<noteq> None"
  using stream_err_set [of "error_chunk e" "[error_chunk e]" "reader s"] by simp

lemma wp_open_failed:
  assumes "usable s"
  shows "wp (open_failed opts err) Q (\<lambda>_. usable) (\<lambda>_. failed) s"
  unfolding open_failed_def abort_sequence_def [symmetric]
proof (rule wp_seq, rule wp_mono [OF wp_keeps [OF keeps_failed_response]])
  fix s1 assume "same_records s s1"
  then have s1: "usable s1" using assms usable_same by blast
  show "wp (andThen (send (error_chunk err)) (\<lambda>_. abort_sequence opts lLastFinishReason)) Q (\<lambda>_. usable) (\<lambda>_. failed) s1"
    by (rule wp_seq [where P = "\<lambda>_ s. usable s \<and> tsStreamErr (reader s) \<noteq> None"])
       (use s1 reader_error [OF s1] in \<open>auto intro!: wp_abort_sequence\<close>)
qed (use assms usable_same in auto)


section \<open>One step\<close>

text \<open>The reader has received the forwarded chunks of the step with result \<open>ds\<close>.\<close>

definition stepping :: "nat \<Rightarrow> drainResult \<Rightarrow> stream_run \<Rightarrow> bool" where
  "stepping n ds s \<longleftrightarrow> usable s \<and> length (rSteps s) = n \<and>
     tsStepText (reader s) = drText ds \<and> tsStepToolCalls (reader s) = drToolCalls ds \<and>
     reasoning_ok (tsReasoning (reader s)) \<and> reasoning_so_far (tsReasoning (reader s)) = drReasoningText ds \<and>
     tsCurrentStep (reader s) = n \<and> map unsourced (tsSteps (reader s)) = map mirrored (rSteps s) \<and>
     tsUsage (reader s) = rTotalUsage s"

definition rebuilt :: "stream_run \<Rightarrow> bool" where
  "rebuilt s \<longleftrightarrow> usable s \<and> map unsourced (tsSteps (reader s)) = map mirrored (rSteps s) \<and>
     tsUsage (reader s) = rTotalUsage s"

lemma synced_rebuilt: "synced n s \<Longrightarrow> rebuilt s"
  by (simp add: synced_def rebuilt_def)

lemma stepping_rebuilt: "stepping n ds s \<Longrightarrow> rebuilt s"
  by (simp add: stepping_def rebuilt_def)

lemma stepping_same: "stepping n ds s \<Longrightarrow> same_records s s' \<Longrightarrow> stepping n ds s'"
  by (simp add: stepping_def reader_same) (simp add: same_records_def)

lemma rebuilt_same: "rebuilt s \<Longrightarrow> same_records s s' \<Longrightarrow> rebuilt s'"
  by (simp add: rebuilt_def reader_same) (simp add: same_records_def)

lemma drain_stepping:
  assumes "synced n s" "\<forall>c\<in>set source. untagged c" "drainStep source (lOut s) = (ds, out)"
  shows "stepping n ds (s\<lparr>lOut := out\<rparr>)"
    and "drErr ds \<noteq> None \<Longrightarrow> tsStreamErr (reader (s\<lparr>lOut := out\<rparr>)) \<noteq> None"
proof -
  let ?cs = "filter not_final source"
  have open_: "open_sink (lOut s)" and fresh: "fresh_step (reader s)" using assms(1) by (simp_all add: synced_def)
  have out: "ds = drain_finish (drained source)"
      "out = (lOut s)\<lparr>skTried := skTried (lOut s) + length ?cs, skSent := skSent (lOut s) @ ?cs\<rparr>"
    using assms(3) open_ by (simp_all add: drainStep_def drain_loop_open drained_def)
  have view: "step_view ?cs (reader s) (foldl consume_chunk (reader s) ?cs)"
    by (rule consume_provider_chunks [OF fresh]) (use assms(2) in auto)
  have reader: "reader (s\<lparr>lOut := out\<rparr>) = foldl consume_chunk (reader s) ?cs"
    by (simp add: out(2))
  have ds: "drText ds = concat (map scText (of_type ChunkText ?cs))"
      "drToolCalls ds = map chunk_tool_call (of_type ChunkToolCall ?cs)"
      "drReasoningText ds = concat (map scText (of_type ChunkReasoning ?cs))"
    unfolding out(1) by (simp_all add: of_type_not_final drained_text drained_calls drained_reasoning)
  have "usable (s\<lparr>lOut := out\<rparr>)" using open_ by (simp add: out(2))
  then show "stepping n ds (s\<lparr>lOut := out\<rparr>)"
    using view assms(1) unfolding stepping_def synced_def step_view_def reader ds
    by (simp del: of_type_simps)
  assume "drErr ds \<noteq> None"
  then obtain e where e: "last_or None scError (of_type ChunkError source) = Some e"
    unfolding out(1) by (auto simp: drained_err)
  from last_or_member [OF e] obtain c where "c \<in> set (of_type ChunkError source)" "scError c = Some e"
    by (elim bexE)
  then have "c \<in> set ?cs" "scType c = ChunkError" "scError c \<noteq> None" by (auto simp: of_type_def)
  from stream_err_set [OF this, of "reader s"] show "tsStreamErr (reader (s\<lparr>lOut := out\<rparr>)) \<noteq> None"
    by (simp add: out(2))
qed

lemma step_chunk_simps [simp]:
  "scType (step_chunk ds) = ChunkStepFinish" "goai_chunk (step_chunk ds)" "\<not> results_chunk (step_chunk ds)"
  "metadata_providers (step_chunk ds) pm = drProviderMetadata ds"
  "scContent (step_chunk ds) = drContent ds" "scUsage (step_chunk ds) = drUsage ds"
  "scResponse (step_chunk ds) = drResponse ds"
  "scFinishReason (step_chunk ds) = normal_finish (drToolCalls ds) (drFinishReason ds)"
  by (simp_all add: step_chunk_def goai_chunk_def results_chunk_def metadata_providers_def get_metamap_def get_str_def)

lemma finish_reasoning_fresh:
  "reasoning_ok a \<Longrightarrow> reasoning_ok (snd (finish_reasoning a)) \<and> reasoning_so_far (snd (finish_reasoning a)) = []"
  by (auto simp: finish_reasoning_def flush_reasoning_def reasoning_ok_def reasoning_so_far_def reasoningText_def
      Let_def split: option.split)

lemma stepping_boundary:
  assumes "stepping n ds s"
  shows "fresh_step (consume_chunk (reader s) (step_chunk ds))"
    "tsCurrentStep (consume_chunk (reader s) (step_chunk ds)) = Suc n"
    "map unsourced (tsSteps (consume_chunk (reader s) (step_chunk ds))) =
       map mirrored (rSteps s @ [drained_step_result (Suc n) ds])"
    "tsUsage (consume_chunk (reader s) (step_chunk ds)) = addUsage (rTotalUsage s) (drUsage ds)"
proof -
  obtain parts rest where fin: "finish_reasoning (tsReasoning (reader s)) = (parts, rest)" by fastforce
  have "reasoningText parts = drReasoningText ds" "reasoning_ok rest" "reasoning_so_far rest = []"
    using assms finish_reasoning_text [of "tsReasoning (reader s)"] finish_reasoning_fresh [of "tsReasoning (reader s)"] fin
    by (simp_all add: stepping_def)
  with assms fin show "fresh_step (consume_chunk (reader s) (step_chunk ds))"
    "tsCurrentStep (consume_chunk (reader s) (step_chunk ds)) = Suc n"
    "map unsourced (tsSteps (consume_chunk (reader s) (step_chunk ds))) =
       map mirrored (rSteps s @ [drained_step_result (Suc n) ds])"
    "tsUsage (consume_chunk (reader s) (step_chunk ds)) = addUsage (rTotalUsage s) (drUsage ds)"
    by (simp_all add: consume_chunk_type goai_boundary_def Let_def stepping_def fresh_step_def
        unsourced_def mirrored_def drained_step_result_def)
qed

text \<open>The loop has recorded the step; the boundary chunk is still to be sent.\<close>

definition recorded :: "nat \<Rightarrow> drainResult \<Rightarrow> stream_run \<Rightarrow> bool" where
  "recorded n ds s \<longleftrightarrow> (\<exists>s0. stepping n ds s0 \<and> lOut s = lOut s0 \<and>
     rSteps s = rSteps s0 @ [drained_step_result (Suc n) ds] \<and> rTotalUsage s = addUsage (rTotalUsage s0) (drUsage ds))"

lemma recorded_same: "recorded n ds s \<Longrightarrow> same_records s s' \<Longrightarrow> recorded n ds s'"
  unfolding recorded_def same_records_def by metis

lemma recorded_usable: "recorded n ds s \<Longrightarrow> usable s"
  by (auto simp: recorded_def stepping_def)

lemma recorded_synced:
  assumes "recorded n ds s"
  shows "synced (Suc n) (s\<lparr>lLastFinishReason := r, lOut := (lOut s)\<lparr>skTried := k, skSent := skSent (lOut s) @ [step_chunk ds]\<rparr>\<rparr>)"
proof -
  obtain s0 where s0: "stepping n ds s0" "lOut s = lOut s0"
     "rSteps s = rSteps s0 @ [drained_step_result (Suc n) ds]" "rTotalUsage s = addUsage (rTotalUsage s0) (drUsage ds)"
    using assms by (auto simp: recorded_def)
  from stepping_boundary [OF s0(1)] s0(1) show ?thesis
    by (simp add: synced_def s0 reader_def stepping_def)
qed

lemma wp_keeps_inv:
  assumes "keeps m" "I s" "\<And>s s'. I s \<Longrightarrow> same_records s s' \<Longrightarrow> I s'" "\<And>s. I s \<Longrightarrow> usable s"
  shows "wp m (\<lambda>_. I) (\<lambda>_. usable) R s"
  by (rule wp_mono [OF wp_keeps [OF assms(1)]]) (use assms in blast)+

definition publish_step :: "drainResult \<Rightarrow> unit stream_stmt" where
  "publish_step ds =
     andThen (modify (lLastFinishReason_update (\<lambda>_. normal_finish (drToolCalls ds) (drFinishReason ds))))
       (\<lambda>_. send (step_chunk ds))"

lemma wp_publish_step: "recorded n ds s \<Longrightarrow> wp (publish_step ds) (\<lambda>_. synced (Suc n)) E R s"
  using recorded_synced recorded_usable by (simp add: publish_step_def)

lemma wp_emit_step:
  assumes "stepping n ds s"
  shows "wp (emit_step opts (Suc n) ds) (\<lambda>_. synced (Suc n)) (\<lambda>_. usable) R s"
proof -
  have use: "stepping n ds s \<Longrightarrow> usable s" for s by (simp add: stepping_def)
  have rec: "recorded n ds (record_drained (Suc n) ds s1)" if "stepping n ds s1" for s1
    unfolding recorded_def using that by (intro exI [of _ s1]) (simp add: record_drained_def)
  show ?thesis
    unfolding emit_step_def publish_step_def [symmetric]
    apply (rule wp_seq, rule wp_keeps_inv [OF keeps_succeeded_response, where I = "stepping n ds"])
       apply (rule assms)
      apply (erule (1) stepping_same)
     apply (erule use)
    apply (rule wp_seq [where P = "\<lambda>_. recorded n ds"])
     apply (simp add: rec)
    apply (rule wp_seq, rule wp_keeps_inv [OF keeps_announce, where I = "recorded n ds"])
       apply assumption
      apply (erule (1) recorded_same)
     apply (erule recorded_usable)
    apply (rule wp_seq, rule wp_keeps_inv [OF keeps_call_hooks, where I = "recorded n ds"])
       apply assumption
      apply (erule (1) recorded_same)
     apply (erule recorded_usable)
    apply (erule wp_publish_step)
    done
qed


lemma set_last_results_mirrored:
  assumes "map unsourced ts = map mirrored ss" "ss \<noteq> []"
  shows "map unsourced (set_last_results rs ts) = map mirrored (set_last_results rs ss)"
proof -
  from assms obtain ts' t ss' s where "ts = ts' @ [t]" "ss = ss' @ [s]"
    by (metis list.map_disc_iff rev_exhaust)
  with assms show ?thesis
    by (cases t, cases s) (simp add: set_last_results_def unsourced_def mirrored_def)
qed

lemma results_of_simps [simp]:
  "scType (results_of rs) = ChunkStepFinish" "results_chunk (results_of rs)"
  "get_tool_results (scMetadata (results_of rs)) ''toolResults'' = Some rs"
  by (simp_all add: results_of_def results_chunk_def get_str_def get_tool_results_def comp_def)

lemma consume_results:
  "tsSteps ts \<noteq> [] \<Longrightarrow> consume_chunk ts (results_of rs) = ts\<lparr>tsSteps := set_last_results rs (tsSteps ts)\<rparr>"
  by (simp add: consume_chunk_type backfill_results_def set_last_results_def)

lemma synced_results:
  assumes "synced (Suc n) s"
  shows "synced (Suc n) (s\<lparr>hist := h, rSteps := set_last_results rs (rSteps s),
     lOut := (lOut s)\<lparr>skTried := k, skSent := skSent (lOut s) @ [results_of rs]\<rparr>\<rparr>)"
proof -
  have ne: "rSteps s \<noteq> []" "tsSteps (reader s) \<noteq> []"
    using assms by (auto simp: synced_def dest: arg_cong [where f = length])
  have len: "length (set_last_results rs (rSteps s)) = length (rSteps s)"
    using ne by (simp add: set_last_results_def)
  have "reader (s\<lparr>hist := h, rSteps := set_last_results rs (rSteps s),
     lOut := (lOut s)\<lparr>skTried := k, skSent := skSent (lOut s) @ [results_of rs]\<rparr>\<rparr>) =
     (reader s)\<lparr>tsSteps := set_last_results rs (tsSteps (reader s))\<rparr>"
    using consume_results [OF ne(2)] by (simp add: reader_def)
  with assms len set_last_results_mirrored [of "tsSteps (reader s)" "rSteps s" rs] ne show ?thesis
    by (simp add: synced_def fresh_step_def)
qed

lemma synced_usable: "synced n s \<Longrightarrow> usable s"
  by (simp add: synced_def)

lemma wp_stream_tools:
  assumes "synced (Suc n) s"
  shows "wp (stream_tools opts env toolMap step ds) (\<lambda>_. synced (Suc n)) E R s"
proof -
  let ?s1 = "if oStateRef opts then s\<lparr>hist := hist s @ [EvState StepToolExecuting step]\<rparr> else s"
  have s1: "synced (Suc n) ?s1" by (rule synced_same [OF assms]) simp
  obtain msgs results h where run: "executeToolsParallel (seUnmarshal env) (seSchedule env (hist ?s1)) (seContext env)
      (drToolCalls ds) toolMap step (tool_hooks opts) (hist ?s1) = ((msgs, results), h)"
    by (metis prod.collapse)
  have use: "usable (?s1\<lparr>hist := h, rSteps := set_last_results results (rSteps ?s1)\<rparr>)"
    using synced_usable [OF s1] by simp
  show ?thesis
    using assms run synced_results [OF s1, where rs = results and h = h and k = "Suc (skTried (lOut ?s1))"] use
    by (auto simp: stream_tools_def send_def)
qed

lemma synced_params [simp]: "synced n (rParams_update f s) \<longleftrightarrow> synced n s"
  by (simp add: synced_def reader_def)

lemma wp_continue_stream:
  assumes "synced (Suc n) s"
  shows "wp (continue_stream opts env toolMap step ds)
     (\<lambda>c s. synced (Suc n) s \<and> (\<forall>b cause. c = Some (b, cause) \<longrightarrow> cause = StopCausePredicate)) (\<lambda>_. usable) R s"
proof -
  have fold: "synced (Suc n) (fold_drained ds msgs s')" if "synced (Suc n) s'" for msgs s'
    unfolding fold_drained_def by (rule synced_same [OF that]) (simp add: same_records_def)
  show ?thesis
    unfolding continue_stream_def
    apply (rule wp_seq, rule wp_stream_tools [OF assms])
    apply (rule wp_seq [where P = "\<lambda>_. synced (Suc n)"])
     apply (simp add: fold)
    apply (rule wp_seq, rule wp_keeps_inv [OF keeps_stop_when, where I = "synced (Suc n)"])
       apply assumption
      apply (erule (1) synced_same)
     apply (erule synced_usable)
    apply simp
    done
qed

text \<open>How the loop may leave a step: going on, or breaking with the books balanced.\<close>

definition loop_break :: "bool \<times> StopCause \<Rightarrow> bool" where
  "loop_break c \<longleftrightarrow> snd c \<in> {StopCauseBeforeStep, StopCauseNatural, StopCauseEmpty, StopCausePredicate}"

definition step_left :: "nat \<Rightarrow> (bool \<times> StopCause) option \<Rightarrow> stream_run \<Rightarrow> bool" where
  "step_left n c s \<longleftrightarrow> (case c of None \<Rightarrow> synced n s | Some b \<Rightarrow> rebuilt s \<and> loop_break b)"

lemma rebuilt_usable: "rebuilt s \<Longrightarrow> usable s"
  by (simp add: rebuilt_def)

lemma wp_drain_failed:
  assumes "usable s" "tsStreamErr (reader s) \<noteq> None"
  shows "wp (drain_failed opts ds err) Q (\<lambda>_. usable) (\<lambda>_. failed) s"
  unfolding drain_failed_def abort_sequence_def [symmetric]
proof (rule wp_seq [where P = "\<lambda>_ s. usable s \<and> tsStreamErr (reader s) \<noteq> None"])
  show "wp (if drErrForwarded ds then pure () else send (error_chunk err))
      (\<lambda>_ s. usable s \<and> tsStreamErr (reader s) \<noteq> None) (\<lambda>_. usable) (\<lambda>_. failed) s"
    using reader_error [OF assms(1)] assms by simp
qed (auto intro: wp_abort_sequence)

lemma wp_drained_step:
  assumes "stepping n ds s" "drErr ds \<noteq> None \<Longrightarrow> tsStreamErr (reader s) \<noteq> None"
  shows "wp (drained_step opts env toolMap (Suc n) ds) (step_left (Suc n)) (\<lambda>_. usable) (\<lambda>_. failed) s"
proof (cases "drErr ds")
  case (Some err)
  with assms show ?thesis
    by (auto simp: drained_step_def stepping_def intro: wp_drain_failed)
next
  case None
  have cont: "wp (reads_state (\<lambda>s. if stream_settled (rParams s) toolMap ds then pure (Some (False, StopCauseNatural))
            else continue_stream opts env toolMap (Suc n) ds)) (step_left (Suc n)) (\<lambda>_. usable) (\<lambda>_. failed) s'"
    if "synced (Suc n) s'" for s'
    using that
    by (auto simp: step_left_def loop_break_def intro: synced_rebuilt
        intro!: wp_mono [OF wp_continue_stream] split: option.split)
  show ?thesis
    using None stepping_rebuilt [OF assms(1)]
    by (auto simp: drained_step_def step_left_def loop_break_def simp del: wp_andThen
        intro!: wp_seq [OF wp_emit_step [OF assms(1)]] cont)
qed

lemma wp_stream_body:
  assumes "synced n s" "\<And>cs. opened = Some (Some cs) \<Longrightarrow> \<forall>c\<in>set cs. untagged c"
  shows "wp (stream_body opts env toolMap (Suc n) opened) (step_left (Suc n)) (\<lambda>_. usable) (\<lambda>_. failed) s"
proof -
  consider "opened = None" | "opened = Some None" | source where "opened = Some (Some source)"
    by (cases opened) auto
  then show ?thesis
  proof cases
    case 3
    obtain ds out where ds: "drainStep source (lOut s) = (ds, out)" by fastforce
    note drain_stepping [OF assms(1) assms(2) [OF 3] ds]
    then have "wp (drained_step opts env toolMap (Suc n) ds) (step_left (Suc n)) (\<lambda>_. usable) (\<lambda>_. failed)
        (s\<lparr>lOut := out\<rparr>)" by (rule wp_drained_step)
    with 3 ds show ?thesis by (simp add: stream_body_def)
  qed (use synced_rebuilt [OF assms(1)] in \<open>auto simp: stream_body_def step_left_def loop_break_def rebuilt_def\<close>)
qed

text \<open>Every stream of the model is a provider's own: no chunk carries the loop's tags.\<close>

definition provider_model :: "(GenerateParams, StreamChunk list option \<times> go_error option) hook \<Rightarrow> bool" where
  "provider_model model \<longleftrightarrow> (\<forall>h p cs e. model h p = Inr (Some cs, e) \<longrightarrow> (\<forall>c\<in>set cs. untagged c))"

definition provider_stream :: "StreamChunk list option \<Rightarrow> bool" where
  "provider_stream r \<longleftrightarrow> (\<forall>cs. r = Some cs \<longrightarrow> (\<forall>c\<in>set cs. untagged c))"

lemma model_stream_untagged:
  "provider_model model \<Longrightarrow> model_stream model r \<Longrightarrow> r = Some cs \<Longrightarrow> \<forall>c\<in>set cs. untagged c"
  unfolding provider_model_def model_stream_def by blast

lemma wp_next_stream:
  assumes "synced n s"
  shows "wp (next_stream opts env model step)
     (\<lambda>x s. synced n s \<and> (\<forall>r. x = Some r \<longrightarrow> model_stream model r)) (\<lambda>_. usable) (\<lambda>_. failed) s"
proof -
  let ?Q = "\<lambda>x s. synced n s \<and> (\<forall>r. x = Some r \<longrightarrow> model_stream model r)"
  have opened: "wp (andThen (open_stream opts env model) (\<lambda>(result, err).
              case err of Some e \<Rightarrow> open_failed opts e | None \<Rightarrow> pure (Some result))) ?Q (\<lambda>_. usable) (\<lambda>_. failed) s'"
    if s': "synced n s'" for s'
  proof (rule wp_seq, rule wp_mono [OF wp_open_stream])
    fix x :: "StreamChunk list option \<times> go_error option" and s2
    assume "same_records s' s2 \<and> model_stream model (fst x)"
    moreover from this have "synced n s2" using s' synced_same by blast
    ultimately show "wp (case x of (result, err) \<Rightarrow> case err of Some e \<Rightarrow> open_failed opts e | None \<Rightarrow> pure (Some result))
        ?Q (\<lambda>_. usable) (\<lambda>_. failed) s2"
      by (auto split: prod.split option.split intro: wp_open_failed synced_usable)
  next
    fix s2 assume "same_records s' s2"
    then show "usable s2" using s' synced_usable usable_same by blast
  qed auto
  show ?thesis
    unfolding next_stream_def
    apply (rule wp_seq, rule wp_keeps_inv [OF keeps_before_step, where I = "synced n"])
       apply (rule assms)
      apply (erule (1) synced_same)
     apply (erule synced_usable)
    apply (unfold wp_if)
    apply (rule if_split [THEN iffD2], intro conjI impI)
     apply simp
    apply (rule wp_seq, rule wp_keeps_inv [OF keeps_request_hooks, where I = "synced n"])
       apply assumption
      apply (erule (1) synced_same)
     apply (erule synced_usable)
    apply (rule wp_seq, rule wp_keeps_inv [OF keeps_announce, where I = "synced n"])
       apply assumption
      apply (erule (1) synced_same)
     apply (erule synced_usable)
    apply (rule wp_seq [where P = "\<lambda>_. synced n"])
     apply (simp add: synced_same)
    apply (erule opened)
    done
qed


section \<open>The goroutine\<close>

lemma wp_stream_loop:
  assumes "synced n s" "provider_model model" "provider_stream firstResult"
  shows "wp (stream_loop opts env model toolMap firstResult left (Suc n))
     (\<lambda>c s. rebuilt s \<and> (\<forall>b. c = Some b \<longrightarrow> loop_break b)) (\<lambda>_. usable) (\<lambda>_. failed) s"
  using assms(1)
proof (induction left arbitrary: n s)
  case 0
  then show ?case by (simp add: synced_rebuilt)
next
  case (Suc left)
  let ?open = "if Suc n = 1 then first_stream firstResult (Suc n) else next_stream opts env model (Suc n)"
  have opened: "wp ?open (\<lambda>x s. synced n s \<and> (\<forall>cs. x = Some (Some cs) \<longrightarrow> (\<forall>c\<in>set cs. untagged c)))
      (\<lambda>_. usable) (\<lambda>_. failed) s"
  proof (cases "n = 0")
    case True
    with Suc.prems assms(3) synced_same [OF Suc.prems, of "s\<lparr>rInflight := Suc 0\<rparr>"] show ?thesis
      by (auto simp: first_stream_def provider_stream_def)
  next
    case False
    have "wp (next_stream opts env model (Suc n))
        (\<lambda>x s. synced n s \<and> (\<forall>cs. x = Some (Some cs) \<longrightarrow> (\<forall>c\<in>set cs. untagged c)))
        (\<lambda>_. usable) (\<lambda>_. failed) s"
      by (rule wp_mono [OF wp_next_stream [OF Suc.prems]]) (use model_stream_untagged [OF assms(2)] in blast)+
    with False show ?thesis by simp
  qed
  have step: "wp (andThen ?open (stream_body opts env toolMap (Suc n))) (step_left (Suc n)) (\<lambda>_. usable) (\<lambda>_. failed) s"
    by (rule wp_seq [OF opened], rule wp_stream_body) auto
  show ?case
    unfolding stream_loop.simps
  proof (rule wp_seq [OF step])
    fix c s' assume left: "step_left (Suc n) c s'"
    show "wp (case c of None \<Rightarrow> stream_loop opts env model toolMap firstResult left (Suc (Suc n))
         | Some broke \<Rightarrow> pure (Some broke))
       (\<lambda>c s. rebuilt s \<and> (\<forall>b. c = Some b \<longrightarrow> loop_break b)) (\<lambda>_. usable) (\<lambda>_. failed) s'"
    proof (cases c)
      case None
      with left Suc.IH [of "Suc n" s'] show ?thesis by (simp add: step_left_def)
    next
      case (Some b)
      with left show ?thesis by (cases b) (simp add: step_left_def)
    qed
  qed
qed

lemma final_cause_valid:
  "loop_break b \<or> b = (False, StopCauseUnset) \<Longrightarrow>
     IsValid (fst (finalizeStopCause (fst b) (snd b) steps m))"
  by (cases b) (auto simp: loop_break_def finalizeStopCause_def Let_def)

definition terminated :: "stream_run \<Rightarrow> bool" where
  "terminated s \<longleftrightarrow> usable s \<and>
     (\<exists>front fin. skSent (lOut s) = front @ [fin] \<and> scType fin = ChunkFinish \<and> IsValid (scStoppedBy fin))"

text \<open>Either the reader saw an error, or it holds the loop's steps and usage.\<close>

definition stream_done :: "stream_run \<Rightarrow> bool" where
  "stream_done s \<longleftrightarrow> terminated s \<and> (tsStreamErr (reader s) \<noteq> None \<or> rebuilt s)"

lemma abort_chunk_usage [simp]: "scUsage (abort_chunk r u) = u"
  by (simp add: abort_chunk_def)

lemma failed_done: "failed s \<Longrightarrow> stream_done s"
  by (simp add: failed_def stream_done_def terminated_def)

lemma consume_final:
  "scType c = ChunkFinish \<Longrightarrow> tsSteps (consume_chunk ts c) = tsSteps ts \<and> tsUsage (consume_chunk ts c) = scUsage c"
  by (simp add: consume_chunk_type final_chunk_def Let_def)

lemma wp_finish_stream:
  assumes "rebuilt s" "\<And>b. broke = Some b \<Longrightarrow> loop_break b"
  shows "wp (finish_stream opts originalLen broke) (\<lambda>_. stream_done) (\<lambda>_. usable) (\<lambda>_. failed) s"
proof -
  define b where "b = (case broke of Some c \<Rightarrow> c | None \<Rightarrow> (False, StopCauseUnset))"
  obtain cause exhausted where fin: "finalizeStopCause (fst b) (snd b) (rSteps s) (oMaxSteps opts) = (cause, exhausted)"
    by fastforce
  have valid: "IsValid cause"
    using final_cause_valid [of b "rSteps s" "oMaxSteps opts"] assms(2) fin
    by (auto simp: b_def split: option.splits)
  have last: "wp (send c) (\<lambda>_. stream_done) E R s'"
    if "rebuilt s'" "rTotalUsage s' = rTotalUsage s" "scType c = ChunkFinish" "scUsage c = rTotalUsage s" "scStoppedBy c = cause"
    for s' c E R
    using that valid consume_final [OF that(3)] by (simp add: stream_done_def terminated_def rebuilt_def)
  have "rebuilt (s\<lparr>lStepsExhausted := e, lResponseMessages := m\<rparr>)" for e m
    by (rule rebuilt_same [OF assms(1)]) (simp add: same_records_def)
  then have keep: "wp (fireOnFinish opts info) (\<lambda>_ s'. rebuilt s' \<and> rTotalUsage s' = rTotalUsage s) (\<lambda>_. usable) R
      (s\<lparr>lStepsExhausted := e, lResponseMessages := m\<rparr>)" for info e m R
    by (intro wp_mono [OF wp_keeps [OF keeps_fireOnFinish]])
       (auto simp: same_records_def rebuilt_def reader_def)
  show ?thesis
    using fin
    by (auto simp: finish_stream_def b_def [symmetric] Let_def case_prod_beta
        intro!: wp_mono [OF keep] last rebuilt_usable)
qed

text \<open>The loop is entered with an empty channel and no step.\<close>

definition stream_entry :: "stream_run \<Rightarrow> bool" where
  "stream_entry s \<longleftrightarrow> usable s \<and> skSent (lOut s) = [] \<and> rSteps s = [] \<and> rTotalUsage s = zero_Usage"

lemma entry_synced: "stream_entry s \<Longrightarrow> synced 0 s"
  by (simp add: stream_entry_def synced_def reader_def newTextStream_def fresh_step_def)

lemma stream_done_hist [simp]: "stream_done (s\<lparr>hist := h\<rparr>) = stream_done s"
  by (simp add: stream_done_def terminated_def reader_def rebuilt_def)

lemma publish_loop_idle_cases:
  "publish_loop_idle ref s = s\<lparr>hist := hist (publish_loop_idle ref s)\<rparr>"
  by (simp add: publish_loop_idle_def)

lemma stream_done_idle [simp]: "stream_done (publish_loop_idle ref s) = stream_done s"
  by (simp add: publish_loop_idle_def)

lemma wp_recover_stream:
  assumes "usable s"
  shows "wp (stream_recover n p) (\<lambda>_ s'. stream_done s' \<and> tsUsage (reader s') = zero_Usage) E R s"
proof -
  have sends: "wp (andThen (send (error_chunk pe)) (\<lambda>_. send (abort_chunk FinishNone zero_Usage)))
      (\<lambda>_ s'. stream_done s' \<and> tsUsage (reader s') = zero_Usage) E R s'"
    if "usable s'" for pe s'
    using that consume_final [of "abort_chunk FinishNone zero_Usage"] failed_done [OF failed_after_abort, of "s'\<lparr>lOut := (lOut s')\<lparr>skTried := Suc (skTried (lOut s')),
        skSent := skSent (lOut s') @ [error_chunk pe]\<rparr>\<rparr>"] reader_error [OF that, where e = pe]
    by simp
  show ?thesis
  proof (cases "asPanicError p")
    case None
    with assms sends show ?thesis by (auto simp: stream_recover_def newPanicError_def simp del: wp_send)
  next
    case (Some pe)
    with assms sends [OF assms, of pe] show ?thesis by (simp add: stream_recover_def)
  qed
qed

lemma wp_stream_goroutine:
  assumes "stream_entry s" "provider_model model" "provider_stream firstResult"
  shows "wp (stream_goroutine opts env model toolMap firstResult originalLen)
     (\<lambda>_. stream_done) (\<lambda>_ _. False) (\<lambda>_. stream_done) s"
proof -
  have s1: "synced 0 (s\<lparr>rInflight := 1\<rparr>)" by (rule synced_same [OF entry_synced [OF assms(1)]]) simp
  have body: "wp (andThen (modify (rInflight_update (\<lambda>_. 1))) (\<lambda>_.
           andThen (stream_loop opts env model toolMap firstResult (nat (oMaxSteps opts)) 1)
             (finish_stream opts originalLen))) (\<lambda>_. stream_done) (\<lambda>_. usable) (\<lambda>_. failed) s"
    apply (rule wp_seq [where P = "\<lambda>_. synced 0"])
     apply (use s1 in simp)
    apply (rule wp_seq, unfold One_nat_def, rule wp_stream_loop)
       apply (assumption, rule assms(2), rule assms(3))
    apply (rule wp_finish_stream)
     apply auto
    done
  show ?thesis
    unfolding stream_goroutine_def wp_recovering wp_finally_do
    by (rule wp_mono [OF body])
       (auto simp: failed_done publish_loop_idle_def intro: wp_mono [OF wp_recover_stream])
qed

text \<open>The channel, as the reader folds it: either it has an error, or the loop's steps and usage.\<close>

lemma reader_rebuilds_loop:
  assumes "stream_entry s" "provider_model model" "provider_stream firstResult"
    and "stream_goroutine opts env model toolMap firstResult originalLen s = (r, s')"
    and "tsStreamErr (reader s') = None"
  shows "map unsourced (tsSteps (reader s')) = map mirrored (rSteps s') \<and> tsUsage (reader s') = rTotalUsage s'"
proof -
  have "stream_done s'"
    using wp_stream_goroutine [OF assms(1-3), where opts = opts and env = env and toolMap = toolMap and originalLen = originalLen] assms(4)
    by (simp add: wp_def split: outcome.splits)
  with assms(5) show ?thesis by (simp add: stream_done_def rebuilt_def)
qed

section \<open>The result of a stream of the tool loop\<close>

text \<open>What \<open>streamWithToolLoop\<close> hands out when its goroutine has ended in a state.\<close>

definition loop_handle :: "stream_run \<Rightarrow> stream_handle" where
  "loop_handle s = \<lparr>thSource = skSent (lOut s), thHooks = no_stream_hooks,
     thResponseMessages = lResponseMessages s, thStepsExhausted = lStepsExhausted s\<rparr>"

lemma consume_no_hooks:
  "snd (consume no_stream_hooks rawOut textOut alive ctxErr cs ts) = consume_loop rawOut textOut alive ctxErr cs ts"
  by (simp add: consume_def recoverToStreamErr_def recovering_def finally_do_def deferring_def modify_def
      deferred_response_def deferred_step_finish_def deferred_finish_def reads_state_def call_hooks_def pure_def
      publish_stream_idle_def no_stream_hooks_def Let_def)

lemma consume_chunk_hist [simp]: "consume_chunk (ts\<lparr>hist := h\<rparr>) c = (consume_chunk ts c)\<lparr>hist := h\<rparr>"
proof -
  have "backfill_results (ts\<lparr>hist := h\<rparr>) c = (backfill_results ts c)\<lparr>hist := h\<rparr>"
    by (cases "get_tool_results (scMetadata c) ''toolResults''") (simp_all add: backfill_results_def)
  moreover have "goai_boundary (ts\<lparr>hist := h\<rparr>) c = (goai_boundary ts c)\<lparr>hist := h\<rparr>"
    by (cases "finish_reasoning (tsReasoning ts)") (simp add: goai_boundary_def Let_def)
  moreover have "provider_boundary (ts\<lparr>hist := h\<rparr>) c = (provider_boundary ts c)\<lparr>hist := h\<rparr>"
    by (simp add: provider_boundary_def add_sources_def)
  moreover have "final_chunk (ts\<lparr>hist := h\<rparr>) c = (final_chunk ts c)\<lparr>hist := h\<rparr>"
    by (simp add: final_chunk_def Let_def)
  ultimately show ?thesis
    by (cases "scType c") (simp_all add: consume_chunk_type add_sources_def)
qed

lemma foldl_consume_hist [simp]: "foldl consume_chunk (ts\<lparr>hist := h\<rparr>) cs = (foldl consume_chunk ts cs)\<lparr>hist := h\<rparr>"
  by (induction cs arbitrary: ts) simp_all

lemma newTextStream_hist: "newTextStream h = (newTextStream [])\<lparr>hist := h\<rparr>"
  by (simp add: newTextStream_def)

lemma read_loop_handle:
  "\<exists>o1 t1 n1. read_stream (loop_handle s) False False (\<lambda>_. True) ctxErr h =
     (close_reasoning (with_outputs o1 t1 n1 ((reader s)\<lparr>hist := h\<rparr>)))
       \<lparr>tsResponseMessages := lResponseMessages s, tsStepsExhausted := lStepsExhausted s\<rparr>"
proof -
  obtain o1 t1 n1 where "consume_loop False False (\<lambda>_. True) ctxErr (skSent (lOut s)) (newTextStream h) =
      close_reasoning (with_outputs o1 t1 n1 ((reader s)\<lparr>hist := h\<rparr>))"
    using consume_loop_alive [of False False ctxErr "skSent (lOut s)" "newTextStream h"]
    by (auto simp: reader_def newTextStream_hist [of h])
  then show ?thesis
    by (intro exI [of _ o1] exI [of _ t1] exI [of _ n1]) (simp add: read_stream_def loop_handle_def consume_no_hooks)
qed

lemma read_loop_fields:
  fixes s h ctxErr
  defines "ts \<equiv> read_stream (loop_handle s) False False (\<lambda>_. True) ctxErr h"
  shows "tsSteps ts = tsSteps (reader s)" "tsUsage ts = tsUsage (reader s)"
    "tsStreamErr ts = tsStreamErr (reader s)" "tsStepsExhausted ts = lStepsExhausted s"
  using read_loop_handle [of s ctxErr h] unfolding ts_def by (auto simp: close_reasoning_def)

lemma stream_steps_result:
  "tsSteps ts \<noteq> [] \<Longrightarrow> stream_steps ts = tsSteps ts"
  "tsSteps ts = [] \<Longrightarrow> length (stream_steps ts) \<le> 1"
  by (simp_all add: stream_steps_def)

lemma map_unsourced_fields:
  assumes "map unsourced ts = map mirrored ss"
  shows "ts = [] \<longleftrightarrow> ss = []" "map srReasoning ts = map srReasoning ss" "map srToolCalls ts = map srToolCalls ss"
proof -
  show "ts = [] \<longleftrightarrow> ss = []" using assms by (metis list.map_disc_iff)
  show "map srReasoning ts = map srReasoning ss"
    using arg_cong [OF assms, of "map srReasoning"] by (simp add: unsourced_def mirrored_def comp_def)
  show "map srToolCalls ts = map srToolCalls ss"
    using arg_cong [OF assms, of "map srToolCalls"] by (simp add: unsourced_def mirrored_def comp_def)
qed

text \<open>
  C5: the result of a multi-step stream is the result of the run: whatever the hooks, tools and
  (untagged) provider streams do, as long as the caller keeps receiving, either \<open>Err\<close> reports an
  error or \<open>Result\<close> tells what the loop did. If the loop recorded any step, the steps of the result
  are exactly the loop's steps, number, content, text, reasoning, tool calls and results, usage and
  response, with the finish reason of a tool step normalised (the sources are left aside), and the
  result's reasoning and tool calls are those of the steps. If the loop recorded none, the result has
  at most one step, \<open>buildResult\<close>'s fallback for a stream that carried text without completing a
  step. In both cases the usage is the loop's total and the exhausted flag is the loop's.
\<close>

theorem streamed_steps_rebuilt:
  assumes "stream_entry s" "provider_model model" "provider_stream firstResult"
    and "stream_goroutine opts env model toolMap firstResult originalLen s = (r, s')"
    and "Err (loop_handle s') (\<lambda>_. True) ctxErr h = None"
    and "res = Result (loop_handle s') (\<lambda>_. True) ctxErr h"
  shows "(rSteps s' \<noteq> [] \<longrightarrow> map unsourced (txSteps res) = map mirrored (rSteps s') \<and>
            txReasoning res = concat (map srReasoning (rSteps s')) \<and>
            txToolCalls res = srToolCalls (last (rSteps s'))) \<and>
         (rSteps s' = [] \<longrightarrow> length (txSteps res) \<le> 1) \<and>
         txTotalUsage res = rTotalUsage s' \<and> txStepsExhausted res = lStepsExhausted s'"
proof -
  define ts where "ts = read_stream (loop_handle s') False False (\<lambda>_. True) ctxErr h"
  note fields = read_loop_fields [of s' ctxErr h, folded ts_def]
  have "tsStreamErr (reader s') = None" using assms(5) fields(3) by (simp add: Err_def ts_def)
  then have same: "map unsourced (tsSteps ts) = map mirrored (rSteps s')" and usage: "tsUsage ts = rTotalUsage s'"
    using reader_rebuilds_loop [OF assms(1-4)] fields by auto
  have last_calls: "srToolCalls (last (tsSteps ts)) = srToolCalls (last (rSteps s'))" if "rSteps s' \<noteq> []"
    using arg_cong [OF map_unsourced_fields(3) [OF same], of last] that map_unsourced_fields(1) [OF same]
    by (simp add: last_map)
  have res: "res = buildResult ts" by (simp add: assms(6) Result_def ts_def)
  show ?thesis
    using same usage last_calls fields(4) map_unsourced_fields(1,2) [OF same] stream_steps_result [of ts]
    by (auto simp: res buildResult_def Let_def)
qed


section \<open>StreamText\<close>

definition multi_step :: "'z gen_options_scheme \<Rightarrow> bool" where
  "multi_step opts \<longleftrightarrow> 1 < oMaxSteps opts \<and>
     (case buildToolMap (oTools opts) of
        Inr toolMap \<Rightarrow> toolMap \<noteq> [] \<or> hasProviderDefinedTools (ToolDefinitions (oTools opts))
      | Inl err \<Rightarrow> False)"

definition finished_source :: "go_error + stream_handle \<Rightarrow> bool" where
  "finished_source r \<longleftrightarrow> (\<forall>th. r = Inr th \<longrightarrow>
     (\<exists>front fin. thSource th = front @ [fin] \<and> scType fin = ChunkFinish \<and> IsValid (scStoppedBy fin)))"

lemma finished_source_Inl [simp]: "finished_source (Inl e)"
  by (simp add: finished_source_def)

lemma wp_keeps_True: "keeps m \<Longrightarrow> wp m (\<lambda>_. same_records s) (\<lambda>_ _. True) R s"
  by (rule wp_mono [OF wp_keeps]) auto

lemma wp_start_failed: "wp (start_failed opts e) Q (\<lambda>_ _. True) (\<lambda>r _. finished_source r) s"
  unfolding start_failed_def
  by (rule wp_seq, rule wp_keeps_True [OF keeps_announce], rule wp_seq,
      rule wp_keeps_True [OF keeps_failed_response]) simp

lemma wp_first_request:
  "wp (first_request opts env model) (\<lambda>r s'. same_records s s' \<and> model_stream model r) (\<lambda>_ _. True)
     (\<lambda>r _. finished_source r) s"
  unfolding first_request_def
  apply (rule wp_seq [where P = "\<lambda>_. same_records s"], simp)
  apply (rule wp_seq, rule wp_mono [OF wp_keeps_True [OF keeps_announce]], erule (1) same_records_trans, simp, assumption)
  apply (rule wp_seq, rule wp_mono [OF wp_keeps_True [OF keeps_announce]], erule (1) same_records_trans, simp, assumption)
  apply (rule wp_seq, rule wp_mono [OF wp_keeps_True [OF keeps_request_hooks]], erule (1) same_records_trans, simp, assumption)
  apply (rule wp_seq [where P = "\<lambda>r s'. same_records s s' \<and> model_stream model (fst r)"],
      rule wp_mono [OF wp_open_stream])
     apply (erule conjE, rule conjI, erule (1) same_records_trans, assumption)
    apply (rule TrueI)
   apply simp
  apply (auto split: prod.split option.split intro: wp_start_failed)
  done

lemma wp_streamWithToolLoop:
  assumes "stream_entry s" "provider_model model"
  shows "wp (streamWithToolLoop opts env model toolMap) Q (\<lambda>_ _. True) (\<lambda>r _. finished_source r) s"
  unfolding streamWithToolLoop_def wp_recoverToError
proof (rule wp_seq, rule wp_mono [OF wp_first_request])
  fix firstResult s1
  assume first: "same_records s s1 \<and> model_stream model firstResult"
  let ?go = "stream_goroutine opts env model toolMap firstResult (length (gpMessages (buildParams opts)))"
  have "stream_entry s1" using first assms(1) by (simp add: stream_entry_def same_records_def)
  moreover have "provider_stream firstResult"
    using first assms(2) unfolding provider_stream_def provider_model_def model_stream_def by blast
  ultimately have "wp ?go (\<lambda>_. stream_done) (\<lambda>_ _. False) (\<lambda>_. stream_done) s1"
    using assms(2) by (intro wp_stream_goroutine)
  then have "stream_done (snd (?go s1))" by (auto simp: wp_def split: prod.splits outcome.splits)
  then show "wp (andThen (modify (\<lambda>s. snd (?go s))) (\<lambda>_.
        reads_state (\<lambda>s. return_early (Inr \<lparr>thSource = skSent (lOut s), thHooks = no_stream_hooks,
          thResponseMessages = lResponseMessages s, thStepsExhausted = lStepsExhausted s\<rparr>))))
      Q (\<lambda>r s. finished_source (Inl (hook_panic ''internal'' r))) (\<lambda>r _. finished_source r) s1"
    by (auto simp: stream_done_def terminated_def finished_source_def)
qed simp_all

text \<open>
  C9: a multi-step stream never dangles: for every option set, model and behaviour of hooks and tools,
  panics included, a stream that \<open>StreamText\<close> hands out ends with a final chunk that names a valid
  stop cause, provided its channel is drained and the model's own chunks do not carry the tags of the
  tool loop.
\<close>

theorem StreamText_finishes:
  assumes "\<And>k. seReady env k" "seModel env = Some model" "provider_model model" "multi_step opts"
    and "StreamText opts env = (Inr th, h)"
  shows "\<exists>front fin. thSource th = front @ [fin] \<and> scType fin = ChunkFinish \<and> IsValid (scStoppedBy fin)"
proof -
  obtain toolMap where tools: "buildToolMap (oTools opts) = Inr toolMap" "1 < oMaxSteps opts"
      "toolMap \<noteq> [] \<or> hasProviderDefinedTools (ToolDefinitions (oTools opts))"
    using assms(4) by (auto simp: multi_step_def split: sum.splits)
  have "stream_entry (start_stream env)"
    using assms(1) by (auto simp: stream_entry_def start_stream_def open_sink_def)
  from wp_streamWithToolLoop [OF this assms(3), of opts env toolMap "\<lambda>_ _. False"] tools assms(2)
  have "wp (StreamText_stmt opts env) (\<lambda>_ _. True) (\<lambda>_ _. True) (\<lambda>r _. finished_source r) (start_stream env)"
    by (auto simp: StreamText_stmt_def refuse_stream_def elim: wp_mono)
  then show ?thesis
    using assms(5)
    by (auto simp: wp_def StreamText_def finished_source_def split: prod.splits outcome.splits)
qed

section \<open>Sample runs\<close>

definition sample_usage :: Usage where
  "sample_usage = zero_Usage\<lparr>InputTokens := 5, TotalTokens := 5\<rparr>"

definition sample_stream :: "(GenerateParams, StreamChunk list option \<times> go_error option) hook" where
  "sample_stream h params = Inr (Some
     (if list_ex (\<lambda>m. mRole m = RoleTool) (gpMessages params)
      then [text_chunk ''done'', (finish_chunk FinishStop)\<lparr>scUsage := sample_usage\<rparr>]
      else [zero_Chunk\<lparr>scType := ChunkToolCall, scToolCallID := ''1'', scToolName := ''f'', scToolInput := ''{}''\<rparr>,
            (finish_chunk FinishToolCalls)\<lparr>scUsage := sample_usage\<rparr>]), None)"

definition sample_stream_env :: stream_env where
  "sample_stream_env = \<lparr>seModel = Some sample_stream,
     seRetry = \<lparr>jitter_ms = \<lambda>_ b. 1000 * int b, until = \<lambda>_ _. None, sleep_for = \<lambda>_ _. None\<rparr>,
     seSchedule = \<lambda>_. [], seContext = no_context, seUnmarshal = \<lambda>_. None, seReady = \<lambda>_. True,
     seCtxErr = ErrContextCanceled\<rparr>"

lemma sample_stream_untagged: "provider_model sample_stream"
  by (simp add: provider_model_def sample_stream_def untagged_def text_chunk_def finish_chunk_def zero_Chunk_def)

lemma stream_starts:
  assumes "seModel env = Some model" "oPrompt opts \<noteq> []" "buildToolMap (oTools opts) = Inr toolMap" "multi_step opts"
    and "first_request opts env model (start_stream env) = (Value r, s)"
  shows "\<exists>th h. StreamText opts env = (Inr th, h)"
proof -
  have "1 < oMaxSteps opts" "toolMap \<noteq> [] \<or> hasProviderDefinedTools (ToolDefinitions (oTools opts))"
    using assms(3,4) by (auto simp: multi_step_def)
  with assms show ?thesis
    by (simp add: StreamText_def StreamText_stmt_def streamWithToolLoop_def recoverToError_def recovering_def
        andThen_def modify_def reads_state_def return_early_def)
qed

theorem StreamText_finishes_witness:
  "\<exists>th h front fin. StreamText sample_options sample_stream_env = (Inr th, h) \<and> thSource th = front @ [fin] \<and>
     scType fin = ChunkFinish"
proof -
  let ?run = "first_request sample_options sample_stream_env sample_stream (start_stream sample_stream_env)"
  have "case fst ?run of Value _ \<Rightarrow> True | _ \<Rightarrow> False" by code_simp
  then obtain r s where run: "?run = (Value r, s)" by (cases ?run) (auto split: outcome.splits)
  have multi: "multi_step sample_options" by code_simp
  then obtain toolMap where "buildToolMap (oTools sample_options) = Inr toolMap"
    by (auto simp: multi_step_def split: sum.splits)
  with stream_starts [OF _ _ _ multi run] obtain th h where
    "StreamText sample_options sample_stream_env = (Inr th, h)"
    by (auto simp: sample_stream_env_def sample_options_def)
  with StreamText_finishes [of sample_stream_env sample_stream sample_options th h] sample_stream_untagged multi
  show ?thesis by (auto simp: sample_stream_env_def)
qed

text \<open>
  A request callback that panics leaves a stream's state reference in flight: \<open>StreamText\<close> returns
  the panic as its error but never publishes \<open>StepIdle\<close>, so a poller waits for ever.
\<close>

theorem StreamText_request_panic_never_idle:
  "map_prod (map_sum id thSource) id
     (StreamText (sample_options\<lparr>oOnRequest := [\<lambda>_ _. Inl (PanicValue ''boom'')]\<rparr>) sample_stream_env) =
     (Inl (ErrPanic ''OnRequest'' (PanicValue ''boom'')),
      [EvState StepStarting 0, EvState StepLLMInFlight 1,
       EvRequest \<lparr>rqMessageCount = 1, rqToolCount = 1, rqMessages = [UserMessage ''hi'']\<rparr>,
       EvPanic ''OnRequest'' (PanicValue ''boom'')])"
  by code_simp

text \<open>
  C33: the panic exit of a stream throws the usage away: whatever the completed steps consumed and
  whatever panicked, after the goroutine's recovery the reader has accumulated a usage of zero, and so the
  result of the stream reports a total usage of zero.
\<close>

theorem panic_exit_loses_usage:
  assumes "\<And>k. skReady (lOut s) k"
  shows "tsUsage (reader (snd (stream_recover n p s))) = zero_Usage \<and>
    txTotalUsage (Result (loop_handle (snd (stream_recover n p s))) (\<lambda>_. True) ctxErr h) = zero_Usage"
proof -
  have "usable s" using assms by (auto simp: open_sink_def)
  from wp_recover_stream [OF this, of n p "\<lambda>_ _. False" "\<lambda>_ _. False"]
  have "tsUsage (reader (snd (stream_recover n p s))) = zero_Usage"
    by (simp add: wp_def split: prod.splits outcome.splits)
  then show ?thesis by (simp add: Result_def buildResult_def Let_def read_loop_fields)
qed

theorem panic_exit_loses_usage_witness:
  "tsUsage (reader ((start_stream sample_stream_env)\<lparr>lOut := new_sink\<lparr>skSent := [step_chunk (zero_drain\<lparr>drUsage := sample_usage\<rparr>)]\<rparr>\<rparr>)) = sample_usage \<and>
   tsUsage (reader (snd (stream_recover 0 (PanicValue ''boom'')
     ((start_stream sample_stream_env)\<lparr>lOut := new_sink\<lparr>skSent := [step_chunk (zero_drain\<lparr>drUsage := sample_usage\<rparr>)]\<rparr>\<rparr>)))) = zero_Usage"
proof (rule conjI)
  show "tsUsage (reader ((start_stream sample_stream_env)\<lparr>lOut := new_sink\<lparr>skSent := [step_chunk (zero_drain\<lparr>drUsage := sample_usage\<rparr>)]\<rparr>\<rparr>)) = sample_usage"
    by (simp add: reader_def consume_chunk_type goai_boundary_def newTextStream_def Let_def split: prod.split)
qed (rule panic_exit_loses_usage [THEN conjunct1], simp add: new_sink_def)

definition sample_goroutine :: "(unit, unit) outcome \<times> stream_run" where
  "sample_goroutine = stream_goroutine sample_options sample_stream_env sample_stream [(''f'', example_tool ''f'')]
     (Some [text_chunk ''hi'', finish_chunk FinishStop]) 1 (start_stream sample_stream_env)"

lemma sample_goroutine_result: "tsStreamErr (reader (snd sample_goroutine)) = None \<and> map srText (rSteps (snd sample_goroutine)) = [''hi'']"
  by code_simp

theorem streamed_steps_rebuilt_witness:
  "map srText (rSteps (snd sample_goroutine)) = [''hi''] \<and>
   map unsourced (txSteps (Result (loop_handle (snd sample_goroutine)) (\<lambda>_. True) ErrContextCanceled [])) =
     map mirrored (rSteps (snd sample_goroutine))"
proof -
  have "provider_stream (Some [text_chunk ''hi'', finish_chunk FinishStop])"
    by (simp add: provider_stream_def untagged_def text_chunk_def finish_chunk_def zero_Chunk_def)
  moreover have "stream_entry (start_stream sample_stream_env)"
    by (simp add: stream_entry_def start_stream_def open_sink_def sample_stream_env_def)
  moreover have "Err (loop_handle (snd sample_goroutine)) (\<lambda>_. True) ErrContextCanceled [] = None"
    using sample_goroutine_result by (simp add: Err_def read_loop_fields)
  ultimately show ?thesis
    using streamed_steps_rebuilt [OF _ sample_stream_untagged _ prod.collapse [symmetric] _ refl,
      of "start_stream sample_stream_env" "Some [text_chunk ''hi'', finish_chunk FinishStop]" sample_options sample_stream_env
        "[(''f'', example_tool ''f'')]" 1 ErrContextCanceled "[]"] sample_goroutine_result
    by (auto simp: sample_goroutine_def)
qed

text \<open>
  The fallback is real: a first stream that carries only reasoning ends the loop without a step and
  without an error, and the result has one step all the same, with an empty text.
\<close>

definition reasoning_only :: "(unit, unit) outcome \<times> stream_run" where
  "reasoning_only = stream_goroutine sample_options sample_stream_env sample_stream [(''f'', example_tool ''f'')]
     (Some [block_chunk ''0'' ''hm'']) 1 (start_stream sample_stream_env)"

lemma fallback_step_without_loop_step:
  "rSteps (snd reasoning_only) = [] \<and>
   (let th = loop_handle (snd reasoning_only); res = Result th (\<lambda>_. True) ErrContextCanceled []
    in Err th (\<lambda>_. True) ErrContextCanceled [] = None \<and> map srText (txSteps res) = [[]] \<and>
       map srReasoning (txSteps res) = [''hm''] \<and> txText res = ''hm'')"
  by code_simp

end
