(* ===== verification/Normalize.thy ===== *)
theory Normalize
  imports ProviderTypes "HOL-Library.Multiset"
begin

text \<open>
  Preparing a conversation for strict providers (\<open>src/provider/normalize.go\<close>): every client tool call
  gets a result, roles alternate, and assistant parts are ordered. The code works on a deep enough
  copy of the messages, so the functions are pure.
\<close>

section \<open>The functions\<close>

definition client_call :: "Part \<Rightarrow> bool" where
  "client_call p \<longleftrightarrow> pType p = PartToolCall \<and> pToolCallID p \<noteq> [] \<and> \<not> has_key (pProviderOptions p) ''resultBlock''"

definition answering_role :: "Message \<Rightarrow> bool" where
  "answering_role m \<longleftrightarrow> mRole m = RoleTool \<or> mRole m = RoleUser"

definition result_ids :: "Message list \<Rightarrow> string list" where
  "result_ids msgs = concat (map (\<lambda>m. map pToolCallID
     (filter (\<lambda>p. pType p = PartToolResult \<and> pToolCallID p \<noteq> []) (mContent m))) msgs)"

definition aborted_result :: "Part \<Rightarrow> Part" where
  "aborted_result toolCall = zero_Part\<lparr>pType := PartToolResult, pToolCallID := pToolCallID toolCall,
     pToolOutput := ''Tool execution aborted'', pToolName := pToolName toolCall\<rparr>"

text \<open>The synthetic results missing after assistant message \<open>m\<close>, which \<open>rest\<close> follows.\<close>

definition orphans :: "Message \<Rightarrow> Message list \<Rightarrow> Part list" where
  "orphans m rest =
     (let toolCalls = filter client_call (mContent m);
          resultIDs = result_ids (takeWhile answering_role rest)
      in map aborted_result (filter (\<lambda>p. pToolCallID p \<notin> set resultIDs) toolCalls))"

definition count_assistants :: "Message list \<Rightarrow> nat" where
  "count_assistants msgs = length (filter (\<lambda>m. mRole m = RoleAssistant) msgs)"

function ensureToolResultPairing :: "Message list \<Rightarrow> Message list" where
  "ensureToolResultPairing [] = []"
| "ensureToolResultPairing (m # rest) =
     (if mRole m \<noteq> RoleAssistant \<or> orphans m rest = [] then m # ensureToolResultPairing rest
      else if rest \<noteq> [] \<and> answering_role (hd rest)
      then m # ensureToolResultPairing ((hd rest)\<lparr>mContent := mContent (hd rest) @ orphans m rest\<rparr> # tl rest)
      else m # ensureToolResultPairing (\<lparr>mRole = RoleTool, mContent = orphans m rest, mProviderOptions = []\<rparr> # rest))"
  by pat_completeness auto
termination
  by (relation "measure (\<lambda>msgs. length msgs + count_assistants msgs)")
     (auto simp: count_assistants_def neq_Nil_conv)

definition effective_role :: "Message \<Rightarrow> Role" where
  "effective_role m = (if mRole m = RoleTool then RoleUser else mRole m)"

definition results_first :: "Part list \<Rightarrow> Part list" where
  "results_first merged =
     (let toolResults = filter (\<lambda>p. pType p = PartToolResult) merged;
          others = filter (\<lambda>p. pType p \<noteq> PartToolResult) merged
      in if toolResults \<noteq> [] then toolResults @ others else merged)"

definition merge_role_step :: "Message list \<Rightarrow> Message \<Rightarrow> Message list" where
  "merge_role_step result msg =
     (if result \<noteq> [] \<and> effective_role (last result) = effective_role msg
      then butlast result @ [(last result)\<lparr>mContent := results_first (mContent (last result) @ mContent msg)\<rparr>]
      else result @ [msg])"

definition mergeConsecutiveRoles :: "Message list \<Rightarrow> Message list" where
  "mergeConsecutiveRoles msgs = foldl merge_role_step [] msgs"

definition NormalizeToolMessages :: "Message list \<Rightarrow> Message list" where
  "NormalizeToolMessages msgs = mergeConsecutiveRoles (ensureToolResultPairing msgs)"

definition reorder_assistant :: "Message \<Rightarrow> Message" where
  "reorder_assistant m =
     (let toolCallParts = filter (\<lambda>p. pType p = PartToolCall) (mContent m);
          textParts = filter (\<lambda>p. pType p \<noteq> PartToolCall) (mContent m)
      in if mRole m = RoleAssistant \<and> toolCallParts \<noteq> [] \<and> textParts \<noteq> []
         then m\<lparr>mContent := textParts @ toolCallParts\<rparr> else m)"

definition ReorderAssistantParts :: "Message list \<Rightarrow> Message list" where
  "ReorderAssistantParts msgs = map reorder_assistant msgs"

section \<open>Pairing\<close>

declare ensureToolResultPairing.simps(2) [simp del]

lemma pairing_eqs:
  "mRole m \<noteq> RoleAssistant \<or> orphans m rest = [] \<Longrightarrow> ensureToolResultPairing (m # rest) = m # ensureToolResultPairing rest"
  "mRole m = RoleAssistant \<Longrightarrow> orphans m rest \<noteq> [] \<Longrightarrow> rest \<noteq> [] \<Longrightarrow> answering_role (hd rest) \<Longrightarrow>
     ensureToolResultPairing (m # rest) =
       m # ensureToolResultPairing ((hd rest)\<lparr>mContent := mContent (hd rest) @ orphans m rest\<rparr> # tl rest)"
  "mRole m = RoleAssistant \<Longrightarrow> orphans m rest \<noteq> [] \<Longrightarrow> \<not> (rest \<noteq> [] \<and> answering_role (hd rest)) \<Longrightarrow>
     ensureToolResultPairing (m # rest) =
       m # ensureToolResultPairing (\<lparr>mRole = RoleTool, mContent = orphans m rest, mProviderOptions = []\<rparr> # rest)"
proof -
  assume *: "mRole m = RoleAssistant" "orphans m rest \<noteq> []" and no: "\<not> (rest \<noteq> [] \<and> answering_role (hd rest))"
  then have "\<not> (mRole m \<noteq> RoleAssistant \<or> orphans m rest = [])" by blast
  from if_not_P [OF this] if_not_P [OF no] show "ensureToolResultPairing (m # rest) =
       m # ensureToolResultPairing (\<lparr>mRole = RoleTool, mContent = orphans m rest, mProviderOptions = []\<rparr> # rest)"
    unfolding ensureToolResultPairing.simps(2) [of m rest] by metis
qed (simp_all add: ensureToolResultPairing.simps(2) [of m rest])


definition call_ids :: "Message \<Rightarrow> string set" where
  "call_ids m = (if mRole m = RoleAssistant then pToolCallID ` set (filter client_call (mContent m)) else {})"

text \<open>Every call is answered in the run of user and tool messages right after it.\<close>

fun paired :: "Message list \<Rightarrow> bool" where
  "paired [] = True"
| "paired (m # rest) \<longleftrightarrow> call_ids m \<subseteq> set (result_ids (takeWhile answering_role rest)) \<and> paired rest"

lemma result_ids_simps [simp]:
  "result_ids [] = []"
  "result_ids (m # ms) = map pToolCallID (filter (\<lambda>p. pType p = PartToolResult \<and> pToolCallID p \<noteq> []) (mContent m)) @ result_ids ms"
  "result_ids (ms @ ns) = result_ids ms @ result_ids ns"
  by (simp_all add: result_ids_def)

lemma orphans_Nil_iff:
  "orphans m rest = [] \<longleftrightarrow> pToolCallID ` set (filter client_call (mContent m)) \<subseteq> set (result_ids (takeWhile answering_role rest))"
  by (auto simp: orphans_def Let_def filter_empty_conv)

lemma orphan_ids:
  "p \<in> set (orphans m rest) \<Longrightarrow> pType p = PartToolResult \<and> pToolCallID p \<noteq> []"
  by (auto simp: orphans_def aborted_result_def client_call_def Let_def)

lemma orphans_cover:
  "pToolCallID ` set (filter client_call (mContent m)) \<subseteq>
     set (result_ids (takeWhile answering_role rest)) \<union> pToolCallID ` set (orphans m rest)"
  by (auto simp: orphans_def aborted_result_def Let_def image_image)

lemma call_ids_assistant:
  "mRole m = RoleAssistant \<Longrightarrow> call_ids m = pToolCallID ` set (filter client_call (mContent m))"
  by (simp add: call_ids_def)

lemma answering_not_assistant: "answering_role m \<Longrightarrow> mRole m \<noteq> RoleAssistant"
  by (auto simp: answering_role_def)

text \<open>The first message is kept but for results added to its content.\<close>

lemma pairing_hd_answering:
  "answering_role m \<Longrightarrow> ensureToolResultPairing (m # rest) = m # ensureToolResultPairing rest"
  by (simp add: answering_not_assistant pairing_eqs(1))

lemma pairing_results_grow:
  "set (result_ids (takeWhile answering_role rest)) \<subseteq>
     set (result_ids (takeWhile answering_role (ensureToolResultPairing rest)))"
proof (induction rest rule: ensureToolResultPairing.induct)
  case (2 m rest)
  show ?case
  proof (cases "answering_role m")
    case True
    with 2(1) pairing_hd_answering [OF True] answering_not_assistant [OF True] show ?thesis by auto
  qed simp
qed simp

lemma ensureToolResultPairing_paired: "paired (ensureToolResultPairing msgs)"
proof (induction msgs rule: ensureToolResultPairing.induct)
  case (2 m rest)
  consider (skip) "mRole m \<noteq> RoleAssistant \<or> orphans m rest = []"
    | (append) "mRole m = RoleAssistant" "orphans m rest \<noteq> []" "rest \<noteq> []" "answering_role (hd rest)"
    | (insert) "mRole m = RoleAssistant" "orphans m rest \<noteq> []" "\<not> (rest \<noteq> [] \<and> answering_role (hd rest))"
    by blast
  then show ?case
  proof cases
    case skip
    with 2(1) pairing_results_grow [of rest] show ?thesis
      by (auto simp: call_ids_def orphans_Nil_iff pairing_eqs(1))
  next
    case append
    let ?n = "(hd rest)\<lparr>mContent := mContent (hd rest) @ orphans m rest\<rparr>"
    have n: "answering_role ?n" using append(4) by (simp add: answering_role_def)
    have "set (result_ids (takeWhile answering_role rest)) \<union> pToolCallID ` set (orphans m rest)
        \<subseteq> set (result_ids (takeWhile answering_role (?n # tl rest)))"
      using append(3,4) n orphan_ids by (cases rest) auto
    with pairing_results_grow [of "?n # tl rest"] orphans_cover [of m rest]
    have "call_ids m \<subseteq> set (result_ids (takeWhile answering_role (ensureToolResultPairing (?n # tl rest))))"
      unfolding call_ids_assistant [OF append(1)] by (meson order_trans)
    moreover have "ensureToolResultPairing (m # rest) = m # ensureToolResultPairing (?n # tl rest)"
      using append by (intro pairing_eqs(2))
    moreover have "paired (ensureToolResultPairing (?n # tl rest))" using 2(2) append by blast
    ultimately show ?thesis by simp
  next
    case insert
    let ?n = "\<lparr>mRole = RoleTool, mContent = orphans m rest, mProviderOptions = []\<rparr>"
    have n: "answering_role ?n" by (simp add: answering_role_def)
    have "takeWhile answering_role rest = []" using insert(3) by (cases rest) auto
    then have "set (result_ids (takeWhile answering_role rest)) \<union> pToolCallID ` set (orphans m rest)
        \<subseteq> set (result_ids (takeWhile answering_role (?n # rest)))"
      using n orphan_ids by auto
    with pairing_results_grow [of "?n # rest"] orphans_cover [of m rest]
    have "call_ids m \<subseteq> set (result_ids (takeWhile answering_role (ensureToolResultPairing (?n # rest))))"
      unfolding call_ids_assistant [OF insert(1)] by (meson order_trans)
    moreover have "ensureToolResultPairing (m # rest) = m # ensureToolResultPairing (?n # rest)"
      using insert by (intro pairing_eqs(3))
    moreover have "paired (ensureToolResultPairing (?n # rest))" using 2(3) insert by blast
    ultimately show ?thesis by simp
  qed
qed simp


lemma paired_fixed: "paired msgs \<Longrightarrow> ensureToolResultPairing msgs = msgs"
proof (induction msgs)
  case (Cons m rest)
  then have "mRole m \<noteq> RoleAssistant \<or> orphans m rest = []"
    by (auto simp: call_ids_def orphans_Nil_iff)
  with Cons show ?case by (simp add: pairing_eqs(1))
qed simp

section \<open>Merging\<close>

lemma results_first_set [simp]: "set (results_first ps) = set ps"
  by (auto simp: results_first_def Let_def)

lemma mset_partition: "mset (filter P xs @ filter (\<lambda>x. \<not> P x) xs) = mset xs"
  by (induction xs) auto

lemma results_first_mset [simp]: "mset (results_first ps) = mset ps"
  using mset_partition [of "\<lambda>p. pType p = PartToolResult" ps] by (simp add: results_first_def Let_def)

definition merge_pair :: "Message \<Rightarrow> Message \<Rightarrow> Message" where
  "merge_pair a b = a\<lparr>mContent := results_first (mContent a @ mContent b)\<rparr>"

lemma effective_answering: "answering_role m \<longleftrightarrow> effective_role m = RoleUser"
  by (auto simp: answering_role_def effective_role_def)

lemma effective_assistant: "mRole m = RoleAssistant \<longleftrightarrow> effective_role m = RoleAssistant"
  by (auto simp: effective_role_def)

lemma merge_pair_role [simp]: "effective_role (merge_pair a b) = effective_role a" "mRole (merge_pair a b) = mRole a"
  by (simp_all add: merge_pair_def effective_role_def)

lemma call_ids_merge: "effective_role a = effective_role b \<Longrightarrow> call_ids (merge_pair a b) = call_ids a \<union> call_ids b"
  by (auto simp: call_ids_def merge_pair_def effective_role_def split: if_splits)

lemma result_ids_merge: "set (result_ids (merge_pair a b # ys)) = set (result_ids (a # b # ys))"
  by (auto simp: merge_pair_def)

lemma answered_merge:
  assumes "effective_role a = effective_role b"
  shows "set (result_ids (takeWhile answering_role (xs @ a # b # ys))) =
    set (result_ids (takeWhile answering_role (xs @ merge_pair a b # ys)))"
proof (induction xs)
  case Nil
  have "answering_role a = answering_role b" using assms by (simp add: effective_answering)
  moreover have "answering_role (merge_pair a b) = answering_role a" by (simp add: effective_answering)
  ultimately show ?case using result_ids_merge [of a b "takeWhile answering_role ys"] by simp
next
  case (Cons x xs)
  then show ?case by simp
qed

lemma paired_merge:
  assumes "effective_role a = effective_role b" "paired (xs @ a # b # ys)"
  shows "paired (xs @ merge_pair a b # ys)"
  using assms(2)
proof (induction xs)
  case Nil
  show ?case
  proof (cases "mRole a = RoleAssistant")
    case True
    then have "\<not> answering_role b" using assms(1) by (auto simp: effective_answering effective_assistant)
    then have "call_ids a = {}" using Nil by simp
    with Nil assms(1) show ?thesis by (simp add: call_ids_merge)
  next
    case False
    then show ?thesis using Nil by (simp add: call_ids_def)
  qed
next
  case (Cons x xs)
  then show ?case using answered_merge [OF assms(1), of xs ys] by simp
qed

definition alternating :: "Message list \<Rightarrow> bool" where
  "alternating msgs \<longleftrightarrow> successively (\<lambda>m n. effective_role m \<noteq> effective_role n) msgs"

lemma alternating_snoc:
  "alternating (xs @ [x]) \<longleftrightarrow> alternating xs \<and> (xs = [] \<or> effective_role (last xs) \<noteq> effective_role x)"
  by (auto simp: alternating_def successively_append_iff)

lemma merge_role_step_cases:
  obtains (merge) ys y where "result = ys @ [y]" "effective_role y = effective_role m"
      "merge_role_step result m = ys @ [merge_pair y m]"
  | (append) "merge_role_step result m = result @ [m]" "result = [] \<or> effective_role (last result) \<noteq> effective_role m"
proof (cases "result \<noteq> [] \<and> effective_role (last result) = effective_role m")
  case True
  then have "result = butlast result @ [last result]" by simp
  from that(1) [OF this] True show thesis by (simp add: merge_role_step_def merge_pair_def)
next
  case False
  with that(2) show thesis by (auto simp: merge_role_step_def)
qed

lemma merge_role_step_alternating: "alternating result \<Longrightarrow> alternating (merge_role_step result m)"
  by (cases result m rule: merge_role_step_cases) (auto simp: alternating_snoc)

lemma merge_role_step_paired: "paired (result @ m # ms) \<Longrightarrow> paired (merge_role_step result m @ ms)"
  by (cases result m rule: merge_role_step_cases) (auto intro: paired_merge)

abbreviation parts_of :: "Message list \<Rightarrow> Part multiset" where
  "parts_of msgs \<equiv> mset (concat (map mContent msgs))"

lemma merge_role_step_parts: "parts_of (merge_role_step result m) = parts_of result + mset (mContent m)"
  by (cases result m rule: merge_role_step_cases) (auto simp: merge_pair_def)

lemma alternating_Nil [simp]: "alternating []"
  by (simp add: alternating_def)

lemma foldl_merge:
  "alternating result \<Longrightarrow> alternating (foldl merge_role_step result msgs)"
  "paired (result @ msgs) \<Longrightarrow> paired (foldl merge_role_step result msgs)"
  "parts_of (foldl merge_role_step result msgs) = parts_of result + parts_of msgs"
  by (induction msgs arbitrary: result)
     (auto simp: merge_role_step_alternating merge_role_step_paired merge_role_step_parts)

lemma merge_alternating [simp]: "alternating (mergeConsecutiveRoles msgs)"
  by (simp add: mergeConsecutiveRoles_def foldl_merge(1))

lemma merge_paired: "paired msgs \<Longrightarrow> paired (mergeConsecutiveRoles msgs)"
  by (simp add: mergeConsecutiveRoles_def foldl_merge(2))

lemma merge_parts: "parts_of (mergeConsecutiveRoles msgs) = parts_of msgs"
  by (simp add: mergeConsecutiveRoles_def foldl_merge(3))

lemma merge_fixed: "alternating msgs \<Longrightarrow> mergeConsecutiveRoles msgs = msgs"
proof (induction msgs rule: rev_induct)
  case (snoc m msgs)
  then show ?case by (auto simp: mergeConsecutiveRoles_def alternating_snoc merge_role_step_def)
qed (simp add: mergeConsecutiveRoles_def)

section \<open>Properties\<close>

lemma next_message_answers:
  assumes "alternating (m # rest)" "paired (m # rest)" "i \<in> call_ids m"
  shows "rest \<noteq> [] \<and> answering_role (hd rest) \<and> i \<in> set (result_ids [hd rest])"
proof -
  have i: "i \<in> set (result_ids (takeWhile answering_role rest))" using assms(2,3) by auto
  then obtain n ms where rest: "rest = n # ms" and n: "answering_role n"
    by (cases rest) (auto split: if_splits)
  have "takeWhile answering_role ms = []"
    using assms(1) n by (cases ms) (auto simp: alternating_def rest effective_answering)
  with i n show ?thesis by (simp add: rest)
qed

lemma alternating_drop: "alternating msgs \<Longrightarrow> alternating (drop i msgs)"
  unfolding alternating_def by (metis append_take_drop_id successively_append_iff)

lemma paired_drop: "paired msgs \<Longrightarrow> paired (drop i msgs)"
  by (induction msgs arbitrary: i) (auto simp: drop_Cons split: nat.split)

text \<open>
  C34: a normalised conversation is what strict providers accept: neighbouring messages have different
  effective roles, and every client tool call of an assistant message is answered by a tool result
  with its id in the very next message, which is a user or tool message.
\<close>

theorem NormalizeToolMessages_valid:
  assumes "out = NormalizeToolMessages msgs"
  shows "alternating out \<and> (\<forall>k < length out. \<forall>i \<in> call_ids (out ! k).
    Suc k < length out \<and> answering_role (out ! Suc k) \<and> i \<in> set (result_ids [out ! Suc k]))"
proof -
  have out: "alternating out" "paired out"
    using ensureToolResultPairing_paired [of msgs] by (simp_all add: assms NormalizeToolMessages_def merge_paired)
  have "Suc k < length out \<and> answering_role (out ! Suc k) \<and> i \<in> set (result_ids [out ! Suc k])"
    if "k < length out" "i \<in> call_ids (out ! k)" for k i
  proof -
    have d: "drop k out = out ! k # drop (Suc k) out" using that(1) by (simp add: Cons_nth_drop_Suc)
    from next_message_answers [of "out ! k" "drop (Suc k) out" i] alternating_drop [OF out(1), of k]
      paired_drop [OF out(2), of k] that(2)
    have n: "drop (Suc k) out \<noteq> []" "answering_role (hd (drop (Suc k) out))" "i \<in> set (result_ids [hd (drop (Suc k) out)])"
      unfolding d by blast+
    then have "Suc k < length out" by simp
    with n show ?thesis by (simp only: hd_drop_conv_nth)
  qed
  with out(1) show ?thesis by blast
qed

theorem NormalizeToolMessages_valid_witness:
  "alternating (NormalizeToolMessages [\<lparr>mRole = RoleAssistant,
     mContent = [zero_Part\<lparr>pType := PartToolCall, pToolCallID := ''1''\<rparr>], mProviderOptions = []\<rparr>])"
  using NormalizeToolMessages_valid [OF refl] by blast

definition aborted :: "Part \<Rightarrow> bool" where
  "aborted p \<longleftrightarrow> pType p = PartToolResult \<and> pToolOutput p = ''Tool execution aborted''"

lemma orphans_aborted: "list_all aborted (orphans m rest)"
  by (auto simp: orphans_def aborted_result_def aborted_def list_all_iff Let_def)

lemma pairing_parts:
  "\<exists>added. parts_of (ensureToolResultPairing msgs) = parts_of msgs + mset added \<and> list_all aborted added"
proof (induction msgs rule: ensureToolResultPairing.induct)
  case 1
  show ?case by (rule exI [of _ "[]"]) simp
next
  case (2 m rest)
  consider (skip) "mRole m \<noteq> RoleAssistant \<or> orphans m rest = []"
    | (append) "mRole m = RoleAssistant" "orphans m rest \<noteq> []" "rest \<noteq> []" "answering_role (hd rest)"
    | (insert) "mRole m = RoleAssistant" "orphans m rest \<noteq> []" "\<not> (rest \<noteq> [] \<and> answering_role (hd rest))"
    by blast
  then show ?case
  proof cases
    case skip
    with 2(1) obtain added where "parts_of (ensureToolResultPairing rest) = parts_of rest + mset added" "list_all aborted added"
      by blast
    with skip show ?thesis by (intro exI [of _ added]) (simp add: pairing_eqs(1))
  next
    case append
    let ?n = "(hd rest)\<lparr>mContent := mContent (hd rest) @ orphans m rest\<rparr>"
    obtain added where "parts_of (ensureToolResultPairing (?n # tl rest)) = parts_of (?n # tl rest) + mset added" "list_all aborted added"
      using 2(2) append by blast
    moreover have "parts_of (?n # tl rest) = parts_of rest + mset (orphans m rest)"
      using append(3) by (cases rest) simp_all
    ultimately show ?thesis
      using orphans_aborted [of m rest] by (intro exI [of _ "orphans m rest @ added"]) (simp add: pairing_eqs(2) [OF append])
  next
    case insert
    let ?n = "\<lparr>mRole = RoleTool, mContent = orphans m rest, mProviderOptions = []\<rparr>"
    obtain added where "parts_of (ensureToolResultPairing (?n # rest)) = parts_of (?n # rest) + mset added" "list_all aborted added"
      using 2(3) insert by blast
    then show ?thesis
      using orphans_aborted [of m rest] by (intro exI [of _ "orphans m rest @ added"]) (simp add: pairing_eqs(3) [OF insert])
  qed
qed

text \<open>
  C35: normalising loses nothing and is stable: the parts of the result are the parts of the input plus
  synthetic "aborted" tool results, and normalising again changes nothing.
\<close>

theorem NormalizeToolMessages_stable:
  "(\<exists>added. parts_of (NormalizeToolMessages msgs) = parts_of msgs + mset added \<and> list_all aborted added) \<and>
   NormalizeToolMessages (NormalizeToolMessages msgs) = NormalizeToolMessages msgs"
proof
  show "NormalizeToolMessages (NormalizeToolMessages msgs) = NormalizeToolMessages msgs"
    using ensureToolResultPairing_paired [of msgs]
    by (simp add: NormalizeToolMessages_def paired_fixed merge_paired merge_fixed)
qed (simp add: NormalizeToolMessages_def merge_parts pairing_parts)


text \<open>
  A user message that follows an unanswered call gets the synthetic result after its text: the
  "results first" order is only established when messages are merged.
\<close>

lemma aborted_result_after_text:
  "map (map pType \<circ> mContent) (NormalizeToolMessages
     [\<lparr>mRole = RoleAssistant, mContent = [zero_Part\<lparr>pType := PartToolCall, pToolCallID := ''1''\<rparr>], mProviderOptions = []\<rparr>,
      \<lparr>mRole = RoleUser, mContent = [zero_Part\<lparr>pType := PartText, pText := ''go on''\<rparr>], mProviderOptions = []\<rparr>]) =
   [[PartToolCall], [PartText, PartToolResult]]"
  by code_simp

lemma filter_complement:
  "filter P xs = [] \<Longrightarrow> filter (\<lambda>x. \<not> P x) xs = xs" "filter (\<lambda>x. \<not> P x) xs = [] \<Longrightarrow> filter P xs = xs"
  by (auto simp: filter_empty_conv filter_id_conv)

lemma reorder_assistant_content:
  "mContent (reorder_assistant m) =
     (if mRole m = RoleAssistant
      then filter (\<lambda>p. pType p \<noteq> PartToolCall) (mContent m) @ filter (\<lambda>p. pType p = PartToolCall) (mContent m)
      else mContent m)"
proof (cases "filter (\<lambda>p. pType p = PartToolCall) (mContent m) = []")
  case True
  then show ?thesis
    using filter_complement(1) [OF True] by (simp add: reorder_assistant_def Let_def)
next
  case False
  then show ?thesis
    using filter_complement(2) [of "\<lambda>p. pType p = PartToolCall" "mContent m"]
    by (auto simp: reorder_assistant_def Let_def)
qed

text \<open>
  reordering is stable and only moves tool calls: in every assistant message the other parts come
  first, both groups keep their order, and nothing else changes.
\<close>

theorem ReorderAssistantParts_order:
  "length (ReorderAssistantParts msgs) = length msgs \<and>
   (\<forall>i < length msgs.
      (ReorderAssistantParts msgs ! i)\<lparr>mContent := []\<rparr> = (msgs ! i)\<lparr>mContent := []\<rparr> \<and>
      mContent (ReorderAssistantParts msgs ! i) =
        (if mRole (msgs ! i) = RoleAssistant
         then filter (\<lambda>p. pType p \<noteq> PartToolCall) (mContent (msgs ! i)) @
              filter (\<lambda>p. pType p = PartToolCall) (mContent (msgs ! i))
         else mContent (msgs ! i)))"
  by (auto simp: ReorderAssistantParts_def reorder_assistant_content) (simp add: reorder_assistant_def Let_def)

theorem ReorderAssistantParts_order_witness:
  "mContent (ReorderAssistantParts [\<lparr>mRole = RoleAssistant,
      mContent = [zero_Part\<lparr>pType := PartToolCall\<rparr>, zero_Part\<lparr>pType := PartText\<rparr>], mProviderOptions = []\<rparr>] ! 0) =
   [zero_Part\<lparr>pType := PartText\<rparr>, zero_Part\<lparr>pType := PartToolCall\<rparr>]"
  using ReorderAssistantParts_order [of "[\<lparr>mRole = RoleAssistant,
      mContent = [zero_Part\<lparr>pType := PartToolCall\<rparr>, zero_Part\<lparr>pType := PartText\<rparr>], mProviderOptions = []\<rparr>]"]
  by (simp add: zero_Part_def)

end
