(* ===== verification/StreamSteps.thy ===== *)
theory StreamSteps
  imports Drain
begin

text \<open>
  The streaming readers of the providers are loops of steps that send chunks. A reader's local variables extend
  the record \<open>emitter\<close>, which holds the output channel; a step goes on with the next statement or returns
  from the reader (\<open>False\<close>). The second half states what every reader's steps have in common: while the
  receiver listens they send inner chunks until a last one ends the stream.
\<close>

record emitter =
  emOut :: sink

type_synonym 's step = "'s emitter_scheme \<Rightarrow> bool \<times> 's emitter_scheme"

definition go_on :: "'s step" where "go_on s = (True, s)"

definition and_then :: "bool \<times> 's emitter_scheme \<Rightarrow> 's step \<Rightarrow> bool \<times> 's emitter_scheme" where
  "and_then r k = (if fst r then k (snd r) else r)"

definition emit :: "StreamChunk \<Rightarrow> 's step" where
  "emit chunk s = (case TrySend (emOut s) chunk of (ok, out) \<Rightarrow> (ok, s\<lparr>emOut := out\<rparr>))"

definition emit_return :: "StreamChunk \<Rightarrow> 's step" where
  "emit_return chunk s = (False, snd (emit chunk s))"

definition err_chunk :: "go_error \<Rightarrow> StreamChunk" where
  "err_chunk e = zero_Chunk\<lparr>scType := ChunkError, scError := Some e\<rparr>"

fun each_step :: "('a \<Rightarrow> 's step) \<Rightarrow> 'a list \<Rightarrow> 's step" where
  "each_step f [] s = (True, s)"
| "each_step f (x # xs) s = and_then (f x s) (each_step f xs)"

section \<open>What steps send\<close>

definition inner_chunk :: "StreamChunk \<Rightarrow> bool" where
  "inner_chunk c \<longleftrightarrow> scType c \<noteq> ChunkFinish \<and> scType c \<noteq> ChunkError"

definition last_chunk :: "StreamChunk \<Rightarrow> bool" where
  "last_chunk c \<longleftrightarrow> scType c = ChunkFinish \<or> scType c = ChunkError"

text \<open>
  While the receiver listens, a step that goes on sends inner chunks, one that returns ends with a final
  one: \<open>advances ok out out'\<close>.
\<close>

definition good_chunks :: "bool \<Rightarrow> StreamChunk list \<Rightarrow> bool" where
  "good_chunks ok cs \<longleftrightarrow>
     (if ok then list_all inner_chunk cs else cs \<noteq> [] \<and> list_all inner_chunk (butlast cs) \<and> last_chunk (last cs))"

lemma good_append: "good_chunks True cs \<Longrightarrow> good_chunks ok ds \<Longrightarrow> good_chunks ok (cs @ ds)"
  by (auto simp: good_chunks_def butlast_append)

definition advances :: "bool \<Rightarrow> sink \<Rightarrow> sink \<Rightarrow> bool" where
  "advances ok out out' \<longleftrightarrow> open_sink out' \<and> (\<exists>cs. skSent out' = skSent out @ cs \<and> good_chunks ok cs)"

lemma advances_refl: "open_sink out \<Longrightarrow> advances True out out"
  by (auto simp: advances_def good_chunks_def)

lemma advances_trans: "advances True a b \<Longrightarrow> advances ok b c \<Longrightarrow> advances ok a c"
  unfolding advances_def using good_append by (metis append_assoc)

definition sends :: "'s step \<Rightarrow> bool" where
  "sends m \<longleftrightarrow> (\<forall>s. open_sink (emOut s) \<longrightarrow> advances (fst (m s)) (emOut s) (emOut (snd (m s))))"

lemma sendsI:
  "(\<And>s. open_sink (emOut s) \<Longrightarrow> advances (fst (m s)) (emOut s) (emOut (snd (m s)))) \<Longrightarrow> sends m"
  by (simp add: sends_def)

lemma sendsD: "sends m \<Longrightarrow> open_sink (emOut s) \<Longrightarrow> emOut s = out \<Longrightarrow> advances (fst (m s)) out (emOut (snd (m s)))"
  by (auto simp: sends_def)

lemma emit_open:
  "open_sink (emOut s) \<Longrightarrow> emit c s =
     (True, s\<lparr>emOut := (emOut s)\<lparr>skTried := Suc (skTried (emOut s)), skSent := skSent (emOut s) @ [c]\<rparr>\<rparr>)"
  by (simp add: emit_def)

lemma sends_go_on [intro!, simp]: "sends go_on"
  by (simp add: sends_def go_on_def advances_refl)

lemma sends_emit [intro!]: "inner_chunk c \<Longrightarrow> sends (emit c)"
  by (rule sendsI) (auto simp: emit_open advances_def good_chunks_def)

lemma sends_emit_return [intro!]: "last_chunk c \<Longrightarrow> sends (emit_return c)"
  by (rule sendsI) (auto simp: emit_open emit_return_def advances_def good_chunks_def)

text \<open>The same for a result reached from a given state.\<close>

definition reached :: "sink \<Rightarrow> bool \<times> 's emitter_scheme \<Rightarrow> bool" where
  "reached out r \<longleftrightarrow> advances (fst r) out (emOut (snd r))"

lemma sends_reached: "sends m \<longleftrightarrow> (\<forall>s. open_sink (emOut s) \<longrightarrow> reached (emOut s) (m s))"
  by (simp add: sends_def reached_def)

lemma reached_same: "open_sink out \<Longrightarrow> emOut s = out \<Longrightarrow> reached out (True, s)"
  by (simp add: reached_def advances_refl)

lemma reached_step: "sends m \<Longrightarrow> open_sink out \<Longrightarrow> emOut s = out \<Longrightarrow> reached out (m s)"
  by (auto simp: sends_reached)

lemma reached_then:
  assumes "reached out r" "\<And>s. open_sink (emOut s) \<Longrightarrow> reached (emOut s) (k s)"
  shows "reached out (and_then r k)"
  using assms advances_trans by (cases r) (fastforce simp: and_then_def reached_def advances_def)

lemma reached_if: "(P \<Longrightarrow> reached out a) \<Longrightarrow> (\<not> P \<Longrightarrow> reached out b) \<Longrightarrow> reached out (if P then a else b)"
  by simp

lemma reached_option:
  "(v = None \<Longrightarrow> reached out a) \<Longrightarrow> (\<And>x. v = Some x \<Longrightarrow> reached out (f x)) \<Longrightarrow>
     reached out (case v of None \<Rightarrow> a | Some x \<Rightarrow> f x)"
  by (cases v) simp_all

lemma sends_each: "(\<And>x. sends (f x)) \<Longrightarrow> sends (each_step f xs)"
proof (induction xs)
  case (Cons a xs)
  then show ?case
    by (auto simp: sends_reached intro!: reached_then)
qed (simp add: sends_def advances_refl)

text \<open>Exact states: the receiver gets the chunks in order.\<close>

definition push :: "StreamChunk list \<Rightarrow> sink \<Rightarrow> sink" where
  "push cs out = out\<lparr>skTried := skTried out + length cs, skSent := skSent out @ cs\<rparr>"

lemma push_push [simp]: "push ds (push cs out) = push (cs @ ds) out"
  by (simp add: push_def)

lemma push_simps [simp]:
  "push [] out = out" "open_sink (push cs out) = open_sink out" "skSent (push cs out) = skSent out @ cs"
  by (simp_all add: push_def)

lemma emit_push: "open_sink (emOut s) \<Longrightarrow> emit c s = (True, s\<lparr>emOut := push [c] (emOut s)\<rparr>)"
  by (simp add: emit_open push_def)

text \<open>A property of every chunk a step sends, whether or not the receiver listens.\<close>

definition only_sends :: "(StreamChunk \<Rightarrow> bool) \<Rightarrow> 's step \<Rightarrow> bool" where
  "only_sends Q m \<longleftrightarrow>
     (\<forall>s. \<exists>cs. skSent (emOut (snd (m s))) = skSent (emOut s) @ cs \<and> list_all Q cs)"

lemma only_sendsD:
  "only_sends Q m \<Longrightarrow> m s = (ok, t) \<Longrightarrow> \<exists>cs. skSent (emOut t) = skSent (emOut s) @ cs \<and> list_all Q cs"
  unfolding only_sends_def by (metis snd_conv)

definition sent_only :: "(StreamChunk \<Rightarrow> bool) \<Rightarrow> sink \<Rightarrow> bool \<times> 's emitter_scheme \<Rightarrow> bool" where
  "sent_only Q out r \<longleftrightarrow> (\<exists>cs. skSent (emOut (snd r)) = skSent out @ cs \<and> list_all Q cs)"

lemma only_sends_sent: "only_sends Q m \<longleftrightarrow> (\<forall>s. sent_only Q (emOut s) (m s))"
  by (simp add: only_sends_def sent_only_def)

lemma sent_only_same: "emOut s = out \<Longrightarrow> sent_only Q out (b, s)"
  by (simp add: sent_only_def)

lemma sent_only_step: "only_sends Q m \<Longrightarrow> emOut s = out \<Longrightarrow> sent_only Q out (m s)"
  by (auto simp: only_sends_sent)

lemma sent_only_emit: "Q c \<Longrightarrow> emOut s = out \<Longrightarrow> sent_only Q out (emit c s)"
  by (auto simp: sent_only_def emit_def TrySend_def)

lemma sent_only_emit_return: "Q c \<Longrightarrow> emOut s = out \<Longrightarrow> sent_only Q out (emit_return c s)"
  by (auto simp: sent_only_def emit_return_def emit_def TrySend_def)

lemma sent_only_then:
  assumes "sent_only Q out r" "\<And>s. sent_only Q (emOut s) (k s)"
  shows "sent_only Q out (and_then r k)"
proof (cases "fst r")
  case True
  obtain cs where cs: "skSent (emOut (snd r)) = skSent out @ cs" "list_all Q cs"
    using assms(1) by (auto simp: sent_only_def)
  obtain ds where "skSent (emOut (snd (k (snd r)))) = skSent (emOut (snd r)) @ ds" "list_all Q ds"
    using assms(2) by (auto simp: sent_only_def)
  with cs True show ?thesis
    unfolding sent_only_def and_then_def by (auto intro!: exI [of _ "cs @ ds"])
qed (use assms(1) in \<open>simp add: and_then_def\<close>)

lemma sent_only_if:
  "(P \<Longrightarrow> sent_only Q out a) \<Longrightarrow> (\<not> P \<Longrightarrow> sent_only Q out b) \<Longrightarrow> sent_only Q out (if P then a else b)"
  by simp

lemma sent_only_option:
  "(v = None \<Longrightarrow> sent_only Q out a) \<Longrightarrow> (\<And>x. v = Some x \<Longrightarrow> sent_only Q out (f x)) \<Longrightarrow>
     sent_only Q out (case v of None \<Rightarrow> a | Some x \<Rightarrow> f x)"
  by (cases v) simp_all

lemma only_sends_each: "(\<And>x. only_sends Q (f x)) \<Longrightarrow> only_sends Q (each_step f xs)"
proof (induction xs)
  case (Cons a xs)
  then show ?case
    by (auto simp: only_sends_sent intro!: sent_only_then)
qed (simp add: only_sends_def)

end
