(* ===== verification/SseScan.thy ===== *)
theory SseScan
  imports Sse
begin

text \<open>
  The loop all stream readers run over a scanner, \<open>for data, ok := s.Next(); ok; data, ok = s.Next()\<close>: the
  payloads it sees and the error \<open>s.Err()\<close> reports when it ends.
\<close>

lemma readLine_line_todo:
  "fst (readLine n s) = (line, e) \<Longrightarrow> line \<noteq> [] \<Longrightarrow> todo (snd (readLine n s)) < todo s"
proof (induction n s rule: readLine.induct)
  case (1 n s)
  obtain r s2 where end1: "lineEnd (drop_skipped_LF s) = (r, s2)" by fastforce
  have le: "todo s2 \<le> todo s"
    using lineEnd_frame(1,3) [OF end1] todo_drop_skipped_LF [of s] by (simp add: todo_def)
  show ?case
  proof (cases r)
    case None
    have short: "\<not> MaxLineSize < length (pending s2)"
      using "1.prems" end1 None by (auto simp: readLine.simps [of n s] split: if_splits)
    show ?thesis
    proof (cases "readErr s2")
      case live: None
      let ?a = "absorb_read n s2"
      have rec: "readLine n s = readLine (fst ?a) (snd ?a)"
        using short live end1 None by (simp add: readLine.simps [of n s] split_beta)
      have "todo (snd (readLine (fst ?a) (snd ?a))) < todo (snd ?a)"
        using "1.prems" short live end1 None unfolding rec by (intro "1.IH" [OF refl _ refl]) simp_all
      with rec todo_absorb_read [of n s2] le show ?thesis by simp
    next
      case (Some x)
      with "1.prems" short end1 None have "pending s2 \<noteq> []"
        by (auto simp: readLine.simps [of n s] split: if_splits)
      moreover have "snd (readLine n s) = s2\<lparr>pending := [], scanFrom := 0, atStart := False\<rparr>"
        using calculation Some short end1 None
        by (auto simp: readLine.simps [of n s] stripInitialBOM_def split: if_splits)
      ultimately have "todo (snd (readLine n s)) < todo s2" by (simp add: todo_def)
      with le show ?thesis by simp
    qed
  next
    case (Some i)
    have bounds: "0 < i" "i \<le> length (pending s2)"
      using lineEnd_bounds [of "drop_skipped_LF s" i s2] lineEnd_frame(3) [OF end1] end1 Some by auto
    have "snd (readLine n s) = s2\<lparr>pending := drop i (pending s2), scanFrom := 0, atStart := False\<rparr>"
      using "1.prems" end1 Some
      by (auto simp: readLine.simps [of n s] stripInitialBOM_def split: if_splits)
    with bounds have "todo (snd (readLine n s)) < todo s2" by (simp add: todo_def)
    with le show ?thesis by simp
  qed
qed

lemma next_loop_todo: "next_loop s = (Some p, s') \<Longrightarrow> todo s' < todo s"
proof (induction s rule: next_loop.induct)
  case (1 s)
  obtain line e s1 where rl: "readLine 0 s = ((line, e), s1)" by (metis surj_pair)
  show ?case
  proof (cases "if line \<noteq> [] then data_payload (trim_eol line) else None")
    case None
    with "1.prems" rl have "e = None" "next_loop s1 = (Some p, s')"
      by (auto simp: next_loop.simps [of s] split: option.splits)
    moreover have "todo s1 < todo s" using readLine_todo [of 0 s line] rl calculation by simp
    moreover have "todo s' < todo s1" using "1.IH" [OF refl refl refl refl] None rl calculation(1,2) by (auto split: if_splits)
    ultimately show ?thesis by simp
  next
    case (Some q)
    then have "line \<noteq> []" by (auto split: if_splits)
    then have "todo s1 < todo s" using readLine_line_todo [of 0 s line e] rl by simp
    with "1.prems" rl Some show ?thesis by (auto simp: next_loop.simps [of s] split: if_splits)
  qed
qed

lemma Next_todo: "Next s = (Some p, s') \<Longrightarrow> todo s' < todo s"
  by (auto simp: Next_def split: if_splits intro: next_loop_todo)

function scan_payloads :: "Scanner \<Rightarrow> string list \<times> go_error option" where
  "scan_payloads s =
     (case Next s of
        (None, s') \<Rightarrow> ([], scanErr s')
      | (Some data, s') \<Rightarrow> apfst (\<lambda>ps. data # ps) (scan_payloads s'))"
  by pat_completeness auto
termination
  by (relation "measure todo") (auto dest: Next_todo [OF sym])

declare scan_payloads.simps [simp del]

lemma scan_payloads_outputs: "\<exists>n. \<forall>m \<ge> n. outputs Next m s = fst (scan_payloads s)"
proof (induction s rule: scan_payloads.induct)
  case (1 s)
  obtain r s' where nx: "Next s = (r, s')" by fastforce
  show ?case
  proof (cases r)
    case None
    then show ?thesis using nx by (auto simp: scan_payloads.simps [of s] outputs_None intro!: exI [of _ 0])
  next
    case (Some p)
    with 1 [OF nx [symmetric] Some] obtain n where n: "\<forall>m \<ge> n. outputs Next m s' = fst (scan_payloads s')" by blast
    have "outputs Next m s = fst (scan_payloads s)" if "m \<ge> Suc n" for m
      using that n nx Some by (cases m) (simp_all add: scan_payloads.simps [of s])
    then show ?thesis by blast
  qed
qed

lemma scan_payloads_spec:
  "steady r \<Longrightarrow> fst (scan_payloads (NewScanner r)) = payloads (spec_lines (data_of r, final_of r, True))"
proof -
  assume "steady r"
  obtain n where n: "\<forall>m \<ge> n. outputs Next m (NewScanner r) = fst (scan_payloads (NewScanner r))"
    using scan_payloads_outputs by blast
  let ?ps = "payloads (spec_lines (data_of r, final_of r, True))"
  let ?m = "max n (length ?ps)"
  have "outputs Next ?m (NewScanner r) = take ?m ?ps"
    using data_lines.refined_outputs [OF rest_new(2) [OF \<open>steady r\<close>]] rest_new(1) [OF \<open>steady r\<close>]
    by (simp add: outputs_pop rest_payloads_def NewScanner_def)
  with n show ?thesis by (metis max.cobounded1 max.cobounded2 take_all)
qed

lemma scan_encoded:
  "steady r \<Longrightarrow> data_of r = encode_events es \<Longrightarrow> list_all event_ok es \<Longrightarrow>
     fst (scan_payloads (NewScanner r)) = takeWhile (\<lambda>p. p \<noteq> ''[DONE]'') (concat (map snd es))"
  by (simp add: scan_payloads_spec encoded_lines payloads_def payloads_of_events)

text \<open>A stream of whole lines that ends with \<open>io.EOF\<close> is scanned without an error.\<close>

definition whole_lines :: "string \<times> go_error \<times> bool \<Rightarrow> bool" where
  "whole_lines a \<longleftrightarrow> (\<exists>ls f. a = (unlines ls, ErrEOF, f) \<and> (f \<and> ls \<noteq> [] \<longrightarrow> \<not> has_prefix (hd ls @ [LF]) BOM) \<and>
     (\<forall>l \<in> set ls. CR \<notin> set l \<and> LF \<notin> set l \<and> length l < MaxLineSize))"

lemma whole_lines_step:
  assumes "whole_lines a"
  shows "spec_line a = (([], Some ErrEOF), a) \<or> (\<exists>line a'. spec_line a = ((line, None), a') \<and> whole_lines a')"
proof -
  obtain ls f where a: "a = (unlines ls, ErrEOF, f)" "f \<and> ls \<noteq> [] \<longrightarrow> \<not> has_prefix (hd ls @ [LF]) BOM"
    "\<forall>l \<in> set ls. CR \<notin> set l \<and> LF \<notin> set l \<and> length l < MaxLineSize" using assms by (auto simp: whole_lines_def)
  show ?thesis
  proof (cases ls)
    case Nil
    with a show ?thesis by (simp add: unlines_def)
  next
    case (Cons l ls')
    then have "spec_line a = ((l @ [LF], None), (unlines ls', ErrEOF, False))"
      using a eol_index_line [of l "unlines ls'"] by (simp add: unlines_def strip_bom_def trim_prefix_def)
    moreover have "whole_lines (unlines ls', ErrEOF, False)" using a Cons by (auto simp: whole_lines_def)
    ultimately show ?thesis by blast
  qed
qed

lemma next_loop_clean:
  "stream_inv s \<Longrightarrow> scanErr s = None \<Longrightarrow> whole_lines (abs_stream s) \<Longrightarrow> next_loop s = (r, s') \<Longrightarrow>
     scanErr s' = None \<and> (r \<noteq> None \<longrightarrow> stream_inv s' \<and> whole_lines (abs_stream s'))"
proof (induction s rule: next_loop.induct)
  case (1 s)
  obtain line e s1 where rl: "readLine 0 s = ((line, e), s1)" by (metis surj_pair)
  have ref: "line_refined s ((line, e), s1)" using readLine_refines [OF "1.prems"(1), of 0] rl by simp
  have cases: "e = None \<and> whole_lines (abs_stream s1) \<and> stream_inv s1 \<or> line = [] \<and> e = Some ErrEOF"
    using whole_lines_step [OF "1.prems"(3)] ref by (auto simp: line_refined_def err_line_too_long_def)
  have err: "scanErr s1 = None" using ref "1.prems"(2) by (simp add: line_refined_def)
  show ?case
  proof (cases "if line \<noteq> [] then data_payload (trim_eol line) else None")
    case None
    show ?thesis
    proof (cases e)
      case e: None
      with None rl "1.prems"(4) have "next_loop s1 = (r, s')"
        by (auto simp: next_loop.simps [of s] split: option.splits if_splits)
      with "1.IH" [OF refl refl refl refl] None rl e cases err show ?thesis by (auto split: if_splits)
    next
      case (Some x)
      with cases rl "1.prems"(4) err show ?thesis
        by (auto simp: next_loop.simps [of s] fail_unless_EOF_def)
    qed
  next
    case (Some q)
    with rl "1.prems"(4) cases err show ?thesis by (auto simp: next_loop.simps [of s] split: if_splits)
  qed
qed

lemma scan_clean:
  "stream_inv s \<Longrightarrow> scanErr s = None \<Longrightarrow> whole_lines (abs_stream s) \<Longrightarrow> snd (scan_payloads s) = None"
proof (induction s rule: scan_payloads.induct)
  case (1 s)
  obtain r s' where nx: "Next s = (r, s')" by fastforce
  have "scanErr s' = None \<and> (r \<noteq> None \<longrightarrow> stream_inv s' \<and> whole_lines (abs_stream s'))"
    using nx "1.prems" next_loop_clean [of s r s'] by (auto simp: Next_def split: if_splits)
  with 1 nx show ?case by (cases r) (simp_all add: scan_payloads.simps [of s])
qed

lemma scan_encoded_end:
  assumes "steady r" "data_of r = encode_events es" "list_all event_ok es" "final_of r = ErrEOF"
  shows "scan_payloads (NewScanner r) = (takeWhile (\<lambda>p. p \<noteq> ''[DONE]'') (concat (map snd es)), None)"
proof -
  let ?ls = "concat (map event_lines es)"
  have ok: "\<forall>l \<in> set ?ls. CR \<notin> set l \<and> LF \<notin> set l \<and> length l < MaxLineSize \<and> \<not> has_prefix (l @ [LF]) BOM"
    using assms(3) by (auto simp: list_all_iff dest!: event_lines_ok)
  then have "?ls \<noteq> [] \<longrightarrow> \<not> has_prefix (hd ?ls @ [LF]) BOM" using hd_in_set by blast
  with ok have "whole_lines (abs_stream (NewScanner r))"
    unfolding whole_lines_def abs_stream_new assms(2,4) encode_events_def by blast
  then have "snd (scan_payloads (NewScanner r)) = None"
    using scan_clean [OF stream_inv_new [OF assms(1)]] by (simp add: NewScanner_def)
  with scan_encoded [OF assms(1-3)] show ?thesis by (simp add: prod_eq_iff)
qed

end
