(* ===== verification/HttpErrors.thy ===== *)
theory HttpErrors
  imports Retry Utf8 ByteReader
begin

text \<open>
  Classification of failures (\<open>src/errors.go\<close>) and the HTTP helpers all providers share
  (\<open>src/internal/httpc/httpc.go\<close>). JSON decoding and the HTTP client are parameters.
\<close>

section \<open>Context overflow messages\<close>

text \<open>
  The regular expressions as sequences of atoms. Under \<open>(?i)\<close> a letter matches both ASCII cases, and
  \<open>k\<close> and \<open>s\<close> also the Kelvin sign and the long s in their UTF-8 encoding.
\<close>

datatype atom =
    Lit char
  | OneOf string
  | Digits1         \<comment> \<open>\<open>\\d+\<close>\<close>
  | Spaces0         \<comment> \<open>\<open>\\s*\<close>\<close>
  | Any0            \<comment> \<open>\<open>.*\<close>\<close>
  | Maybe string    \<comment> \<open>\<open>(text)?\<close>\<close>

definition fold_rests :: "char \<Rightarrow> string \<Rightarrow> string list" where
  "fold_rests c s =
     (case s of [] \<Rightarrow> [] | d # r \<Rightarrow> if lower d = c then [r] else []) @
     (if c = CHR ''k'' \<and> has_prefix s [CHR 0xE2, CHR 0x84, CHR 0xAA] then [drop 3 s] else []) @
     (if c = CHR ''s'' \<and> has_prefix s [CHR 0xC5, CHR 0xBF] then [drop 2 s] else [])"

fun word_rests :: "string \<Rightarrow> string \<Rightarrow> string list" where
  "word_rests [] s = [s]"
| "word_rests (c # cs) s = concat (map (word_rests cs) (fold_rests c s))"

fun span_rests :: "(char \<Rightarrow> bool) \<Rightarrow> string \<Rightarrow> string list" where
  "span_rests P [] = [[]]"
| "span_rests P (c # s) = (c # s) # (if P c then span_rests P s else [])"

fun atom_rests :: "atom \<Rightarrow> string \<Rightarrow> string list" where
  "atom_rests (Lit c) s = fold_rests c s"
| "atom_rests (OneOf cs) s = (case s of [] \<Rightarrow> [] | d # r \<Rightarrow> if d \<in> set cs then [r] else [])"
| "atom_rests Digits1 s = (case s of [] \<Rightarrow> [] | d # r \<Rightarrow> if is_digit d then span_rests is_digit r else [])"
| "atom_rests Spaces0 s = span_rests re_space s"
| "atom_rests Any0 s = span_rests (\<lambda>c. c \<noteq> LF) s"
| "atom_rests (Maybe t) s = s # word_rests t s"

fun matches_here :: "atom list \<Rightarrow> string \<Rightarrow> bool" where
  "matches_here [] s = True"
| "matches_here (a # as) s = list_ex (matches_here as) (atom_rests a s)"

fun MatchString :: "atom list \<Rightarrow> string \<Rightarrow> bool" where
  "MatchString as [] = matches_here as []"
| "MatchString as (c # s) = (matches_here as (c # s) \<or> MatchString as s)"

abbreviation lit :: "string \<Rightarrow> atom list" where "lit s \<equiv> map Lit s"

definition overflowPatterns :: "atom list list" where
  "overflowPatterns =
     [lit ''prompt is too long'', lit ''input is too long for requested model'', lit ''exceeds the context window'',
      lit ''input token count'' @ [Any0] @ lit ''exceeds the maximum'',
      lit ''maximum prompt length is '' @ [Digits1], lit ''reduce the length of the messages'',
      lit ''maximum context length is '' @ [Digits1] @ lit '' tokens'', lit ''exceeds the limit of '' @ [Digits1],
      lit ''exceeds the available context size'', lit ''greater than the context length'',
      lit ''context window exceeds limit'', lit ''exceeded model token limit'',
      lit ''context'' @ [OneOf ''_ ''] @ lit ''length'' @ [OneOf ''_ ''] @ lit ''exceeded'']"

text \<open>The last pattern, \<open>^4(00|13)\\s*(status code)?\\s*\\(no body\\)\<close>, is anchored.\<close>

definition no_body_patterns :: "atom list list" where
  "no_body_patterns =
     map (\<lambda>code. lit code @ [Spaces0, Maybe ''status code'', Spaces0] @ lit ''(no body)'') [''400'', ''413'']"

definition IsOverflow :: "string \<Rightarrow> bool" where
  "IsOverflow message \<longleftrightarrow>
     list_ex (\<lambda>p. MatchString p message) overflowPatterns \<or> list_ex (\<lambda>p. matches_here p message) no_body_patterns"

section \<open>Errors inside a stream\<close>

datatype StreamErrorType = StreamErrorContextOverflow | StreamErrorAPI

record ParsedStreamError =
  pseType :: StreamErrorType
  pseMessage :: string
  pseIsRetryable :: bool
  pseResponseBody :: string

text \<open>The decoded members \<open>type\<close>, \<open>error.code\<close> and \<open>error.message\<close> of an error event.\<close>

record error_event =
  eeType :: string
  eeCode :: string
  eeMessage :: string

definition api_stream_error :: "string \<Rightarrow> string \<Rightarrow> ParsedStreamError" where
  "api_stream_error message body =
     \<lparr>pseType = StreamErrorAPI, pseMessage = message, pseIsRetryable = False, pseResponseBody = body\<rparr>"

definition overflow_stream_error :: "string \<Rightarrow> string \<Rightarrow> ParsedStreamError" where
  "overflow_stream_error message body =
     \<lparr>pseType = StreamErrorContextOverflow, pseMessage = message, pseIsRetryable = False, pseResponseBody = body\<rparr>"

definition streamErrorFromMessage :: "string \<Rightarrow> string \<Rightarrow> ParsedStreamError" where
  "streamErrorFromMessage message body =
     (if IsOverflow message then overflow_stream_error message body else api_stream_error message body)"

definition ParseStreamError :: "(string \<Rightarrow> error_event option) \<Rightarrow> string \<Rightarrow> ParsedStreamError option" where
  "ParseStreamError unm body =
     (case unm body of
        None \<Rightarrow> None
      | Some obj \<Rightarrow>
          if eeType obj = ''error'' then
            (if eeCode obj = ''context_length_exceeded''
             then Some (overflow_stream_error ''Input exceeds context window of this model'' body)
             else if eeCode obj = ''insufficient_quota''
             then Some (api_stream_error ''Quota exceeded. Check your plan and billing details.'' body)
             else if eeCode obj = ''usage_not_included''
             then Some (api_stream_error ''To use Codex with your ChatGPT plan, upgrade to Plus.'' body)
             else if eeCode obj = ''invalid_prompt''
             then Some (api_stream_error (if eeMessage obj \<noteq> [] then eeMessage obj else ''Invalid prompt.'') body)
             else None)
          else if eeMessage obj \<noteq> [] then Some (streamErrorFromMessage (eeMessage obj) body)
          else None)"

definition ClassifyStreamError :: "(string \<Rightarrow> error_event option) \<Rightarrow> string \<Rightarrow> go_error option" where
  "ClassifyStreamError unm body =
     (case ParseStreamError unm body of
        None \<Rightarrow> None
      | Some parsed \<Rightarrow>
          Some (if pseType parsed = StreamErrorContextOverflow
                then ErrContextOverflow \<lparr>OverflowMessage = pseMessage parsed, OverflowBody = pseResponseBody parsed\<rparr>
                else ErrAPI \<lparr>Message = pseMessage parsed, StatusCode = 0, IsRetryable = pseIsRetryable parsed,
                       ResponseBody = pseResponseBody parsed, ResponseHeaders = []\<rparr>))"

section \<open>HTTP error answers\<close>

text \<open>\<open>%d\<close> of an \<open>int\<close>.\<close>

definition show_int :: "int \<Rightarrow> string" where
  "show_int i = (if i < 0 then CHR ''-'' # show_nat (nat (- i)) else show_nat (nat i))"

text \<open>\<open>obj[k].(string)\<close>, empty strings not counted.\<close>

definition nonempty_str :: "anymap \<Rightarrow> string \<Rightarrow> string option" where
  "nonempty_str m k = (case get_str m k of Some s \<Rightarrow> if s \<noteq> [] then Some s else None | None \<Rightarrow> None)"

text \<open>
  \<open>json\<close> is \<open>json.Unmarshal\<close> into a \<open>map[string]any\<close>, \<open>StatusText\<close> Go's table of reason phrases.
\<close>

definition extractErrorMessage :: "(string \<Rightarrow> anymap option) \<Rightarrow> (int \<Rightarrow> string) \<Rightarrow> int \<Rightarrow> string \<Rightarrow> string" where
  "extractErrorMessage json StatusText statusCode body =
     (if body = [] then show_int statusCode @ '' (no body)''
      else
        let fallback = show_int statusCode @ '' '' @ StatusText statusCode @ '': '' @ cut_runes 200 body in
        case json body of
          None \<Rightarrow> fallback
        | Some obj \<Rightarrow>
            (case Option.bind (get_map obj ''error'') (\<lambda>e. nonempty_str e ''message'') of
               Some msg \<Rightarrow> msg
             | None \<Rightarrow>
                 (case nonempty_str obj ''message'' of
                    Some msg \<Rightarrow> msg
                  | None \<Rightarrow> (case nonempty_str obj ''error'' of Some msg \<Rightarrow> msg | None \<Rightarrow> fallback))))"

text \<open>\<open>http.Header.Get\<close> on a header that stores canonical keys: the first value, or the empty string.\<close>

type_synonym http_header = "(string \<times> string list) list"

definition Header_Get :: "http_header \<Rightarrow> string \<Rightarrow> string" where
  "Header_Get h key = (case map_of h key of Some (v # _) \<Rightarrow> v | _ \<Rightarrow> [])"

definition RetryHeaders :: "http_header \<Rightarrow> go_headers" where
  "RetryHeaders h =
     map (\<lambda>(key, canonical). (key, Header_Get h canonical))
       (filter (\<lambda>(key, canonical). Header_Get h canonical \<noteq> [])
          [(''retry-after'', ''Retry-After''), (''retry-after-ms'', ''Retry-After-Ms'')])"

definition ParseHTTPErrorWithHeaders ::
    "(string \<Rightarrow> anymap option) \<Rightarrow> (int \<Rightarrow> string) \<Rightarrow> string \<Rightarrow> int \<Rightarrow> string \<Rightarrow> http_header \<Rightarrow> go_error" where
  "ParseHTTPErrorWithHeaders json StatusText providerID statusCode body headers =
     (let message = extractErrorMessage json StatusText statusCode body in
      if IsOverflow message then ErrContextOverflow \<lparr>OverflowMessage = message, OverflowBody = body\<rparr>
      else
        let isRetryable = (statusCode = 429 \<or> statusCode = 503 \<or> 500 \<le> statusCode);
            isRetryable = (if providerID = ''openai'' \<and> statusCode = 404 then True else isRetryable)
        in ErrAPI \<lparr>Message = message, StatusCode = statusCode, IsRetryable = isRetryable,
             ResponseBody = body, ResponseHeaders = RetryHeaders headers\<rparr>)"

definition ParseHTTPError :: "(string \<Rightarrow> anymap option) \<Rightarrow> (int \<Rightarrow> string) \<Rightarrow> string \<Rightarrow> int \<Rightarrow> string \<Rightarrow> go_error" where
  "ParseHTTPError json StatusText providerID statusCode body =
     ParseHTTPErrorWithHeaders json StatusText providerID statusCode body []"

section \<open>Requests\<close>

text \<open>\<open>http.CanonicalHeaderKey\<close>: keys with a character that no token has stay as they are.\<close>

definition upper :: "char \<Rightarrow> char" where
  "upper c = (let n = of_char c in if 97 \<le> n \<and> n \<le> (122 :: nat) then char_of (n - 32) else c)"

definition token_char :: "char \<Rightarrow> bool" where
  "token_char c \<longleftrightarrow> is_digit c \<or> (lower c \<in> set ''abcdefghijklmnopqrstuvwxyz'') \<or> c \<in> set ''!#$%&*+-.^_`|~'' \<or> c = CHR 0x27"

fun canonical_loop :: "bool \<Rightarrow> string \<Rightarrow> string" where
  "canonical_loop up [] = []"
| "canonical_loop up (c # s) = (if up then upper c else lower c) # canonical_loop (c = CHR ''-'') s"

definition CanonicalHeaderKey :: "string \<Rightarrow> string" where
  "CanonicalHeaderKey s = (if list_all token_char s then canonical_loop True s else s)"

definition Header_Set :: "string \<Rightarrow> string \<Rightarrow> http_header \<Rightarrow> http_header" where
  "Header_Set k v h = AList.update (CanonicalHeaderKey k) [v] h"

record RequestConfig =
  cfgURL :: string
  cfgToken :: string
  cfgBody :: anymap
  cfgHeaders :: go_headers
  cfgProviderID :: string

record http_request =
  rqMethod :: string
  rqURL :: string
  rqHeader :: http_header
  rqBody :: string

record http_response =
  rsStatusCode :: int
  rsHeader :: http_header
  rsBody :: reader

definition request_headers :: "anymap \<Rightarrow> go_headers" where
  "request_headers body = (case map_of body ''_headers'' of Some (AStrMap h) \<Rightarrow> h | _ \<Rightarrow> [])"

definition set_headers :: "go_headers \<Rightarrow> http_header \<Rightarrow> http_header" where
  "set_headers hs h = foldl (\<lambda>h (k, v). Header_Set k v h) h hs"

definition MustMarshalJSON :: "(anymap \<Rightarrow> go_error + string) \<Rightarrow> anymap \<Rightarrow> go_panic + string" where
  "MustMarshalJSON Marshal v =
     (case Marshal v of
        Inl err \<Rightarrow> Inl (PanicValue (''httpc: json.Marshal failed: '' @ error_text err))
      | Inr data \<Rightarrow> Inr data)"

text \<open>\<open>NewRequest\<close> is \<open>http.NewRequestWithContext\<close>, which refuses an invalid method or URL.\<close>

definition MustNewRequest :: "(string \<Rightarrow> string \<Rightarrow> go_error option) \<Rightarrow> string \<Rightarrow> string \<Rightarrow> string \<Rightarrow> go_panic + http_request" where
  "MustNewRequest NewRequest meth url body =
     (case NewRequest meth url of
        Some err \<Rightarrow> Inl (PanicValue (''httpc: http.NewRequestWithContext failed: '' @ error_text err))
      | None \<Rightarrow> Inr \<lparr>rqMethod = meth, rqURL = url, rqHeader = [], rqBody = body\<rparr>)"

definition build_http_request ::
    "(anymap \<Rightarrow> go_error + string) \<Rightarrow> (string \<Rightarrow> string \<Rightarrow> go_error option) \<Rightarrow> RequestConfig \<Rightarrow> go_panic + http_request" where
  "build_http_request Marshal NewRequest cfg =
     (let reqHeaders = request_headers (cfgBody cfg); body = AList.delete ''_headers'' (cfgBody cfg) in
      case MustMarshalJSON Marshal body of
        Inl p \<Rightarrow> Inl p
      | Inr jsonBody \<Rightarrow>
          (case MustNewRequest NewRequest ''POST'' (cfgURL cfg) jsonBody of
             Inl p \<Rightarrow> Inl p
           | Inr req \<Rightarrow>
               let h = Header_Set ''Content-Type'' ''application/json'' (rqHeader req);
                   h = set_headers (cfgHeaders cfg) h;
                   h = set_headers reqHeaders h;
                   h = (if cfgToken cfg \<noteq> [] then Header_Set ''Authorization'' (''Bearer '' @ cfgToken cfg) h else h)
               in Inr (req\<lparr>rqHeader := h\<rparr>)))"

text \<open>\<open>Do\<close> is the client; an error answer is read up to one mebibyte.\<close>

definition DoJSONRequest ::
    "(anymap \<Rightarrow> go_error + string) \<Rightarrow> (string \<Rightarrow> string \<Rightarrow> go_error option) \<Rightarrow>
     (http_request \<Rightarrow> go_error + http_response) \<Rightarrow>
     (string \<Rightarrow> int \<Rightarrow> string \<Rightarrow> http_header \<Rightarrow> go_error) \<Rightarrow> RequestConfig \<Rightarrow> go_panic + (go_error + http_response)" where
  "DoJSONRequest Marshal NewRequest Do parseError cfg =
     (case build_http_request Marshal NewRequest cfg of
        Inl p \<Rightarrow> Inl p
      | Inr req \<Rightarrow> Inr
          (case Do req of
             Inl err \<Rightarrow> Inl (ErrWrap (''sending request: '' @ error_text err) err)
           | Inr resp \<Rightarrow>
               if rsStatusCode resp \<noteq> 200
               then Inl (parseError (cfgProviderID cfg) (rsStatusCode resp) (take 1048576 (data_of (rsBody resp))) (rsHeader resp))
               else Inr resp))"

section \<open>Data URLs\<close>

definition base64_char :: "char \<Rightarrow> bool" where
  "base64_char c \<longleftrightarrow> is_digit c \<or> lower c \<in> set ''abcdefghijklmnopqrstuvwxyz'' \<or> c \<in> {CHR ''+'', CHR ''/''}"

text \<open>Whether \<open>base64.StdEncoding\<close> decodes the text: line breaks are skipped, padding is required.\<close>

definition valid_base64 :: "string \<Rightarrow> bool" where
  "valid_base64 s =
     (let t = filter (\<lambda>c. c \<noteq> CR \<and> c \<noteq> LF) s; core = takeWhile base64_char t; pad = drop (length core) t in
      length t mod 4 = 0 \<and> pad \<in> {[], ''='', ''==''})"

definition ParseDataURL :: "string \<Rightarrow> (string \<times> string) option" where
  "ParseDataURL url =
     (if \<not> has_prefix url ''data:'' then None
      else
        let rest = drop 5 url in
        case index_of '';base64,'' rest of
          None \<Rightarrow> None
        | Some semicolon \<Rightarrow>
            let mediaType = take semicolon rest; data = drop (semicolon + 8) rest in
            if mediaType = [] \<or> data = [] then None
            else if \<not> valid_base64 data then None else Some (mediaType, data))"

section \<open>The expressions as languages\<close>

text \<open>What one occurrence of a folded letter, an atom and a sequence match.\<close>

definition fold_lang :: "char \<Rightarrow> string set" where
  "fold_lang c = {u. (\<exists>d. u = [d] \<and> lower d = c) \<or> c = CHR ''k'' \<and> u = [CHR 0xE2, CHR 0x84, CHR 0xAA] \<or>
     c = CHR ''s'' \<and> u = [CHR 0xC5, CHR 0xBF]}"

fun word_lang :: "string \<Rightarrow> string set" where
  "word_lang [] = {[]}"
| "word_lang (c # cs) = {u @ v |u v. u \<in> fold_lang c \<and> v \<in> word_lang cs}"

fun atom_lang :: "atom \<Rightarrow> string set" where
  "atom_lang (Lit c) = fold_lang c"
| "atom_lang (OneOf cs) = {[d] |d. d \<in> set cs}"
| "atom_lang Digits1 = {ds. ds \<noteq> [] \<and> list_all is_digit ds}"
| "atom_lang Spaces0 = {ss. list_all re_space ss}"
| "atom_lang Any0 = {ss. LF \<notin> set ss}"
| "atom_lang (Maybe t) = {[]} \<union> word_lang t"

fun seq_lang :: "atom list \<Rightarrow> string set" where
  "seq_lang [] = {[]}"
| "seq_lang (a # as) = {u @ v |u v. u \<in> atom_lang a \<and> v \<in> seq_lang as}"

lemma strip_prefix_iff: "r \<in> set (if b \<and> has_prefix s p then [drop (length p) s] else []) \<longleftrightarrow> b \<and> s = p @ r"
  by (auto simp: has_prefix_iff)

lemma fold_rests_iff: "r \<in> set (fold_rests c s) \<longleftrightarrow> (\<exists>u \<in> fold_lang c. s = u @ r)"
proof -
  have 1: "r \<in> set (case s of [] \<Rightarrow> [] | d # t \<Rightarrow> if lower d = c then [t] else []) \<longleftrightarrow> (\<exists>d. lower d = c \<and> s = [d] @ r)"
    by (cases s) auto
  have 3: "drop 3 s = drop (length [CHR 0xE2, CHR 0x84, CHR 0xAA]) s" and 2: "drop 2 s = drop (length [CHR 0xC5, CHR 0xBF]) s"
    by (simp_all only: list.size numeral_3_eq_3 numeral_2_eq_2 add_0_right Suc_eq_plus1 add.commute)
  show ?thesis
    unfolding fold_rests_def set_append Un_iff 1 3 2 strip_prefix_iff fold_lang_def Bex_def mem_Collect_eq
    by blast
qed

text \<open>Two languages one after the other.\<close>

lemma seq_split:
  "(\<exists>w \<in> {u @ v |u v. u \<in> A \<and> v \<in> B}. s = w @ r) \<longleftrightarrow> (\<exists>t. (\<exists>u \<in> A. s = u @ t) \<and> (\<exists>v \<in> B. t = v @ r))"
  (is "?l \<longleftrightarrow> ?r")
proof
  assume ?l
  then obtain u v where "u \<in> A" "v \<in> B" "s = u @ v @ r" by auto
  then show ?r by (intro exI [of _ "v @ r"]) auto
next
  assume ?r
  then obtain t u v where "u \<in> A" "v \<in> B" "s = u @ v @ r" by auto
  then show ?l by (intro bexI [of _ "u @ v"]) auto
qed

lemma word_rests_iff: "r \<in> set (word_rests cs s) \<longleftrightarrow> (\<exists>u \<in> word_lang cs. s = u @ r)"
proof (induction cs arbitrary: s r)
  case (Cons c cs)
  have "r \<in> set (word_rests (c # cs) s) \<longleftrightarrow> (\<exists>t. (\<exists>u \<in> fold_lang c. s = u @ t) \<and> (\<exists>v \<in> word_lang cs. t = v @ r))"
    using Cons.IH by (simp add: fold_rests_iff Bex_def)
  then show ?case by (simp only: word_lang.simps seq_split)
qed auto

lemma span_rests_iff: "r \<in> set (span_rests P s) \<longleftrightarrow> (\<exists>u. list_all P u \<and> s = u @ r)"
  by (induction s arbitrary: r) (auto simp: Cons_eq_append_conv)

lemma atom_rests_iff: "r \<in> set (atom_rests a s) \<longleftrightarrow> (\<exists>u \<in> atom_lang a. s = u @ r)"
proof (cases a)
  case Digits1
  then show ?thesis by (cases s) (auto simp: span_rests_iff Cons_eq_append_conv)
qed (auto simp: fold_rests_iff word_rests_iff span_rests_iff list_all_iff split: list.splits)

lemma matches_here_iff: "matches_here as s \<longleftrightarrow> (\<exists>r. \<exists>u \<in> seq_lang as. s = u @ r)"
proof (induction as arbitrary: s)
  case (Cons a as)
  have "matches_here (a # as) s \<longleftrightarrow> (\<exists>r t. (\<exists>u \<in> atom_lang a. s = u @ t) \<and> (\<exists>v \<in> seq_lang as. t = v @ r))"
    using Cons.IH by (auto simp: list_ex_iff atom_rests_iff Bex_def)
  then show ?case by (simp only: seq_lang.simps seq_split)
qed auto

text \<open>The matcher decides its expressions: some part of the message belongs to the language.\<close>

lemma MatchString_iff:
  "MatchString as s \<longleftrightarrow> (\<exists>pre u post. s = pre @ u @ post \<and> u \<in> seq_lang as)"
proof (induction s)
  case (Cons c s)
  have "(\<exists>pre u post. c # s = pre @ u @ post \<and> u \<in> seq_lang as) \<longleftrightarrow>
     (\<exists>u post. c # s = u @ post \<and> u \<in> seq_lang as) \<or> (\<exists>pre u post. s = pre @ u @ post \<and> u \<in> seq_lang as)" (is "?l \<longleftrightarrow> ?r")
  proof
    assume ?l
    then obtain pre u post where "c # s = pre @ u @ post" "u \<in> seq_lang as" by blast
    then show ?r by (cases pre) auto
  next
    assume ?r
    then show ?l by (metis append_Cons append_Nil)
  qed
  with Cons show ?case by (auto simp: matches_here_iff)
qed (auto simp: matches_here_iff)

section \<open>Errors and retries\<close>

text \<open>
  How a failed HTTP call is retried: when its message is no context overflow, it is retried exactly for
  the statuses 429 and 500 and above (and 404 from OpenAI), and the wait is the server's hint: the
  \<open>Retry-After-Ms\<close> header first, then the seconds of \<open>Retry-After\<close>.
\<close>

theorem http_error_retry:
  assumes "err = ParseHTTPErrorWithHeaders json StatusText providerID statusCode body headers"
    "\<not> IsOverflow (extractErrorMessage json StatusText statusCode body)"
  shows "(retryable (Some err) \<longleftrightarrow> statusCode = 429 \<or> 500 \<le> statusCode \<or> providerID = ''openai'' \<and> statusCode = 404) \<and>
    (\<forall>v. positive_int (Header_Get headers ''Retry-After-Ms'') = Some v \<longrightarrow>
       retryAfterDuration until_date err = wrap64 (v * Millisecond)) \<and>
    (\<forall>v. positive_int (Header_Get headers ''Retry-After-Ms'') = None \<longrightarrow>
       positive_int (Header_Get headers ''Retry-After'') = Some v \<longrightarrow>
       retryAfterDuration until_date err = wrap64 (v * Second))"
proof -
  have "positive_int [] = None" by (simp add: positive_int_def ParseInt_def)
  then show ?thesis using assms
    by (auto simp: ParseHTTPErrorWithHeaders_def Let_def retryable_def retryAfterDuration_def RetryHeaders_def
        split: option.splits if_splits)
qed

theorem http_error_retry_witness:
  "retryable (Some (ParseHTTPErrorWithHeaders (\<lambda>_. None) (\<lambda>_. ''Too Many Requests'') ''x'' 429 ''slow down'' []))"
proof -
  have "\<not> IsOverflow (extractErrorMessage (\<lambda>_. None) (\<lambda>_. ''Too Many Requests'') 429 ''slow down'')" by code_simp
  from http_error_retry [OF refl this] show ?thesis by blast
qed

lemma canonical_authorization: "CanonicalHeaderKey ''Authorization'' = ''Authorization''"
  by code_simp

text \<open>
  No header given by the caller, neither on the provider nor per request, replaces the configured
  credential, and the per-request headers never reach the JSON body.
\<close>

theorem credential_kept:
  assumes "build_http_request Marshal NewRequest cfg = Inr req" "cfgToken cfg \<noteq> []"
  shows "Header_Get (rqHeader req) ''Authorization'' = ''Bearer '' @ cfgToken cfg \<and>
    (\<exists>body. Marshal body = Inr (rqBody req) \<and> map_of body = (map_of (cfgBody cfg))(''_headers'' := None))"
  using assms
  by (auto simp: build_http_request_def MustMarshalJSON_def MustNewRequest_def Let_def Header_Get_def Header_Set_def [of "''Authorization''"]
      canonical_authorization split: sum.splits option.splits)

theorem credential_kept_witness:
  "\<exists>req. build_http_request (\<lambda>_. Inr ''{}'') (\<lambda>_ _. None) \<lparr>cfgURL = ''u'', cfgToken = ''t'',
       cfgBody = [(''_headers'', AStrMap [(''authorization'', ''other'')])], cfgHeaders = [], cfgProviderID = ''p''\<rparr> = Inr req \<and>
     Header_Get (rqHeader req) ''Authorization'' = ''Bearer t''"
  using credential_kept [of "\<lambda>_. Inr ''{}''" "\<lambda>_ _. None" "\<lparr>cfgURL = ''u'', cfgToken = ''t'',
       cfgBody = [(''_headers'', AStrMap [(''authorization'', ''other'')])], cfgHeaders = [], cfgProviderID = ''p''\<rparr>"]
  by (simp add: build_http_request_def MustMarshalJSON_def MustNewRequest_def Let_def)

text \<open>An overflow message that quotes a network failure makes the error retryable after all.\<close>

lemma overflow_retried:
  "retryable (Some (ParseHTTPError (\<lambda>_. None) (\<lambda>_. ''Bad Request'') ''x'' 400 ''prompt is too long (i/o timeout)''))"
  by code_simp

end
