(* ===== verification/AnthropicStream.thy ===== *)
theory AnthropicStream
  imports StreamSteps SseScan HttpErrors
begin

text \<open>
  The streaming reader of the Anthropic provider (\<open>parseSSE\<close> in \<open>src/provider/anthropic/anthropic.go\<close>):
  server-sent events become stream chunks, and the content blocks are rebuilt in order for replay.
  JSON decoding and the iteration order of a Go map are parameters.
\<close>

section \<open>Numbers and members of a decoded event\<close>

definition float_integral :: "string \<Rightarrow> bool" where
  "float_integral f \<longleftrightarrow> CHR ''.'' \<notin> set f"

definition str_of :: "anymap \<Rightarrow> string \<Rightarrow> string" where
  "str_of m k = (case get_str m k of Some s \<Rightarrow> s | None \<Rightarrow> [])"

definition get_float :: "anymap \<Rightarrow> string \<Rightarrow> string option" where
  "get_float m k = (case map_of m k of Some (AFloat f) \<Rightarrow> Some f | _ \<Rightarrow> None)"

definition token_count :: "anymap \<Rightarrow> string \<Rightarrow> 64 word option" where
  "token_count m k = map_option (\<lambda>f. of_int (float_trunc f)) (get_float m k)"

definition maxStreamedContentBlocks :: int where "maxStreamedContentBlocks = 500"

text \<open>\<open>%T\<close> of a decoded value.\<close>

fun type_name :: "any \<Rightarrow> string" where
  "type_name ANil = ''<nil>''"
| "type_name (ABool b) = ''bool''"
| "type_name (AFloat f) = ''float64''"
| "type_name (AStr s) = ''string''"
| "type_name (AList l) = ''[]interface {}''"
| "type_name (AMap m) = ''map[string]interface {}''"
| "type_name v = ''?''"

definition streamEventIndex :: "anymap \<Rightarrow> go_error + int" where
  "streamEventIndex event =
     (case map_of event ''index'' of
        None \<Rightarrow> Inr 0
      | Some (AFloat f) \<Rightarrow>
          if \<not> float_integral f \<or> float_trunc f < 0 \<or> maxStreamedContentBlocks < float_trunc f
          then Inl (ErrMsg (''anthropic: invalid content block index '' @ f))
          else Inr (float_trunc f)
      | Some v \<Rightarrow> Inl (ErrMsg (''anthropic: content block index is not a number: '' @ type_name v)))"

definition blockIDOf :: "anymap \<Rightarrow> string" where
  "blockIDOf event = show_int (case streamEventIndex event of Inl _ \<Rightarrow> -1 | Inr i \<Rightarrow> i)"

fun transformation_blocks :: "nat \<Rightarrow> any list \<Rightarrow> go_error + anymap option list" where
  "transformation_blocks i [] = Inr []"
| "transformation_blocks i (entry # entries) =
     (case entry of
        ANil \<Rightarrow> map_sum id (\<lambda>r. None # r) (transformation_blocks (Suc i) entries)
      | AMap block \<Rightarrow> map_sum id (\<lambda>r. Some block # r) (transformation_blocks (Suc i) entries)
      | _ \<Rightarrow> Inl (ErrMsg (''anthropic: input_transformations['' @ show_nat i @ ''] must be an object'')))"

definition inputTransformations :: "any option \<Rightarrow> go_error + anymap option list option" where
  "inputTransformations v =
     (case v of
        None \<Rightarrow> Inr None
      | Some ANil \<Rightarrow> Inr None
      | Some (AList entries) \<Rightarrow> map_sum id Some (transformation_blocks 0 entries)
      | Some _ \<Rightarrow> Inl (ErrMsg ''anthropic: input_transformations must be an array''))"

section \<open>The ordered content of a message\<close>

record orderedContent =
  ocParts :: "Part list"
  ocText :: "string list"
  ocPos :: "(string \<times> nat) list"
  ocTools :: "(string \<times> nat) list"

definition no_content :: orderedContent where
  "no_content = \<lparr>ocParts = [], ocText = [], ocPos = [], ocTools = []\<rparr>"

definition start_block :: "string \<Rightarrow> Part \<Rightarrow> orderedContent \<Rightarrow> orderedContent" where
  "start_block tid p c =
     (if tid = ''-1'' then c
      else c\<lparr>ocPos := AList.update tid (length (ocParts c)) (ocPos c),
             ocTools := (if pType p = PartToolCall then AList.update (pToolCallID p) (length (ocParts c)) (ocTools c)
                         else ocTools c),
             ocParts := ocParts c @ [p], ocText := ocText c @ [pText p]\<rparr>)"

definition appendText :: "string \<Rightarrow> string \<Rightarrow> orderedContent \<Rightarrow> orderedContent" where
  "appendText tid s c =
     (case map_of (ocPos c) tid of
        Some i \<Rightarrow> c\<lparr>ocText := (ocText c)[i := ocText c ! i @ s]\<rparr>
      | None \<Rightarrow> c)"

definition setSignature :: "string \<Rightarrow> string \<Rightarrow> orderedContent \<Rightarrow> orderedContent" where
  "setSignature tid sig c =
     (case map_of (ocPos c) tid of
        Some i \<Rightarrow>
          if pType (ocParts c ! i) = PartReasoning
          then c\<lparr>ocParts := (ocParts c)[i := (ocParts c ! i)\<lparr>pProviderOptions :=
                   AList.update ''signature'' (AStr sig) (pProviderOptions (ocParts c ! i))\<rparr>]\<rparr>
          else c
      | None \<Rightarrow> c)"

definition setToolInput :: "string \<Rightarrow> string \<Rightarrow> orderedContent \<Rightarrow> orderedContent" where
  "setToolInput tid input c =
     (case map_of (ocTools c) tid of
        Some i \<Rightarrow> c\<lparr>ocParts := (ocParts c)[i := (ocParts c ! i)\<lparr>pToolInput := input\<rparr>]\<rparr>
      | None \<Rightarrow> c)"

definition setResultBlock :: "string \<Rightarrow> anymap \<Rightarrow> orderedContent \<Rightarrow> orderedContent" where
  "setResultBlock tid rb c =
     (case map_of (ocTools c) tid of
        Some i \<Rightarrow> c\<lparr>ocParts := (ocParts c)[i := (ocParts c ! i)\<lparr>pProviderOptions := [(''resultBlock'', AMap rb)]\<rparr>]\<rparr>
      | None \<Rightarrow> c)"

definition finished_part :: "Part \<Rightarrow> string \<Rightarrow> Part" where
  "finished_part p t = (if pType p = PartText \<or> pType p = PartReasoning then p\<lparr>pText := t\<rparr> else p)"

definition finish_content :: "orderedContent \<Rightarrow> Part list option" where
  "finish_content c = (if ocParts c = [] then None else Some (map2 finished_part (ocParts c) (ocText c)))"

section \<open>State\<close>

record pendingServerCall =
  pcName :: string
  pcArgs :: string
  pcResultBlock :: "anymap option"

record anthropic_state = emitter +
  asContent :: orderedContent
  asToolID :: string
  asToolName :: string
  asToolArgs :: string
  asRFBlock :: bool
  asFirstDelta :: bool
  asServerTool :: bool
  asResultBlock :: bool
  asUsage :: Usage
  asResponse :: ResponseMetadata
  asFinishMeta :: "anymap option"
  asStopReason :: FinishReason
  asPending :: "(string \<times> pendingServerCall) list"
  asResultUseID :: string

definition anthropic_start :: "sink \<Rightarrow> anthropic_state" where
  "anthropic_start out = \<lparr>emOut = out, asContent = no_content, asToolID = [], asToolName = [], asToolArgs = [], asRFBlock = False,
     asFirstDelta = False, asServerTool = False, asResultBlock = False, asUsage = zero_Usage, asResponse = zero_Response,
     asFinishMeta = None, asStopReason = FinishNone, asPending = [], asResultUseID = []\<rparr>"

text \<open>
  The parameters: \<open>json.Unmarshal\<close> into a map, into the members of an error event, the order in which a
  map is ranged over, and whether the response-format tool is in use.
\<close>

record anthropic_env =
  aeJson :: "string \<Rightarrow> anymap option"
  aeError :: "string \<Rightarrow> error_event option"
  aeOrder :: "string list \<Rightarrow> string list"
  aeRFMode :: bool

type_synonym anthropic_step = "anthropic_state \<Rightarrow> bool \<times> anthropic_state"

definition set_meta :: "string \<Rightarrow> any \<Rightarrow> anthropic_state \<Rightarrow> anthropic_state" where
  "set_meta k v s = s\<lparr>asFinishMeta := Some (AList.update k v (case asFinishMeta s of Some m \<Rightarrow> m | None \<Rightarrow> []))\<rparr>"

definition or_empty_object :: "string \<Rightarrow> string" where
  "or_empty_object args = (if args = [] then ''{}'' else args)"

section \<open>Server tool calls waiting for their results\<close>

definition pending_chunk :: "string \<Rightarrow> pendingServerCall \<Rightarrow> StreamChunk" where
  "pending_chunk tid pc =
     zero_Chunk\<lparr>scType := ChunkToolCall, scToolCallID := tid, scToolName := pcName pc,
       scToolInput := or_empty_object (pcArgs pc),
       scMetadata := (case pcResultBlock pc of Some rb \<Rightarrow> [(''resultBlock'', AMap rb)] | None \<Rightarrow> [])\<rparr>"

definition flushPendingCall :: "string \<Rightarrow> anthropic_step" where
  "flushPendingCall tid s =
     (case map_of (asPending s) tid of
        None \<Rightarrow> (True, s)
      | Some pc \<Rightarrow> emit (pending_chunk tid pc) (s\<lparr>asPending := AList.delete tid (asPending s)\<rparr>))"

fun flush_ids :: "string list \<Rightarrow> anthropic_step" where
  "flush_ids [] s = (True, s)"
| "flush_ids (tid # ids) s = and_then (flushPendingCall tid s) (flush_ids ids)"

definition flushAllPending :: "anthropic_env \<Rightarrow> anthropic_step" where
  "flushAllPending env s = flush_ids (aeOrder env (map fst (asPending s))) s"

definition server_result_types :: "string list" where
  "server_result_types = [''web_search_tool_result'', ''web_fetch_tool_result'', ''code_execution_tool_result'',
     ''bash_code_execution_tool_result'', ''text_editor_code_execution_tool_result'', ''mcp_tool_result'',
     ''tool_search_tool_result'']"

definition isServerToolResultBlock :: "string \<Rightarrow> bool" where
  "isServerToolResultBlock t \<longleftrightarrow> t \<in> set server_result_types"

definition mapFinishReason :: "string \<Rightarrow> FinishReason" where
  "mapFinishReason reason =
     (if reason = ''end_turn'' \<or> reason = ''stop_sequence'' \<or> reason = ''pause_turn'' then FinishStop
      else if reason = ''tool_use'' then FinishToolCalls
      else if reason = ''max_tokens'' \<or> reason = ''model_context_window_exceeded'' then FinishLength
      else if reason = ''refusal'' then FinishContentFilter
      else FinishOther)"

section \<open>The events\<close>

definition with_count :: "anymap \<Rightarrow> string \<Rightarrow> (64 word \<Rightarrow> Usage \<Rightarrow> Usage) \<Rightarrow> Usage \<Rightarrow> Usage" where
  "with_count u k f usage = (case token_count u k of Some n \<Rightarrow> f n usage | None \<Rightarrow> usage)"

definition message_start :: "anymap \<Rightarrow> anthropic_step" where
  "message_start event s =
     (case get_map event ''message'' of
        None \<Rightarrow> (True, s)
      | Some msg \<Rightarrow>
          (case inputTransformations (map_of msg ''input_transformations'') of
             Inl err \<Rightarrow> emit_return (err_chunk err) s
           | Inr t \<Rightarrow>
               let s = (case t of Some ts \<Rightarrow> set_meta ''inputTransformations'' (AMapList ts) s | None \<Rightarrow> s);
                   r = asResponse s;
                   r = (case get_str msg ''id'' of Some v \<Rightarrow> r\<lparr>rID := v\<rparr> | None \<Rightarrow> r);
                   r = (case get_str msg ''model'' of Some v \<Rightarrow> r\<lparr>rModel := v\<rparr> | None \<Rightarrow> r);
                   u = (case get_map msg ''usage'' of
                          None \<Rightarrow> asUsage s
                        | Some u \<Rightarrow>
                            with_count u ''cache_creation_input_tokens'' (\<lambda>n x. x\<lparr>CacheWriteTokens := n\<rparr>)
                              (with_count u ''cache_read_input_tokens'' (\<lambda>n x. x\<lparr>CacheReadTokens := n\<rparr>)
                                (with_count u ''input_tokens'' (\<lambda>n x. x\<lparr>InputTokens := n\<rparr>) (asUsage s))))
               in (True, s\<lparr>asResponse := r, asUsage := u\<rparr>)))"

definition track :: "string \<Rightarrow> Part \<Rightarrow> anthropic_state \<Rightarrow> anthropic_state" where
  "track blockID p s = s\<lparr>asContent := start_block blockID p (asContent s)\<rparr>"

definition tool_part :: "string \<Rightarrow> string \<Rightarrow> Part" where
  "tool_part tid name = zero_Part\<lparr>pType := PartToolCall, pToolCallID := tid, pToolName := name\<rparr>"

definition tool_start_chunk :: "string \<Rightarrow> string \<Rightarrow> StreamChunk" where
  "tool_start_chunk tid name =
     zero_Chunk\<lparr>scType := ChunkToolCallStreamStart, scToolCallID := tid, scToolName := name\<rparr>"

definition block_tool_use :: "anthropic_env \<Rightarrow> string \<Rightarrow> anymap \<Rightarrow> anthropic_step" where
  "block_tool_use env blockID cb s0 =
     (let tid = str_of cb ''id''; name = str_of cb ''name'';
          rf = (aeRFMode env \<and> name = ''json_response'');
          s = s0\<lparr>asToolID := tid, asToolName := name, asRFBlock := rf, asFirstDelta := True, asServerTool := False\<rparr>
      in if rf then (True, s) else emit (tool_start_chunk tid name) (track blockID (tool_part tid name) s))"

definition block_server_tool :: "string \<Rightarrow> anymap \<Rightarrow> anthropic_step" where
  "block_server_tool blockID cb s0 =
     (let tid = str_of cb ''id''; name = str_of cb ''name'';
          s = s0\<lparr>asToolID := tid, asToolName := name, asRFBlock := False, asFirstDelta := True, asServerTool := True\<rparr>
      in emit (tool_start_chunk tid name) (track blockID (tool_part tid name) s))"

definition block_thinking :: "string \<Rightarrow> anymap \<Rightarrow> anthropic_step" where
  "block_thinking blockID cb s =
     (let sig = str_of cb ''signature'' in
      (True, track blockID (zero_Part\<lparr>pType := PartReasoning, pText := str_of cb ''thinking'',
         pProviderOptions := (if sig \<noteq> [] then [(''signature'', AStr sig)] else [])\<rparr>) s))"

definition reasoning_chunk :: "string \<Rightarrow> anymap \<Rightarrow> StreamChunk" where
  "reasoning_chunk t m = zero_Chunk\<lparr>scType := ChunkReasoning, scText := t, scMetadata := m\<rparr>"

definition block_redacted :: "string \<Rightarrow> anymap \<Rightarrow> anthropic_step" where
  "block_redacted blockID cb s =
     (let data = str_of cb ''data'' in
      if data = [] then (True, s)
      else emit (reasoning_chunk [] [(''redactedData'', AStr data), (''blockId'', AStr blockID)])
             (track blockID (zero_Part\<lparr>pType := PartReasoning, pProviderOptions := [(''redactedData'', AStr data)]\<rparr>) s))"

definition block_result :: "anymap \<Rightarrow> anthropic_step" where
  "block_result cb s0 =
     (let useID = str_of cb ''tool_use_id''; s = s0\<lparr>asResultBlock := True, asResultUseID := useID\<rparr> in
      (True,
       case map_of (asPending s) useID of
         None \<Rightarrow> s
       | Some pc \<Rightarrow> s\<lparr>asPending := AList.update useID (pc\<lparr>pcResultBlock := Some cb\<rparr>) (asPending s),
                      asContent := setResultBlock useID cb (asContent s)\<rparr>))"

definition content_block_start :: "anthropic_env \<Rightarrow> anymap \<Rightarrow> anthropic_step" where
  "content_block_start env event s0 =
     (case get_map event ''content_block'' of
        None \<Rightarrow> (True, s0)
      | Some cb \<Rightarrow>
          let cbType = str_of cb ''type''; blockID = blockIDOf event; s = s0\<lparr>asResultBlock := False\<rparr> in
          and_then
            (if asPending s \<noteq> [] \<and> \<not> isServerToolResultBlock cbType \<and> cbType \<noteq> ''server_tool_use''
             then flushAllPending env s else (True, s))
            (if cbType = ''tool_use'' then block_tool_use env blockID cb
             else if cbType = ''server_tool_use'' then block_server_tool blockID cb
             else if cbType = ''thinking'' then block_thinking blockID cb
             else if cbType = ''text'' then
               (\<lambda>s. (True, track blockID (zero_Part\<lparr>pType := PartText, pText := str_of cb ''text''\<rparr>) s))
             else if cbType = ''redacted_thinking'' then block_redacted blockID cb
             else if isServerToolResultBlock cbType then block_result cb
             else go_on))"

definition plain_text_chunk :: "string \<Rightarrow> StreamChunk" where
  "plain_text_chunk t = zero_Chunk\<lparr>scType := ChunkText, scText := t\<rparr>"

definition code_execution_input :: "string \<Rightarrow> string \<Rightarrow> string" where
  "code_execution_input name text = ''{\"type\": \"'' @ name @ ''\",'' @ drop 1 text"

definition input_json_delta :: "string \<Rightarrow> anthropic_step" where
  "input_json_delta text s =
     (if text = [] then (True, s)
      else if asRFBlock s then emit (plain_text_chunk text) s
      else
        let emitText = (if asFirstDelta s \<and> asServerTool s \<and>
               (asToolName s = ''bash_code_execution'' \<or> asToolName s = ''text_editor_code_execution'')
             then code_execution_input (asToolName s) text else text)
        in emit (zero_Chunk\<lparr>scType := ChunkToolCallDelta, scToolCallID := asToolID s, scToolName := asToolName s,
                   scToolInput := emitText\<rparr>)
             (s\<lparr>asFirstDelta := False, asToolArgs := asToolArgs s @ emitText\<rparr>))"

definition content_block_delta :: "anymap \<Rightarrow> anthropic_step" where
  "content_block_delta event s =
     (case get_map event ''delta'' of
        None \<Rightarrow> (True, s)
      | Some delta \<Rightarrow>
          let deltaType = str_of delta ''type''; blockID = blockIDOf event in
          if deltaType = ''text_delta'' then
            let text = str_of delta ''text'' in
            if text = [] then (True, s)
            else emit (plain_text_chunk text) (s\<lparr>asContent := appendText blockID text (asContent s)\<rparr>)
          else if deltaType = ''thinking_delta'' then
            let text = str_of delta ''thinking'' in
            if text = [] then (True, s)
            else emit (reasoning_chunk text [(''blockId'', AStr blockID)])
                   (s\<lparr>asContent := appendText blockID text (asContent s)\<rparr>)
          else if deltaType = ''signature_delta'' then
            let sig = str_of delta ''signature'' in
            if sig = [] then (True, s)
            else emit (reasoning_chunk [] [(''signature'', AStr sig), (''blockId'', AStr blockID)])
                   (s\<lparr>asContent := setSignature blockID sig (asContent s)\<rparr>)
          else if deltaType = ''citations_delta'' then
            (case get_map delta ''citation'' of
               None \<Rightarrow> (True, s)
             | Some citation \<Rightarrow>
                 emit (zero_Chunk\<lparr>scType := ChunkText, scMetadata := [(''citation'', AMap citation)]\<rparr>) s)
          else if deltaType = ''input_json_delta'' then input_json_delta (str_of delta ''partial_json'') s
          else (True, s))"

definition tool_call_chunk :: "string \<Rightarrow> string \<Rightarrow> string \<Rightarrow> StreamChunk" where
  "tool_call_chunk tid name args =
     zero_Chunk\<lparr>scType := ChunkToolCall, scToolCallID := tid, scToolName := name, scToolInput := args\<rparr>"

text \<open>The \<open>switch\<close> at the end of a block, and the reset that follows it.\<close>

definition stop_switch :: anthropic_step where
  "stop_switch s =
     (if asResultBlock s then
        and_then (flushPendingCall (asResultUseID s) s) (\<lambda>s. (True, s\<lparr>asResultBlock := False, asResultUseID := []\<rparr>))
      else if asServerTool s \<and> asToolID s \<noteq> [] then
        (True, s\<lparr>asPending := AList.update (asToolID s)
                   \<lparr>pcName = asToolName s, pcArgs = asToolArgs s, pcResultBlock = None\<rparr> (asPending s),
                 asContent := setToolInput (asToolID s) (or_empty_object (asToolArgs s)) (asContent s),
                 asToolArgs := []\<rparr>)
      else if asToolID s \<noteq> [] \<and> \<not> asRFBlock s then
        let args = or_empty_object (asToolArgs s) in
        and_then (emit (tool_call_chunk (asToolID s) (asToolName s) args)
                    (s\<lparr>asContent := setToolInput (asToolID s) args (asContent s)\<rparr>))
          (\<lambda>s. (True, s\<lparr>asToolArgs := []\<rparr>))
      else (True, s))"

definition reset_tool :: "anthropic_state \<Rightarrow> anthropic_state" where
  "reset_tool s =
     (if asToolID s \<noteq> [] then s\<lparr>asToolID := [], asToolName := [], asRFBlock := False, asServerTool := False\<rparr> else s)"

definition content_block_stop :: anthropic_step where
  "content_block_stop s = and_then (stop_switch s) (\<lambda>s. (True, reset_tool s))"

text \<open>The usage of the iterations of one answer: their sums, and their list for the metadata.\<close>

definition count_or_zero :: "anymap \<Rightarrow> string \<Rightarrow> 64 word" where
  "count_or_zero m k = (case token_count m k of Some n \<Rightarrow> n | None \<Rightarrow> 0)"

definition iteration_maps :: "any list \<Rightarrow> anymap list" where
  "iteration_maps iters = List.map_filter (\<lambda>v. case v of AMap im \<Rightarrow> Some im | _ \<Rightarrow> None) iters"

definition iteration_meta :: "anymap \<Rightarrow> anymap" where
  "iteration_meta im = [(''type'', AStr (str_of im ''type'')),
     (''inputTokens'', AInt (sint (count_or_zero im ''input_tokens''))),
     (''outputTokens'', AInt (sint (count_or_zero im ''output_tokens'')))]"

definition delta_usage :: "anymap \<Rightarrow> anthropic_state \<Rightarrow> anthropic_state" where
  "delta_usage event s0 =
     (case get_map event ''usage'' of
        None \<Rightarrow> s0
      | Some u \<Rightarrow>
          let s = (case get_list u ''iterations'' of
                     Some (it # iters) \<Rightarrow>
                       let ims = iteration_maps (it # iters) in
                       set_meta ''iterations'' (AMapList (map (\<lambda>im. Some (iteration_meta im)) ims))
                         (s0\<lparr>asUsage := (asUsage s0)\<lparr>
                            InputTokens := sum_list (map (\<lambda>im. count_or_zero im ''input_tokens'') ims),
                            OutputTokens := sum_list (map (\<lambda>im. count_or_zero im ''output_tokens'') ims)\<rparr>\<rparr>)
                   | _ \<Rightarrow> s0\<lparr>asUsage := with_count u ''output_tokens'' (\<lambda>n x. x\<lparr>OutputTokens := n\<rparr>) (asUsage s0)\<rparr>)
          in (case get_map u ''output_tokens_details'' of
                Some details \<Rightarrow>
                  s\<lparr>asUsage := with_count details ''thinking_tokens'' (\<lambda>n x. x\<lparr>ReasoningTokens := n\<rparr>) (asUsage s)\<rparr>
              | None \<Rightarrow> s))"

definition step_finish_chunk :: "FinishReason \<Rightarrow> StreamChunk" where
  "step_finish_chunk fr = zero_Chunk\<lparr>scType := ChunkStepFinish, scFinishReason := fr\<rparr>"

definition stop_reason_of :: "anthropic_env \<Rightarrow> string \<Rightarrow> FinishReason" where
  "stop_reason_of env sr =
     (let fr = mapFinishReason sr in if aeRFMode env \<and> fr = FinishToolCalls then FinishStop else fr)"

definition delta_stop_reason :: "anthropic_env \<Rightarrow> anymap \<Rightarrow> anthropic_step" where
  "delta_stop_reason env delta s =
     (case get_str delta ''stop_reason'' of
        None \<Rightarrow> (True, s)
      | Some sr \<Rightarrow>
          and_then (flushAllPending env s)
            (\<lambda>s. emit (step_finish_chunk (stop_reason_of env sr)) (s\<lparr>asStopReason := stop_reason_of env sr\<rparr>)))"

definition meta_from :: "anymap \<Rightarrow> string \<Rightarrow> string \<Rightarrow> anthropic_state \<Rightarrow> anthropic_state" where
  "meta_from m key as_key s = (case get_map m key of Some v \<Rightarrow> set_meta as_key (AMap v) s | None \<Rightarrow> s)"

definition message_delta :: "anthropic_env \<Rightarrow> anymap \<Rightarrow> anthropic_step" where
  "message_delta env event s0 =
     (case inputTransformations (map_of event ''input_transformations'') of
        Inl err \<Rightarrow> emit_return (err_chunk err) s0
      | Inr t \<Rightarrow>
          let s = (case t of Some ts \<Rightarrow> set_meta ''inputTransformations'' (AMapList ts) s0 | None \<Rightarrow> s0) in
          and_then
            (case get_map event ''delta'' of
               None \<Rightarrow> (True, s)
             | Some delta \<Rightarrow>
                 and_then (delta_stop_reason env delta s) (\<lambda>s. (True, meta_from delta ''container'' ''container'' s)))
            (\<lambda>s. (True, meta_from event ''context_management'' ''contextManagement'' (delta_usage event s))))"

definition finish_chunk_of :: "anthropic_env \<Rightarrow> FinishReason \<Rightarrow> anthropic_state \<Rightarrow> StreamChunk" where
  "finish_chunk_of env reason s =
     (let usage = (asUsage s)\<lparr>TotalTokens := InputTokens (asUsage s) + OutputTokens (asUsage s)\<rparr>;
          response = (case asFinishMeta s of Some m \<Rightarrow> (asResponse s)\<lparr>rProviderMetadata := m\<rparr> | None \<Rightarrow> asResponse s);
          meta = (case asFinishMeta s of
                    Some m \<Rightarrow> AList.update ''providerMetadata'' (AMetaMap [(''anthropic'', m)]) m
                  | None \<Rightarrow> [])
      in zero_Chunk\<lparr>scType := ChunkFinish, scFinishReason := reason, scUsage := usage, scResponse := response,
           scMetadata := meta, scContent := (if aeRFMode env then None else finish_content (asContent s))\<rparr>)"

definition finish_with :: "anthropic_env \<Rightarrow> FinishReason \<Rightarrow> anthropic_step" where
  "finish_with env reason s = emit_return (finish_chunk_of env reason s) s"

definition handleStreamError :: "anthropic_env \<Rightarrow> string \<Rightarrow> anymap \<Rightarrow> StreamChunk" where
  "handleStreamError env data event =
     (case ClassifyStreamError (aeError env) data of
        Some streamErr \<Rightarrow> err_chunk streamErr
      | None \<Rightarrow>
          let msg = (case get_map event ''error'' of Some e \<Rightarrow> str_of e ''message'' | None \<Rightarrow> []);
              msg = (if msg = [] then ''unknown stream error'' else msg)
          in err_chunk
               (if IsOverflow msg then ErrContextOverflow \<lparr>OverflowMessage = msg, OverflowBody = data\<rparr>
                else ErrAPI \<lparr>Message = msg, StatusCode = 0, IsRetryable = False, ResponseBody = data, ResponseHeaders = []\<rparr>))"

definition handle_event :: "anthropic_env \<Rightarrow> string \<Rightarrow> anymap \<Rightarrow> anthropic_step" where
  "handle_event env data event =
     (let eventType = str_of event ''type'' in
      if eventType = ''message_start'' then message_start event
      else if eventType = ''content_block_start'' then content_block_start env event
      else if eventType = ''content_block_delta'' then content_block_delta event
      else if eventType = ''content_block_stop'' then content_block_stop
      else if eventType = ''message_delta'' then message_delta env event
      else if eventType = ''message_stop'' then
        (\<lambda>s. and_then (flushAllPending env s) (\<lambda>s. finish_with env (asStopReason s) s))
      else if eventType = ''error'' then emit_return (handleStreamError env data event)
      else go_on)"

definition handle_data :: "anthropic_env \<Rightarrow> string \<Rightarrow> anthropic_step" where
  "handle_data env data = (case aeJson env data of None \<Rightarrow> go_on | Some event \<Rightarrow> handle_event env data event)"

text \<open>Behind the loop: a read error, or the end of the stream without \<open>message_stop\<close>.\<close>

definition stream_end :: "anthropic_env \<Rightarrow> go_error option \<Rightarrow> anthropic_step" where
  "stream_end env err s =
     (case err of
        Some e \<Rightarrow>
          and_then (emit (err_chunk (ErrWrap (''reading stream: '' @ error_text e) e)) s) (finish_with env FinishError)
      | None \<Rightarrow> (case flushAllPending env s of (_, s) \<Rightarrow> finish_with env (asStopReason s) s))"

fun chunk_loop :: "anthropic_env \<Rightarrow> string list \<times> go_error option \<Rightarrow> anthropic_step" where
  "chunk_loop env ([], err) s = stream_end env err s"
| "chunk_loop env (data # rest, err) s = and_then (handle_data env data s) (chunk_loop env (rest, err))"

definition parseSSE :: "anthropic_env \<Rightarrow> reader \<Rightarrow> sink \<Rightarrow> sink" where
  "parseSSE env body out = emOut (snd (chunk_loop env (scan_payloads (NewScanner body)) (anthropic_start out)))"

end
