(* ===== verification/EventStream.thy ===== *)
theory EventStream
  imports ByteReader Refinement
begin

text \<open>
  The AWS event stream decoder (\<open>src/provider/bedrock/eventstream.go\<close>): binary frames with two CRC-32
  checksums and typed headers, read from an \<open>io.Reader\<close>. Bytes are characters; \<open>int\<close> values computed from
  a 32-bit length stay far below 2^63.
\<close>

unbundle bit_operations_syntax

section \<open>CRC-32 and big-endian integers\<close>

definition byte32 :: "char \<Rightarrow> 32 word" where
  "byte32 c = of_nat (of_char c)"

text \<open>One bit and one byte of \<open>hash/crc32\<close> with the IEEE polynomial (reflected).\<close>

definition crc_bit :: "32 word \<Rightarrow> 32 word" where
  "crc_bit c = (if c AND 1 = 1 then drop_bit 1 c XOR 0xEDB88320 else drop_bit 1 c)"

definition crc_byte :: "32 word \<Rightarrow> char \<Rightarrow> 32 word" where
  "crc_byte c b = (crc_bit ^^ 8) (c XOR byte32 b)"

definition crc_update :: "32 word \<Rightarrow> string \<Rightarrow> 32 word" where
  "crc_update c p = NOT (foldl crc_byte (NOT c) p)"

definition ChecksumIEEE :: "string \<Rightarrow> 32 word" where
  "ChecksumIEEE p = crc_update 0 p"

lemma crc_update_append [simp]: "crc_update (crc_update c p) q = crc_update c (p @ q)"
  by (simp add: crc_update_def)

definition be :: "string \<Rightarrow> nat" where
  "be s = foldl (\<lambda>n c. n * 256 + of_char c) 0 s"

definition Uint32 :: "string \<Rightarrow> 32 word" where
  "Uint32 s = of_nat (be (take 4 s))"

definition Uint16 :: "string \<Rightarrow> nat" where
  "Uint16 s = be (take 2 s)"

definition subslice :: "string \<Rightarrow> nat \<Rightarrow> nat \<Rightarrow> string" where
  "subslice s i n = take n (drop i s)"

text \<open>The \<open>%08x\<close> verb.\<close>

definition hex08 :: "32 word \<Rightarrow> string" where
  "hex08 w = map (\<lambda>i. hex_digit (unat (drop_bit (4 * i) w AND 15))) [7, 6, 5, 4, 3, 2, 1, 0]"

section \<open>The decoder\<close>

record eventStreamFrame =
  MessageType :: string
  EventType :: string
  ContentType :: string
  Payload :: string

definition header_error :: "string \<Rightarrow> go_error" where
  "header_error m = ErrMsg (''eventstream: '' @ m)"

definition set_header :: "string \<Rightarrow> string \<Rightarrow> eventStreamFrame \<Rightarrow> eventStreamFrame" where
  "set_header name val f =
     (if name = '':message-type'' then f\<lparr>MessageType := val\<rparr>
      else if name = '':event-type'' then f\<lparr>EventType := val\<rparr>
      else if name = '':content-type'' then f\<lparr>ContentType := val\<rparr>
      else f)"

definition skip_value :: "string \<Rightarrow> nat \<Rightarrow> nat \<Rightarrow> string \<Rightarrow> eventStreamFrame \<Rightarrow> go_error + nat \<times> eventStreamFrame" where
  "skip_value headers off n m f =
     (if length headers < off + n then Inl (header_error m) else Inr (off + n, f))"

text \<open>The \<open>switch\<close> on the type tag: the offset behind the value and the frame.\<close>

definition header_value :: "string \<Rightarrow> nat \<Rightarrow> nat \<Rightarrow> string \<Rightarrow> eventStreamFrame \<Rightarrow> go_error + nat \<times> eventStreamFrame" where
  "header_value headers off typeTag name f =
     (if typeTag = 7 then
        if length headers < off + 2 then Inl (header_error ''string header value length overflow'')
        else
          let valLen = Uint16 (subslice headers off 2); off = off + 2 in
          if length headers < off + valLen then Inl (header_error ''string header value overflow'')
          else Inr (off + valLen, set_header name (subslice headers off valLen) f)
      else if typeTag = 0 \<or> typeTag = 1 then Inr (off, f)
      else if typeTag = 2 then skip_value headers off 1 ''byte header value overflows header block'' f
      else if typeTag = 3 then skip_value headers off 2 ''short header value overflows header block'' f
      else if typeTag = 4 then skip_value headers off 4 ''int header value overflows header block'' f
      else if typeTag = 5 \<or> typeTag = 8 then skip_value headers off 8 ''long header value overflows header block'' f
      else if typeTag = 9 then skip_value headers off 16 ''uuid header value overflows header block'' f
      else if typeTag = 6 then
        if length headers < off + 2 then Inl (header_error ''bytes header length overflow'')
        else
          let bLen = Uint16 (subslice headers off 2) in
          skip_value headers off (2 + bLen) ''bytes header value overflows header block'' f
      else Inl (header_error (''unknown header type tag '' @ show_nat typeTag)))"

lemma header_value_progress: "header_value headers off t name f = Inr (off', f') \<Longrightarrow> off \<le> off'"
  by (auto simp: header_value_def skip_value_def Let_def split: if_splits)

function parse_headers :: "string \<Rightarrow> nat \<Rightarrow> eventStreamFrame \<Rightarrow> go_error + eventStreamFrame" where
  "parse_headers headers off frame =
     (if length headers \<le> off then Inr frame
      else
        let nameLen = of_char (headers ! off); off1 = off + 1 in
        if length headers < off1 + nameLen then Inl (header_error ''header name overflow'')
        else
          let name = subslice headers off1 nameLen; off2 = off1 + nameLen in
          if length headers \<le> off2 then Inl (header_error ''missing header type tag'')
          else case header_value headers (off2 + 1) (of_char (headers ! off2)) name frame of
            Inl e \<Rightarrow> Inl e
          | Inr (off', frame') \<Rightarrow> parse_headers headers off' frame')"
  by pat_completeness auto
termination
  by (relation "measure (\<lambda>(headers, off, f). length headers - off)") (auto dest!: header_value_progress)

declare parse_headers.simps [simp del]

definition maxFrameSize :: nat where "maxFrameSize = 10485760"

text \<open>The checks on the prelude: bytes remaining before the message checksum, and header bytes.\<close>

definition check_prelude :: "string \<Rightarrow> go_error + nat \<times> nat" where
  "check_prelude prelude =
     (let totalLen = Uint32 (subslice prelude 0 4);
          headersLen = Uint32 (subslice prelude 4 4);
          preludeCRC = Uint32 (subslice prelude 8 4);
          got = ChecksumIEEE (subslice prelude 0 8);
          remaining = int (unat totalLen) - 12 - 4
      in if got \<noteq> preludeCRC
         then Inl (header_error (''prelude CRC mismatch: got '' @ hex08 got @ '', want '' @ hex08 preludeCRC))
         else if remaining < 0 \<or> int maxFrameSize < remaining
         then Inl (header_error (''invalid total length '' @ show_nat (unat totalLen)))
         else if remaining < int (unat headersLen)
         then Inl (header_error (''headers length '' @ show_nat (unat headersLen) @
                '' exceeds frame payload '' @ show_nat (nat remaining)))
         else Inr (nat remaining, unat headersLen))"

definition check_body :: "string \<Rightarrow> nat \<Rightarrow> nat \<Rightarrow> string \<Rightarrow> go_error + eventStreamFrame" where
  "check_body prelude remaining headersLen buf =
     (let messageCRC = Uint32 (drop remaining buf);
          crcCalc = crc_update (crc_update 0 prelude) (take remaining buf);
          headers = take headersLen buf;
          payloadBytes = drop headersLen (take remaining buf);
          frame = \<lparr>MessageType = [], EventType = [], ContentType = [], Payload = payloadBytes\<rparr>
      in if crcCalc \<noteq> messageCRC then Inl (header_error ''message CRC mismatch'')
         else parse_headers headers 0 frame)"

definition read_body_error :: "go_error \<Rightarrow> go_error" where
  "read_body_error e = ErrWrap (''eventstream: reading frame body: '' @ error_text e) e"

definition Next_frame :: "reader \<Rightarrow> (go_error + eventStreamFrame) \<times> reader" where
  "Next_frame r =
     (case ReadFull 12 r of
        ((prelude, Some err), r1) \<Rightarrow> (Inl err, r1)
      | ((prelude, None), r1) \<Rightarrow>
          (case check_prelude prelude of
             Inl err \<Rightarrow> (Inl err, r1)
           | Inr (remaining, headersLen) \<Rightarrow>
               (case ReadFull (remaining + 4) r1 of
                  ((buf, Some err), r2) \<Rightarrow> (Inl (read_body_error err), r2)
                | ((buf, None), r2) \<Rightarrow> (check_body prelude remaining headersLen buf, r2))))"

section \<open>Independence of the framing of reads\<close>

definition aNext_frame :: "string \<times> go_error \<Rightarrow> (go_error + eventStreamFrame) \<times> string \<times> go_error" where
  "aNext_frame s =
     (case aReadFull 12 s of
        ((prelude, Some err), s1) \<Rightarrow> (Inl err, s1)
      | ((prelude, None), s1) \<Rightarrow>
          (case check_prelude prelude of
             Inl err \<Rightarrow> (Inl err, s1)
           | Inr (remaining, headersLen) \<Rightarrow>
               (case aReadFull (remaining + 4) s1 of
                  ((buf, Some err), s2) \<Rightarrow> (Inl (read_body_error err), s2)
                | ((buf, None), s2) \<Rightarrow> (check_body prelude remaining headersLen buf, s2))))"

lemma Next_frame_abs: "Next_frame r = (x, r') \<Longrightarrow> aNext_frame (abs_reader r) = (x, abs_reader r')"
  by (auto simp: Next_frame_def aNext_frame_def split: prod.splits option.splits sum.splits dest!: ReadFull_abs)

definition decode_step :: "('s \<Rightarrow> (go_error + eventStreamFrame) \<times> 's) \<Rightarrow> 's \<Rightarrow> (go_error + eventStreamFrame) option \<times> 's" where
  "decode_step f s = (case f s of (x, s') \<Rightarrow> (Some x, s'))"

interpretation frames: op_refinement "decode_step Next_frame" "decode_step aNext_frame" abs_reader "\<lambda>_. True"
  by unfold_locales (auto simp: decode_step_def dest: Next_frame_abs split: prod.splits)


section \<open>Checksums detect a corrupted byte\<close>

lemma crc_bit_top: "bit (crc_bit c) 31 = odd c"
  using bit_imp_le_length [of c 32] by (auto simp: crc_bit_def bit_simps and_one_eq even_iff_mod_2_eq_zero odd_iff_mod_2_eq_one)

lemma xor_cancel: "(a XOR x = b XOR x) \<longleftrightarrow> a = (b :: 32 word)" "(x XOR a = x XOR b) \<longleftrightarrow> a = b"
  by (metis bit.xor_left_self xor.commute)+

lemma crc_bit_inj: "crc_bit c = crc_bit d \<Longrightarrow> c = d"
proof -
  assume eq: "crc_bit c = crc_bit d"
  then have par: "odd c = odd d" by (metis crc_bit_top)
  with eq have "drop_bit 1 c = drop_bit 1 d"
    by (auto simp: xor_cancel crc_bit_def and_one_eq odd_iff_mod_2_eq_one even_iff_mod_2_eq_zero split: if_splits)
  then have "c div 2 = d div 2" by (simp add: drop_bit_Suc)
  moreover have "c mod 2 = d mod 2" using par by (simp add: mod_2_eq_odd)
  ultimately show ?thesis by (metis div_mult_mod_eq)
qed

lemma crc_bits_inj: "(crc_bit ^^ n) c = (crc_bit ^^ n) d \<Longrightarrow> c = d"
  by (induction n arbitrary: c d) (auto dest: crc_bit_inj)

lemma byte32_inj: "byte32 a = byte32 b \<Longrightarrow> a = b"
proof -
  assume "byte32 a = byte32 b"
  then have "unat (byte32 a) = unat (byte32 b)" by simp
  moreover have "unat (byte32 x) = of_char x" for x
    using less_trans [OF nat_of_char_less_256 [of x], of "2 ^ 32"] by (simp add: byte32_def unat_of_nat take_bit_eq_mod)
  ultimately show ?thesis by simp
qed

lemma crc_byte_inj: "crc_byte c x = crc_byte d x \<Longrightarrow> c = d" "crc_byte c x = crc_byte c y \<Longrightarrow> x = y"
  by (auto simp: crc_byte_def xor_cancel dest!: crc_bits_inj byte32_inj)

lemma crc_fold_inj: "foldl crc_byte c p = foldl crc_byte d p \<Longrightarrow> c = d"
  by (induction p arbitrary: c d) (auto dest: crc_byte_inj)

lemma checksum_detects:
  assumes "x \<noteq> y"
  shows "crc_update c (p @ x # q) \<noteq> crc_update c (p @ y # q)"
  using assms by (auto simp: crc_update_def dest!: crc_fold_inj crc_byte_inj)

section \<open>Encoded frames\<close>

fun big_endian :: "nat \<Rightarrow> nat \<Rightarrow> string" where
  "big_endian 0 v = []"
| "big_endian (Suc n) v = big_endian n (v div 256) @ [char_of (v mod 256)]"

lemma length_big_endian [simp]: "length (big_endian n v) = n"
  by (induction n v rule: big_endian.induct) auto

lemma be_snoc [simp]: "be (s @ [c]) = be s * 256 + of_char c"
  by (simp add: be_def)

lemma be_Nil [simp]: "be [] = 0"
  by (simp add: be_def)

lemma be_bound: "be s < 256 ^ length s"
proof (induction s rule: rev_induct)
  case (snoc c s)
  have "be (s @ [c]) < be s * 256 + 256" using nat_of_char_less_256 [of c] by simp
  also have "\<dots> = (be s + 1) * 256" by simp
  also have "\<dots> \<le> 256 ^ length s * 256" using snoc by (intro mult_right_mono) auto
  finally show ?case by simp
qed simp

lemma be_big_endian [simp]: "v < 256 ^ n \<Longrightarrow> be (big_endian n v) = v"
proof (induction n v rule: big_endian.induct)
  case (2 n v)
  then have "v div 256 < 256 ^ n" by (simp add: less_mult_imp_div_less mult.commute)
  with 2 show ?case by simp
qed simp

lemma big_endian_be [simp]: "big_endian (length s) (be s) = s"
proof (induction s rule: rev_induct)
  case (snoc c s)
  have "(be s * 256 + of_char c) div 256 = be s" using nat_of_char_less_256 [of c] by simp
  moreover have "(be s * 256 + of_char c) mod 256 = (of_char c :: nat)" using nat_of_char_less_256 [of c] by simp
  ultimately show ?case using snoc by simp
qed simp

lemma unat_Uint32: "length s = 4 \<Longrightarrow> unat (Uint32 s) = be s"
  using be_bound [of s] by (simp add: Uint32_def unat_of_nat take_bit_eq_mod)

lemma uint_Uint32: "length s = 4 \<Longrightarrow> uint (Uint32 s) = int (be s)"
  by (metis of_nat_unat unat_Uint32)

lemma Uint32_be [simp]: "Uint32 (big_endian 4 (unat w) @ r) = w"
proof -
  have "unat w < 2 ^ 32" using unsigned_less [of w] by simp
  then show ?thesis by (simp add: Uint32_def)
qed

lemma big_endian_Uint32: "length s = 4 \<Longrightarrow> big_endian 4 (unat (Uint32 s)) = s"
  using big_endian_be [of s] by (simp add: unat_Uint32)

type_synonym header = "string \<times> nat \<times> string"

definition value_width :: "nat \<Rightarrow> nat" where
  "value_width tag = (if tag = 2 then 1 else if tag = 3 then 2 else if tag = 4 then 4
     else if tag = 5 \<or> tag = 8 then 8 else if tag = 9 then 16 else 0)"

definition header_ok :: "header \<Rightarrow> bool" where
  "header_ok h = (case h of (name, tag, val) \<Rightarrow>
     length name < 256 \<and> tag \<le> 9 \<and>
     (if tag = 6 \<or> tag = 7 then length val < 65536 else length val = value_width tag))"

definition encode_value :: "nat \<Rightarrow> string \<Rightarrow> string" where
  "encode_value tag val = (if tag = 6 \<or> tag = 7 then big_endian 2 (length val) else []) @ val"

definition encode_header :: "header \<Rightarrow> string" where
  "encode_header h = (case h of (name, tag, val) \<Rightarrow>
     char_of (length name) # name @ char_of tag # encode_value tag val)"

definition encode_headers :: "header list \<Rightarrow> string" where
  "encode_headers hs = concat (map encode_header hs)"

definition apply_header :: "eventStreamFrame \<Rightarrow> header \<Rightarrow> eventStreamFrame" where
  "apply_header f h = (case h of (name, tag, val) \<Rightarrow> if tag = 7 then set_header name val f else f)"

definition frame_of :: "header list \<Rightarrow> string \<Rightarrow> eventStreamFrame" where
  "frame_of hs payload =
     foldl apply_header \<lparr>MessageType = [], EventType = [], ContentType = [], Payload = payload\<rparr> hs"

lemma Uint16_be: "length s = 2 \<Longrightarrow> Uint16 s = be s" "length s = 2 \<Longrightarrow> be s < 65536"
  using be_bound [of s] by (simp_all add: Uint16_def)

lemma subslice_append [simp]:
  "length s = n \<Longrightarrow> subslice (p @ s @ q) (length p) n = s"
  "subslice (p @ q) (length p) n = take n q"
  by (auto simp: subslice_def)

text \<open>The value parser at an offset: it accepts exactly an encoded value there.\<close>

lemma header_value_iff:
  assumes "length p = off" "length name < 256"
  shows "header_value (p @ s) off tag name f = Inr (off', f') \<longleftrightarrow>
     (\<exists>val r. s = encode_value tag val @ r \<and> header_ok (name, tag, val) \<and>
        off' = length (p @ encode_value tag val) \<and> f' = apply_header f (name, tag, val))"
    (is "?l \<longleftrightarrow> ?r")
proof
  assume ?l
  show ?r
  proof (cases "tag = 6 \<or> tag = 7")
    case True
    from True \<open>?l\<close> assms have len: "2 \<le> length s" "2 + Uint16 (take 2 s) \<le> length s"
      "off' = off + (2 + Uint16 (take 2 s))"
      by (auto simp: header_value_def skip_value_def Let_def subslice_def split: if_splits)
    let ?v = "take (Uint16 (take 2 s)) (drop 2 s)"
    have b: "Uint16 (take 2 s) = be (take 2 s)" "be (take 2 s) < 65536"
      using Uint16_be [of "take 2 s"] len(1) by simp_all
    have v: "length ?v = be (take 2 s)" using b len by simp
    have "big_endian 2 (be (take 2 s)) = take 2 s" using big_endian_be [of "take 2 s"] len(1) by simp
    moreover have "take 2 s @ ?v @ drop (Uint16 (take 2 s)) (drop 2 s) = s" by (simp only: append_take_drop_id)
    ultimately have "s = encode_value tag ?v @ drop (Uint16 (take 2 s)) (drop 2 s)"
      using True unfolding encode_value_def v by simp
    moreover have "header_ok (name, tag, ?v)" using True b v assms by (auto simp: header_ok_def)
    moreover have "off' = length (p @ encode_value tag ?v)" using True b v len assms by (auto simp: encode_value_def)
    moreover have "f' = apply_header f (name, tag, ?v)"
      using True \<open>?l\<close> assms by (auto simp: header_value_def skip_value_def Let_def apply_header_def subslice_def split: if_splits)
    ultimately show ?thesis by blast
  next
    case False
    with \<open>?l\<close> assms have w: "tag \<le> 9" "value_width tag \<le> length s" "off' = off + value_width tag" "f' = f"
      by (auto simp: header_value_def skip_value_def value_width_def Suc_le_eq split: if_splits)
    then show ?thesis using False assms
      by (intro exI [of _ "take (value_width tag) s"] exI [of _ "drop (value_width tag) s"])
         (auto simp: encode_value_def header_ok_def apply_header_def Suc_le_eq)
  qed
next
  assume ?r
  then obtain val r where v: "s = encode_value tag val @ r" "header_ok (name, tag, val)"
    "off' = length (p @ encode_value tag val)" "f' = apply_header f (name, tag, val)" by blast
  show ?l
  proof (cases "tag = 6 \<or> tag = 7")
    case True
    with v(2) have "length val < 256 ^ 2" by (auto simp: header_ok_def)
    then have "Uint16 (take 2 (big_endian 2 (length val) @ q)) = length val" for q
      using Uint16_be [of "big_endian 2 (length val)"] be_big_endian [of "length val" 2] by simp
    with True v assms show ?thesis
      by (auto simp: header_value_def skip_value_def Let_def encode_value_def apply_header_def subslice_def)
  next
    case False
    with v assms show ?thesis
      by (auto simp: header_value_def skip_value_def encode_value_def apply_header_def header_ok_def
          value_width_def Suc_le_eq split: if_splits)
  qed
qed

text \<open>The header loop accepts exactly the encodings of header lists.\<close>

lemma headers_step:
  assumes "length p = off"
  shows "parse_headers (p @ s) off f = Inr g \<longleftrightarrow>
     (if s = [] then g = f
      else \<exists>h r. header_ok h \<and> s = encode_header h @ r \<and>
        parse_headers ((p @ encode_header h) @ r) (length (p @ encode_header h)) (apply_header f h) = Inr g)"
    (is "?l \<longleftrightarrow> ?r")
proof (cases s)
  case (Cons c t)
  let ?n = "of_char c :: nat"
  have c: "(p @ s) ! off = c" using Cons assms by (simp add: nth_append)
  have eq: "?l \<longleftrightarrow> ?n < length t \<and>
     (\<exists>off' f'. header_value (p @ s) (off + 2 + ?n) (of_char (t ! ?n)) (take ?n t) f = Inr (off', f') \<and>
        parse_headers (p @ s) off' f' = Inr g)"
    using Cons assms c
    by (subst parse_headers.simps) (auto simp: Let_def subslice_def nth_append split: sum.splits)
  have pre: "header_value (p @ s) (off + 2 + ?n) (of_char (t ! ?n)) (take ?n t) f = Inr (off', f') \<longleftrightarrow>
     (\<exists>val r. drop (Suc ?n) t = encode_value (of_char (t ! ?n)) val @ r \<and> header_ok (take ?n t, of_char (t ! ?n), val) \<and>
        off' = length ((p @ c # take (Suc ?n) t) @ encode_value (of_char (t ! ?n)) val) \<and>
        f' = apply_header f (take ?n t, of_char (t ! ?n), val))" if "?n < length t" for off' f'
    using header_value_iff [of "p @ c # take (Suc ?n) t" "off + 2 + ?n" "take ?n t" "drop (Suc ?n) t" "of_char (t ! ?n)" f off' f']
      that assms Cons by (simp add: min_absorb2 Suc_leI)
  show ?thesis
  proof
    assume ?l
    then obtain off' f' where n: "?n < length t" "parse_headers (p @ s) off' f' = Inr g"
      and h: "header_value (p @ s) (off + 2 + ?n) (of_char (t ! ?n)) (take ?n t) f = Inr (off', f')"
      using eq by blast
    then obtain val r where v: "drop (Suc ?n) t = encode_value (of_char (t ! ?n)) val @ r"
      "header_ok (take ?n t, of_char (t ! ?n), val)"
      "off' = length ((p @ c # take (Suc ?n) t) @ encode_value (of_char (t ! ?n)) val)"
      "f' = apply_header f (take ?n t, of_char (t ! ?n), val)" using pre by blast
    let ?h = "(take ?n t, of_char (t ! ?n) :: nat, val)"
    have e: "encode_header ?h = c # take (Suc ?n) t @ encode_value (of_char (t ! ?n)) val"
      using n(1) by (simp add: encode_header_def take_Suc_conv_app_nth)
    then have "s = encode_header ?h @ r" using Cons v(1) by (metis append_Cons append_assoc append_take_drop_id)
    moreover have "off' = length (p @ encode_header ?h)" using v(3) e by simp
    ultimately have "header_ok ?h \<and> s = encode_header ?h @ r \<and>
        parse_headers ((p @ encode_header ?h) @ r) (length (p @ encode_header ?h)) (apply_header f ?h) = Inr g"
      using v(2,4) n(2) by simp
    with Cons show ?r by (metis list.distinct(1))
  next
    assume ?r
    then obtain h r where h: "header_ok h" "s = encode_header h @ r"
      "parse_headers ((p @ encode_header h) @ r) (length (p @ encode_header h)) (apply_header f h) = Inr g"
      using Cons by auto
    obtain name tag val where hd: "h = (name, tag, val)" by (cases h)
    with h(1) have len: "length name < 256" "tag \<le> 9" by (simp_all add: header_ok_def)
    with hd h(2) Cons have t: "?n = length name" "t = name @ char_of tag # encode_value tag val @ r"
      by (auto simp: encode_header_def)
    then have tag: "of_char (t ! ?n) = tag" using len by (simp add: nth_append)
    have n: "?n < length t" using t by simp
    have "header_value (p @ s) (off + 2 + ?n) (of_char (t ! ?n)) (take ?n t) f =
        Inr (length (p @ encode_header h), apply_header f h)"
      unfolding pre [OF n] using t tag hd h(1) Cons
      by (intro exI [of _ val] exI [of _ r]) (auto simp: encode_header_def)
    with h(2,3) n show ?l unfolding eq by auto
  qed
qed (use assms in \<open>auto simp: parse_headers.simps\<close>)

lemma parse_headers_iff:
  "length p = off \<Longrightarrow> parse_headers (p @ s) off f = Inr g \<longleftrightarrow>
     (\<exists>hs. list_all header_ok hs \<and> s = encode_headers hs \<and> g = foldl apply_header f hs)"
proof (induction s arbitrary: p off f rule: length_induct)
  case (1 s)
  show ?case
  proof (cases "s = []")
    case True
    have "encode_headers hs = [] \<longleftrightarrow> hs = []" for hs
      by (cases hs) (auto simp: encode_headers_def encode_header_def split: prod.splits)
    moreover have "parse_headers (p @ s) off f = Inr g \<longleftrightarrow> g = f" using True headers_step [OF 1(2), of s f g] by simp
    ultimately show ?thesis using True by (auto simp: eq_commute [of "[]"])
  next
    case False
    have IH: "s = encode_header h @ r \<Longrightarrow>
       parse_headers ((p @ encode_header h) @ r) (length (p @ encode_header h)) f' = Inr g \<longleftrightarrow>
       (\<exists>hs. list_all header_ok hs \<and> r = encode_headers hs \<and> g = foldl apply_header f' hs)" for h r f'
    proof -
      assume s: "s = encode_header h @ r"
      have "length r < length s" unfolding s by (cases h) (simp add: encode_header_def)
      from 1(1) [rule_format, OF this refl] show ?thesis .
    qed
    have "parse_headers (p @ s) off f = Inr g \<longleftrightarrow> (\<exists>h r. header_ok h \<and> s = encode_header h @ r \<and>
        (\<exists>hs. list_all header_ok hs \<and> r = encode_headers hs \<and> g = foldl apply_header (apply_header f h) hs))"
      using headers_step [OF 1(2), of s f g] False IH by metis
    also have "\<dots> \<longleftrightarrow> (\<exists>hs. list_all header_ok hs \<and> s = encode_headers hs \<and> g = foldl apply_header f hs)"
      (is "?a \<longleftrightarrow> ?b")
    proof
      assume ?a
      then obtain h hs where "header_ok h" "list_all header_ok hs" "s = encode_header h @ encode_headers hs"
        "g = foldl apply_header (apply_header f h) hs" by blast
      then show ?b by (intro exI [of _ "h # hs"]) (simp add: encode_headers_def)
    next
      assume ?b
      then obtain hs where hs: "list_all header_ok hs" "s = encode_headers hs" "g = foldl apply_header f hs" by blast
      with False obtain h hs' where "hs = h # hs'" by (cases hs) (auto simp: encode_headers_def)
      with hs show ?a by (intro exI [of _ h] exI [of _ "encode_headers hs'"]) (auto simp: encode_headers_def)
    qed
    finally show ?thesis .
  qed
qed

definition prelude_bytes :: "nat \<Rightarrow> nat \<Rightarrow> string" where
  "prelude_bytes hn pn =
     (let pre = big_endian 4 (16 + hn + pn) @ big_endian 4 hn in pre @ big_endian 4 (unat (ChecksumIEEE pre)))"

definition frame_bytes :: "header list \<Rightarrow> string \<Rightarrow> string" where
  "frame_bytes hs payload =
     (let prelude = prelude_bytes (length (encode_headers hs)) (length payload);
          body = encode_headers hs @ payload
      in prelude @ body @ big_endian 4 (unat (ChecksumIEEE (prelude @ body))))"

definition frame_ok :: "header list \<Rightarrow> string \<Rightarrow> bool" where
  "frame_ok hs payload \<longleftrightarrow> list_all header_ok hs \<and> length (encode_headers hs) + length payload \<le> maxFrameSize"

lemma length_prelude_bytes [simp]: "length (prelude_bytes a b) = 12"
  by (simp add: prelude_bytes_def)

lemma prelude_fields:
  "length a = 4 \<Longrightarrow> length b = 4 \<Longrightarrow> subslice (a @ b @ c) 0 4 = a"
  "length a = 4 \<Longrightarrow> length b = 4 \<Longrightarrow> length c = 4 \<Longrightarrow> subslice (a @ b @ c) 4 4 = b"
  "length a = 4 \<Longrightarrow> length b = 4 \<Longrightarrow> length c = 4 \<Longrightarrow> subslice (a @ b @ c) 8 4 = c"
  "length a = 4 \<Longrightarrow> length b = 4 \<Longrightarrow> subslice (a @ b @ c) 0 8 = a @ b"
  by (simp_all add: subslice_def)

lemma check_prelude_iff:
  assumes "length b = 12"
  shows "check_prelude b = Inr (rem, hl) \<longleftrightarrow> hl \<le> rem \<and> rem \<le> maxFrameSize \<and> b = prelude_bytes hl (rem - hl)"
proof -
  obtain x y z where b: "b = x @ y @ z" "length x = 4" "length y = 4" "length z = 4"
    using assms by (intro that [of "take 4 b" "take 4 (drop 4 b)" "drop 8 b"]) (simp_all flip: append_assoc take_add)
  have parse: "check_prelude b = Inr (rem, hl) \<longleftrightarrow>
      ChecksumIEEE (x @ y) = Uint32 z \<and> be x = 16 + rem \<and> rem \<le> maxFrameSize \<and> hl = be y \<and> hl \<le> rem"
    using b by (auto simp: check_prelude_def prelude_fields unat_Uint32 uint_Uint32 Let_def)
  show ?thesis
  proof
    assume "check_prelude b = Inr (rem, hl)"
    then have *: "ChecksumIEEE (x @ y) = Uint32 z" "be x = 16 + rem" "rem \<le> maxFrameSize" "hl = be y" "hl \<le> rem"
      using parse by simp_all
    have "x = big_endian 4 (16 + rem)" "y = big_endian 4 hl" "z = big_endian 4 (unat (ChecksumIEEE (x @ y)))"
      using big_endian_be [of x] big_endian_be [of y] big_endian_Uint32 [of z] b * by simp_all
    then have "b = prelude_bytes hl (rem - hl)" using b(1) *(5) by (simp add: prelude_bytes_def Let_def)
    with * show "hl \<le> rem \<and> rem \<le> maxFrameSize \<and> b = prelude_bytes hl (rem - hl)" by simp
  next
    assume a: "hl \<le> rem \<and> rem \<le> maxFrameSize \<and> b = prelude_bytes hl (rem - hl)"
    let ?x = "big_endian 4 (16 + rem)" and ?y = "big_endian 4 hl"
    have e: "b = ?x @ ?y @ big_endian 4 (unat (ChecksumIEEE (?x @ ?y)))"
      using a by (simp add: prelude_bytes_def Let_def)
    then have xyz: "x = ?x" "y = ?y" "z = big_endian 4 (unat (ChecksumIEEE (?x @ ?y)))"
      using b by (metis append_eq_append_conv length_big_endian)+
    have "be x = 16 + rem" "be y = hl"
      using a xyz be_big_endian [of "16 + rem" 4] be_big_endian [of hl 4] by (simp_all add: maxFrameSize_def)
    moreover have "Uint32 z = ChecksumIEEE (x @ y)" using xyz Uint32_be [of _ "[]"] by simp
    ultimately show "check_prelude b = Inr (rem, hl)" using a parse by simp
  qed
qed

lemma check_body_iff:
  assumes "length buf = rem + 4" "hl \<le> rem"
  shows "check_body prelude rem hl buf = Inr f \<longleftrightarrow>
     (\<exists>hs p. list_all header_ok hs \<and> length (encode_headers hs) = hl \<and> length p = rem - hl \<and>
        buf = (encode_headers hs @ p) @ big_endian 4 (unat (ChecksumIEEE (prelude @ encode_headers hs @ p))) \<and>
        f = frame_of hs p)" (is "_ \<longleftrightarrow> ?r")
proof -
  obtain h q z where buf: "buf = h @ q @ z" "length h = hl" "length q = rem - hl" "length z = 4"
    using assms by (intro that [of "take hl buf" "take (rem - hl) (drop hl buf)" "drop rem buf"])
      (simp_all flip: append_assoc take_add)
  have t: "take hl buf = h" "drop hl (take rem buf) = q" "take rem buf = h @ q" "drop rem buf = z"
    using buf assms(2) by simp_all
  have parse: "check_body prelude rem hl buf = Inr f \<longleftrightarrow>
      ChecksumIEEE (prelude @ h @ q) = Uint32 z \<and> (\<exists>hs. list_all header_ok hs \<and> h = encode_headers hs \<and> f = frame_of hs q)"
    using parse_headers_iff [of "[]" 0 h] by (simp add: check_body_def t buf(2) ChecksumIEEE_def frame_of_def Let_def)
  show ?thesis
  proof
    assume "check_body prelude rem hl buf = Inr f"
    then obtain hs where hs: "ChecksumIEEE (prelude @ h @ q) = Uint32 z" "list_all header_ok hs"
      "h = encode_headers hs" "f = frame_of hs q" using parse by blast
    with big_endian_Uint32 [OF buf(4)] buf show ?r by (intro exI [of _ hs] exI [of _ q]) auto
  next
    assume ?r
    then obtain hs p where hs: "list_all header_ok hs" "length (encode_headers hs) = hl" "length p = rem - hl"
      "buf = (encode_headers hs @ p) @ big_endian 4 (unat (ChecksumIEEE (prelude @ encode_headers hs @ p)))"
      "f = frame_of hs p" by blast
    then have "h = encode_headers hs" "q = p" "z = big_endian 4 (unat (ChecksumIEEE (prelude @ encode_headers hs @ p)))"
      using buf by auto
    with hs Uint32_be [of _ "[]"] show "check_body prelude rem hl buf = Inr f" unfolding parse by auto
  qed
qed

lemma frame_accepted:
  "fst (Next_frame r) = Inr f \<and> data_of (snd (Next_frame r)) = rest \<longleftrightarrow>
     (\<exists>hs payload. frame_ok hs payload \<and> data_of r = frame_bytes hs payload @ rest \<and> f = frame_of hs payload)"
proof -
  obtain x r' where nx: "Next_frame r = (x, r')" by fastforce
  let ?b = "data_of r"
  have len: "12 + (length (encode_headers hs) + length p) + 4 \<le> length (frame_bytes hs p @ q)" for hs p q
    by (simp add: frame_bytes_def Let_def)
  have "x = Inr f \<and> data_of r' = rest \<longleftrightarrow>
     12 \<le> length ?b \<and> (\<exists>rem hl. check_prelude (take 12 ?b) = Inr (rem, hl) \<and> rem + 4 \<le> length ?b - 12 \<and>
       check_body (take 12 ?b) rem hl (take (rem + 4) (drop 12 ?b)) = Inr f \<and> rest = drop (rem + 4) (drop 12 ?b))"
    using Next_frame_abs [OF nx]
    by (auto simp: aNext_frame_def aReadFull_def abs_reader_def split: if_splits sum.splits prod.splits)
  also have "\<dots> \<longleftrightarrow> (\<exists>hs payload. frame_ok hs payload \<and> ?b = frame_bytes hs payload @ rest \<and> f = frame_of hs payload)"
    (is "?l \<longleftrightarrow> ?r")
  proof
    assume ?l
    then obtain rem hl where l: "12 \<le> length ?b" "check_prelude (take 12 ?b) = Inr (rem, hl)" "rem + 4 \<le> length ?b - 12"
      "check_body (take 12 ?b) rem hl (take (rem + 4) (drop 12 ?b)) = Inr f" "rest = drop (rem + 4) (drop 12 ?b)" by blast
    then have p: "hl \<le> rem" "rem \<le> maxFrameSize" "take 12 ?b = prelude_bytes hl (rem - hl)"
      using check_prelude_iff [of "take 12 ?b" rem hl] by simp_all
    from l(3,4) p(1) obtain hs q where h: "list_all header_ok hs" "length (encode_headers hs) = hl" "length q = rem - hl"
      "take (rem + 4) (drop 12 ?b) =
         (encode_headers hs @ q) @ big_endian 4 (unat (ChecksumIEEE (take 12 ?b @ encode_headers hs @ q)))" "f = frame_of hs q"
      using check_body_iff [of "take (rem + 4) (drop 12 ?b)" rem hl "take 12 ?b" f] by auto
    have "?b = take 12 ?b @ take (rem + 4) (drop 12 ?b) @ rest" using l(5) by (simp only: append_take_drop_id)
    also have "\<dots> = frame_bytes hs q @ rest" unfolding h(4) unfolding p(3) using h(2,3) by (simp add: frame_bytes_def Let_def)
    finally show ?r using h p by (intro exI [of _ hs] exI [of _ q]) (simp add: frame_ok_def)
  next
    assume ?r
    then obtain hs p where h: "frame_ok hs p" "?b = frame_bytes hs p @ rest" "f = frame_of hs p" by blast
    let ?hl = "length (encode_headers hs)" let ?rem = "?hl + length p"
    have t: "take 12 ?b = prelude_bytes ?hl (length p)"
      "take (?rem + 4) (drop 12 ?b) = (encode_headers hs @ p) @ big_endian 4 (unat (ChecksumIEEE (take 12 ?b @ encode_headers hs @ p)))"
      "drop (?rem + 4) (drop 12 ?b) = rest"
      unfolding h(2) by (simp_all add: frame_bytes_def Let_def)
    have "check_prelude (take 12 ?b) = Inr (?rem, ?hl)"
      using h(1) t(1) by (subst check_prelude_iff) (simp_all add: frame_ok_def)
    moreover have "check_body (take 12 ?b) ?rem ?hl (take (?rem + 4) (drop 12 ?b)) = Inr f"
      using h(1,3) len [of hs p rest] unfolding h(2) [symmetric]
      by (subst check_body_iff) (auto simp: frame_ok_def t(2))
    ultimately show ?l using len [of hs p rest] t(3) unfolding h(2) [symmetric] by fastforce
  qed
  finally show ?thesis using nx by simp
qed

text \<open>
  C4: the decoder accepts exactly the well-formed frames: \<open>Next\<close> returns a frame if and only if the bytes
  to come start with a frame of at most 10 MiB whose headers are well-typed and whose lengths and both
  checksums are right; it then returns that frame and leaves exactly the bytes behind it, for any way the
  reader cuts its bytes.
\<close>

theorem Next_frame_accepts:
  "fst (Next_frame r) = Inr f \<and> data_of (snd (Next_frame r)) = rest \<longleftrightarrow>
     (\<exists>hs payload. frame_ok hs payload \<and> data_of r = frame_bytes hs payload @ rest \<and> f = frame_of hs payload)"
  by (rule frame_accepted)

lemma Next_frame_final: "Next_frame r = (Inr f, r') \<Longrightarrow> final_of r' = final_of r"
  by (auto dest!: Next_frame_abs simp: aNext_frame_def aReadFull_def abs_reader_def split: if_splits sum.splits prod.splits)

lemma Next_frame_end: "data_of r = [] \<Longrightarrow> fst (Next_frame r) = Inl (final_of r) \<and>
    data_of (snd (Next_frame r)) = [] \<and> final_of (snd (Next_frame r)) = final_of r"
proof -
  assume "data_of r = []"
  then have "aNext_frame (abs_reader r) = (Inl (final_of r), [], final_of r)"
    by (simp add: aNext_frame_def aReadFull_def abs_reader_def)
  with Next_frame_abs [of r "fst (Next_frame r)" "snd (Next_frame r)"] show ?thesis
    by (auto simp: abs_reader_def)
qed

lemma end_outputs: "data_of r = [] \<Longrightarrow> outputs (decode_step Next_frame) n r = replicate n (Inl (final_of r))"
proof (induction n arbitrary: r)
  case (Suc n)
  from Next_frame_end [OF Suc.prems] Suc.IH [of "snd (Next_frame r)"] show ?case
    by (auto simp: decode_step_def split: prod.splits)
qed simp

text \<open>
  Decoding a stream of encoded frames gives back exactly those frames, in order, and from then on the
  error that ends the stream, for any way the reader cuts its bytes.
\<close>

theorem Next_frame_stream:
  assumes "data_of r = concat (map (\<lambda>(hs, p). frame_bytes hs p) fs)" "list_all (\<lambda>(hs, p). frame_ok hs p) fs"
  shows "outputs (decode_step Next_frame) (length fs + n) r =
    map (\<lambda>(hs, p). Inr (frame_of hs p)) fs @ replicate n (Inl (final_of r))"
  using assms
proof (induction fs arbitrary: r)
  case (Cons x fs)
  obtain hs p where x: "x = (hs, p)" by (cases x)
  obtain y r' where nx: "Next_frame r = (y, r')" by fastforce
  have "y = Inr (frame_of hs p) \<and> data_of r' = concat (map (\<lambda>(hs, p). frame_bytes hs p) fs)"
    using Cons.prems x nx frame_accepted [of r "frame_of hs p" "concat (map (\<lambda>(hs, p). frame_bytes hs p) fs)"] by auto
  with Cons nx x Next_frame_final [of r "frame_of hs p" r'] show ?case by (simp add: decode_step_def)
qed (simp add: end_outputs)

definition sample_frames :: "(header list \<times> string) list" where
  "sample_frames = [([('':event-type'', 7, ''chunk''), (''t'', 8, replicate 8 (CHR 0x01))], ''{}''), ([], '''')]"

lemma sample_frames_ok: "list_all (\<lambda>(hs, p). frame_ok hs p) sample_frames"
  by (simp add: sample_frames_def frame_ok_def header_ok_def value_width_def encode_headers_def encode_header_def
      encode_value_def maxFrameSize_def)

theorem Next_frame_stream_witness:
  "outputs (decode_step Next_frame) (length sample_frames + 1) [(concat (map (\<lambda>(hs, p). frame_bytes hs p) sample_frames), None)] =
     map (\<lambda>(hs, p). Inr (frame_of hs p)) sample_frames @ [Inl ErrEOF]"
  using Next_frame_stream [OF _ sample_frames_ok, of "[(concat (map (\<lambda>(hs, p). frame_bytes hs p) sample_frames), None)]" 1]
  by (simp del: outputs.simps)

lemma sealed_detects:
  assumes "s @ big_endian 4 (unat (ChecksumIEEE s)) = u @ x # v"
    "s' @ big_endian 4 (unat (ChecksumIEEE s')) = u @ y # v" "length s = length s'"
  shows "x = y"
proof (cases "length u < length s")
  case True
  let ?T = "\<lambda>s. big_endian 4 (unat (ChecksumIEEE s))"
  have split: "\<exists>v1. s = u @ x # v1 \<and> v = v1 @ t" if "s @ t = u @ x # v" "length u < length s" for s t and x :: char
  proof -
    obtain us where "s = u @ us" "us @ t = x # v" "us \<noteq> []"
      using \<open>length u < length s\<close> \<open>s @ t = u @ x # v\<close> by (auto simp: append_eq_append_conv2)
    then show ?thesis by (cases us) auto
  qed
  obtain v1 where s: "s = u @ x # v1" "v = v1 @ ?T s" using split [OF assms(1) True] by blast
  have "length u < length s'" using True assms(3) by simp
  then obtain v2 where s': "s' = u @ y # v2" "v = v2 @ ?T s'" using split [OF assms(2)] by blast
  from s(2) s'(2) have "v1 = v2" "big_endian 4 (unat (ChecksumIEEE s)) = big_endian 4 (unat (ChecksumIEEE s'))"
    by (metis append_eq_append_conv length_big_endian)+
  then have "ChecksumIEEE s = ChecksumIEEE s'" using Uint32_be [of _ "[]"] by metis
  with s(1) s'(1) \<open>v1 = v2\<close> checksum_detects [of x y 0 u v1] show ?thesis by (auto simp: ChecksumIEEE_def)
next
  case False
  with assms have "s = take (length s) u" "s' = take (length s) u"
    by (metis append_eq_conv_conj linorder_not_less take_append diff_is_0_eq' take0 append_Nil2)+
  then have "s = s'" by simp
  with assms(1,2) have "u @ x # v = u @ y # v" by simp
  then show ?thesis by simp
qed

text \<open>
  C17: no frame with one corrupted byte is accepted: if a frame is read with one byte replaced by another,
  whether in a length, a header, the payload or a checksum, \<open>Next\<close> returns an error.
\<close>

theorem Next_frame_corrupted:
  assumes "frame_ok hs payload" "frame_bytes hs payload = u @ x # v" "x \<noteq> y" "data_of r = u @ y # v @ rest"
  shows "\<exists>err. fst (Next_frame r) = Inl err"
proof (rule ccontr)
  assume "\<not> ?thesis"
  then obtain f where "fst (Next_frame r) = Inr f" by (metis sum.exhaust)
  then obtain hs' p' q where f': "frame_ok hs' p'" "u @ y # v @ rest = frame_bytes hs' p' @ q"
    using frame_accepted [of r f "data_of (snd (Next_frame r))"] assms(4) by auto
  let ?a = "length (encode_headers hs)" and ?b = "length payload" and ?a' = "length (encode_headers hs')" and ?b' = "length p'"
  let ?s = "prelude_bytes ?a ?b @ encode_headers hs @ payload" and ?s' = "prelude_bytes ?a' ?b' @ encode_headers hs' @ p'"
  have fb: "frame_bytes hs payload = ?s @ big_endian 4 (unat (ChecksumIEEE ?s))"
    "frame_bytes hs' p' = ?s' @ big_endian 4 (unat (ChecksumIEEE ?s'))" by (simp_all add: frame_bytes_def Let_def)
  have t: "prelude_bytes ?a ?b = take 12 (u @ x # v)" "prelude_bytes ?a' ?b' = take 12 (u @ y # v)"
  proof -
    show "prelude_bytes ?a ?b = take 12 (u @ x # v)" unfolding assms(2) [symmetric] fb by simp
    have "length (u @ x # v) \<ge> 12" unfolding assms(2) [symmetric] fb by simp
    then have "take 12 ((u @ y # v) @ rest) = take 12 (u @ y # v)" by (simp only: take_append) simp
    then have "take 12 (u @ y # v) = take 12 (u @ y # v @ rest)" by (simp only: append_assoc append_Cons)
    then show "prelude_bytes ?a' ?b' = take 12 (u @ y # v)" unfolding f'(2) fb by simp
  qed
  show False
  proof (cases "length u < 12")
    case True
    then obtain k where k: "12 - length u = Suc k" by (cases "12 - length u") auto
    with t True have "prelude_bytes ?a ?b = u @ x # take k v" "prelude_bytes ?a' ?b' = u @ y # take k v" by simp_all
    with assms(3) sealed_detects [of "big_endian 4 (16 + ?a + ?b) @ big_endian 4 ?a" u x "take k v"
        "big_endian 4 (16 + ?a' + ?b') @ big_endian 4 ?a'" y] show False by (simp add: prelude_bytes_def Let_def)
  next
    case False
    then have "take 4 (prelude_bytes ?a ?b) = take 4 (prelude_bytes ?a' ?b')" using t by simp
    then have "big_endian 4 (16 + ?a + ?b) = big_endian 4 (16 + ?a' + ?b')"
      by (simp add: prelude_bytes_def Let_def)
    then have len: "?a + ?b = ?a' + ?b'"
      using assms(1) f'(1) be_big_endian [of "16 + ?a + ?b" 4] be_big_endian [of "16 + ?a' + ?b'" 4]
      by (simp add: frame_ok_def maxFrameSize_def)
    then have "length (frame_bytes hs' p') = length (u @ y # v)"
      using arg_cong [OF assms(2), of length] by (simp add: fb)
    moreover have "(u @ y # v) @ rest = frame_bytes hs' p' @ q" using f'(2) by simp
    ultimately have "frame_bytes hs' p' = u @ y # v" by (simp add: append_eq_append_conv del: append_assoc)
    then have s': "?s' @ big_endian 4 (unat (ChecksumIEEE ?s')) = u @ y # v" unfolding fb .
    have "length ?s = length ?s'" using len by simp
    from sealed_detects [OF trans [OF fb(1) [symmetric] assms(2)] s' this] assms(3) show False by contradiction
  qed
qed

theorem Next_frame_corrupted_witness:
  "\<exists>err. fst (Next_frame [(CHR 0x01 # tl (frame_bytes [] []), None)]) = Inl err"
proof -
  have "big_endian 4 16 = CHR 0x00 # tl (big_endian 4 16)" by code_simp
  then have "frame_bytes [] [] = CHR 0x00 # tl (frame_bytes [] [])"
    by (metis (no_types, lifting) frame_bytes_def prelude_bytes_def Let_def append_Cons list.sel(3) add_0_right
        encode_headers_def list.map(1) concat.simps(1) list.size(3))
  then show ?thesis
    using Next_frame_corrupted [of "[]" "[]" "[]" "CHR 0x00" "tl (frame_bytes [] [])" "CHR 0x01"
        "[(CHR 0x01 # tl (frame_bytes [] []), None)]" "[]"]
    by (simp add: frame_ok_def maxFrameSize_def encode_headers_def)
qed

end
