(* ===== verification/BedrockSse.thy ===== *)
theory BedrockSse
  imports EventStream Sse
begin

text \<open>
  The bridge from Bedrock's binary event stream to server-sent events (\<open>eventStreamSSEReader\<close> in
  \<open>src/provider/bedrock/anthropic.go\<close>): an \<open>io.Reader\<close> over an \<open>io.Reader\<close>. What \<open>json.Unmarshal\<close> finds
  in the \<open>bytes\<close> member of a payload is the parameter \<open>unm\<close>.
\<close>

record eventStreamSSEReader =
  esSrc :: reader
  esPending :: string
  esErr :: "go_error option"

definition newEventStreamSSEReader :: "reader \<Rightarrow> eventStreamSSEReader" where
  "newEventStreamSSEReader src = \<lparr>esSrc = src, esPending = [], esErr = None\<rparr>"

definition frame_text :: "(string \<Rightarrow> string option) \<Rightarrow> eventStreamFrame \<Rightarrow> string" where
  "frame_text unm frame =
     (if MessageType frame = ''event'' then
        (case unm (Payload frame) of
           Some bytes \<Rightarrow> if bytes \<noteq> [] then ''data: '' @ bytes @ [LF, LF] else []
         | None \<Rightarrow> [])
      else if MessageType frame = ''exception'' \<or> MessageType frame = ''error'' then
        ''event: error'' @ [LF] @ ''data: '' @ Payload frame @ [LF, LF]
      else [])"

lemma frame_nonempty: "length r < length (frame_bytes hs p @ r)"
  by (simp add: frame_bytes_def Let_def)

lemma Next_frame_shrinks: "Next_frame r = (Inr f, r') \<Longrightarrow> length (data_of r') < length (data_of r)"
  using frame_accepted [of r f "data_of r'"] frame_nonempty by fastforce

function fill_pending :: "(string \<Rightarrow> string option) \<Rightarrow> eventStreamSSEReader \<Rightarrow> eventStreamSSEReader" where
  "fill_pending unm r =
     (if esPending r = [] \<and> esErr r = None then
        (case Next_frame (esSrc r) of
           (Inl err, src) \<Rightarrow> r\<lparr>esSrc := src, esErr := Some err\<rparr>
         | (Inr frame, src) \<Rightarrow> fill_pending unm (r\<lparr>esSrc := src, esPending := frame_text unm frame\<rparr>))
      else r)"
  by pat_completeness auto
termination
  by (relation "measure (\<lambda>(unm, r). length (data_of (esSrc r)))") (auto dest: Next_frame_shrinks [OF sym])

declare fill_pending.simps [simp del]

definition Read :: "(string \<Rightarrow> string option) \<Rightarrow> nat \<Rightarrow> eventStreamSSEReader \<Rightarrow>
    (string \<times> go_error option) \<times> eventStreamSSEReader" where
  "Read unm n r0 =
     (let r = fill_pending unm r0 in
      if esPending r \<noteq> [] then ((take n (esPending r), None), r\<lparr>esPending := drop n (esPending r)\<rparr>)
      else (([], esErr r), r))"

text \<open>The results of reading with buffers of the given sizes, up to the first error.\<close>

fun read_all :: "(string \<Rightarrow> string option) \<Rightarrow> nat list \<Rightarrow> eventStreamSSEReader \<Rightarrow> reader" where
  "read_all unm [] r = []"
| "read_all unm (n # sizes) r =
     (case Read unm n r of
        ((c, Some e), _) \<Rightarrow> [(c, Some e)]
      | ((c, None), r') \<Rightarrow> (c, None) # read_all unm sizes r')"

section \<open>What the bridge delivers\<close>

function frames_to_come :: "reader \<Rightarrow> eventStreamFrame list \<times> go_error" where
  "frames_to_come r =
     (case Next_frame r of
        (Inl err, _) \<Rightarrow> ([], err)
      | (Inr frame, r') \<Rightarrow> apfst (\<lambda>fs. frame # fs) (frames_to_come r'))"
  by pat_completeness auto
termination
  by (relation "measure (\<lambda>r. length (data_of r))") (auto dest: Next_frame_shrinks [OF sym])

declare frames_to_come.simps [simp del]

definition sse_bytes :: "(string \<Rightarrow> string option) \<Rightarrow> eventStreamSSEReader \<Rightarrow> string" where
  "sse_bytes unm r = esPending r @ (if esErr r = None then concat (map (frame_text unm) (fst (frames_to_come (esSrc r)))) else [])"

definition sse_error :: "eventStreamSSEReader \<Rightarrow> go_error" where
  "sse_error r = (case esErr r of Some e \<Rightarrow> e | None \<Rightarrow> snd (frames_to_come (esSrc r)))"

lemma fill_pending_keeps:
  "sse_bytes unm (fill_pending unm r) = sse_bytes unm r \<and> sse_error (fill_pending unm r) = sse_error r \<and>
   (esPending (fill_pending unm r) \<noteq> [] \<or> esErr (fill_pending unm r) \<noteq> None)"
proof (induction unm r rule: fill_pending.induct)
  case (1 unm r)
  show ?case
  proof (cases "esPending r = [] \<and> esErr r = None")
    case True
    show ?thesis
    proof (cases "Next_frame (esSrc r)")
      case (Pair x src)
      with True 1 show ?thesis
        by (cases x) (simp_all add: fill_pending.simps [of unm r] frames_to_come.simps [of "esSrc r"]
            sse_bytes_def sse_error_def)
    qed
  qed (auto simp: fill_pending.simps [of unm r])
qed

lemma Read_bytes:
  assumes "Read unm n r = ((c, e), r')" "0 < n"
  shows "sse_bytes unm r = c @ sse_bytes unm r' \<and> sse_error r' = sse_error r \<and> (c \<noteq> [] \<or> e \<noteq> None) \<and>
    (\<forall>x. e = Some x \<longrightarrow> sse_bytes unm r = [] \<and> c = [] \<and> x = sse_error r)"
proof -
  define r1 where "r1 = fill_pending unm r"
  have eq: "sse_bytes unm r1 = sse_bytes unm r" "sse_error r1 = sse_error r" "esPending r1 \<noteq> [] \<or> esErr r1 \<noteq> None"
    using fill_pending_keeps [of unm r] by (simp_all add: r1_def)
  have rd: "Read unm n r = (if esPending r1 \<noteq> [] then ((take n (esPending r1), None), r1\<lparr>esPending := drop n (esPending r1)\<rparr>)
      else (([], esErr r1), r1))" by (simp add: Read_def Let_def r1_def)
  show ?thesis unfolding eq(1,2) [symmetric]
    using rd assms eq(3) by (auto simp: sse_bytes_def sse_error_def split: if_splits)
qed

lemma read_all_bytes:
  assumes "list_all (\<lambda>n. 0 < n) sizes" "list_ex (\<lambda>x. snd x \<noteq> None) (read_all unm sizes r)"
  shows "data_of (read_all unm sizes r) = sse_bytes unm r \<and> final_of (read_all unm sizes r) = sse_error r \<and>
    steady (read_all unm sizes r)"
  using assms
proof (induction unm sizes r rule: read_all.induct)
  case (2 unm n sizes r)
  obtain c e r' where rd: "Read unm n r = ((c, e), r')" by (metis surj_pair)
  from 2(2) have "0 < n" by simp
  from Read_bytes [OF rd this] 2 rd show ?case by (cases e) (auto simp: steady_def)
qed simp

lemma read_all_ends:
  "list_all (\<lambda>n. 0 < n) sizes \<Longrightarrow> length (sse_bytes unm r) < length sizes \<Longrightarrow>
     list_ex (\<lambda>x. snd x \<noteq> None) (read_all unm sizes r)"
proof (induction unm sizes r rule: read_all.induct)
  case (2 unm n sizes r)
  obtain c e r' where rd: "Read unm n r = ((c, e), r')" by (metis surj_pair)
  from 2(2) have "0 < n" by simp
  from Read_bytes [OF rd this] 2 rd show ?case by (cases e; cases c) auto
qed simp

section \<open>From frames to events\<close>

definition event_frames :: "(header list \<times> string) list \<Rightarrow> string" where
  "event_frames fs = concat (map (\<lambda>(hs, p). frame_bytes hs p) fs)"

lemma frames_to_come_encoded:
  assumes "data_of r = event_frames fs" "list_all (\<lambda>(hs, p). frame_ok hs p) fs"
  shows "frames_to_come r = (map (\<lambda>(hs, p). frame_of hs p) fs, final_of r)"
  using assms
proof (induction fs arbitrary: r)
  case (Cons x fs)
  obtain hs p where x: "x = (hs, p)" by (cases x)
  obtain y r' where nx: "Next_frame r = (y, r')" by fastforce
  have "y = Inr (frame_of hs p) \<and> data_of r' = event_frames fs"
    using Cons.prems x nx frame_accepted [of r "frame_of hs p" "event_frames fs"] by (auto simp: event_frames_def)
  with Cons nx x Next_frame_final [of r "frame_of hs p" r'] show ?case by (simp add: frames_to_come.simps [of r])
next
  case Nil
  then show ?case using Next_frame_end [of r]
    by (auto simp: frames_to_come.simps [of r] event_frames_def split: prod.splits)
qed

text \<open>The events a frame stands for: one for a model event, an \<open>error\<close> event for an exception.\<close>

definition frame_events :: "(string \<Rightarrow> string option) \<Rightarrow> eventStreamFrame \<Rightarrow> (string \<times> string list) list" where
  "frame_events unm frame =
     (if MessageType frame = ''event'' then
        (case unm (Payload frame) of Some bytes \<Rightarrow> if bytes \<noteq> [] then [([], [bytes])] else [] | None \<Rightarrow> [])
      else if MessageType frame = ''exception'' \<or> MessageType frame = ''error'' then [(''error'', [Payload frame])]
      else [])"

lemma encode_events_append [simp]: "encode_events (xs @ ys) = encode_events xs @ encode_events ys"
  by (simp add: encode_events_def unlines_def)

lemma frame_text_events: "frame_text unm frame = encode_events (frame_events unm frame)"
  by (simp add: frame_text_def frame_events_def encode_events_def unlines_def event_lines_def split: option.split)

lemma frame_texts_events:
  "concat (map (frame_text unm) fs) = encode_events (concat (map (frame_events unm) fs))"
  by (induction fs) (simp_all add: frame_text_events, simp add: encode_events_def unlines_def)

lemma bridge_bytes:
  assumes "data_of src = event_frames fs" "list_all (\<lambda>(hs, p). frame_ok hs p) fs"
    "es = concat (map (frame_events unm) (map (\<lambda>(hs, p). frame_of hs p) fs))"
    "list_all (\<lambda>n. 0 < n) sizes" "length (encode_events es) < length sizes"
  shows "data_of (read_all unm sizes (newEventStreamSSEReader src)) = encode_events es \<and>
    steady (read_all unm sizes (newEventStreamSSEReader src)) \<and>
    final_of (read_all unm sizes (newEventStreamSSEReader src)) = final_of src"
proof -
  let ?r = "newEventStreamSSEReader src"
  have bytes: "sse_bytes unm ?r = encode_events es" "sse_error ?r = final_of src"
    using frames_to_come_encoded [OF assms(1,2)] unfolding assms(3) frame_texts_events [symmetric]
    by (simp_all add: sse_bytes_def sse_error_def newEventStreamSSEReader_def)
  with read_all_ends [OF assms(4), of unm ?r] assms(5) show ?thesis
    using read_all_bytes [OF assms(4), of unm ?r] by simp
qed

text \<open>
  C19: from binary frames to events: when Bedrock's frames, cut into reads in any way, are read through the
  bridge with buffers of any sizes, often enough to reach its end, a server-sent-event scanner on top returns one event per
  model event and per exception, in order, with the decoded bytes or the exception's payload as its data;
  \<open>Next\<close> returns the same data without the event types.
\<close>

theorem bedrock_events:
  assumes "data_of src = event_frames fs" "list_all (\<lambda>(hs, p). frame_ok hs p) fs"
    "es = concat (map (frame_events unm) (map (\<lambda>(hs, p). frame_of hs p) fs))" "list_all event_ok es"
    "list_all (\<lambda>n. 0 < n) sizes" "length (encode_events es) < length sizes"
  shows "outputs NextEvent n (NewScanner (read_all unm sizes (newEventStreamSSEReader src))) =
      take n (map (\<lambda>e. \<lparr>evType = fst e, evData = join_data (snd e)\<rparr>) es) \<and>
    outputs Next n (NewScanner (read_all unm sizes (newEventStreamSSEReader src))) =
      take n (takeWhile (\<lambda>p. p \<noteq> ''[DONE]'') (concat (map snd es)))"
  using bridge_bytes [OF assms(1-3,5,6)] encoded_events encoded_payloads assms(4) by blast

definition chunk_frames :: "(header list \<times> string) list" where
  "chunk_frames = [([('':message-type'', 7, ''event'')], ''a''), ([('':message-type'', 7, ''exception'')], ''b'')]"

lemma chunk_frames_events:
  "list_all (\<lambda>(hs, p). frame_ok hs p) chunk_frames"
  "concat (map (frame_events Some) (map (\<lambda>(hs, p). frame_of hs p) chunk_frames)) = [([], [''a'']), (''error'', [''b''])]"
  by (simp_all add: chunk_frames_def frame_ok_def header_ok_def encode_headers_def encode_header_def encode_value_def
      maxFrameSize_def frame_events_def frame_of_def apply_header_def set_header_def)

theorem bedrock_events_witness:
  "outputs NextEvent (Suc (Suc 0)) (NewScanner (read_all Some (replicate 99 1) (newEventStreamSSEReader [(event_frames chunk_frames, None)]))) =
     [\<lparr>evType = [], evData = ''a''\<rparr>, \<lparr>evType = ''error'', evData = ''b''\<rparr>]"
proof -
  let ?es = "[([], [''a'']), (''error'', [''b''])]" let ?src = "[(event_frames chunk_frames, None)]"
  have "data_of ?src = event_frames chunk_frames" by simp
  moreover have "list_all event_ok ?es" by (simp add: event_ok_def line_ok_def MaxLineSize_def MaxEventSize_def)
  moreover have "list_all (\<lambda>n. 0 < n) (replicate 99 (1::nat))" by (simp add: list_all_iff)
  moreover have "length (encode_events ?es) < length (replicate 99 (1::nat))"
    by (simp add: encode_events_def unlines_def event_lines_def)
  ultimately show ?thesis
    using bedrock_events [OF _ chunk_frames_events(1) chunk_frames_events(2) [symmetric], of ?src "replicate 99 1" "Suc (Suc 0)"]
    by (simp del: outputs.simps)
qed

end
