(* ===== verification/AnthropicFacts.thy ===== *)
theory AnthropicFacts
  imports AnthropicStream BedrockSse
begin

text \<open>
  What the chunks of an Anthropic stream look like: how they end, that encoded messages are rebuilt block by
  block, and what becomes of an exception that Bedrock reports in the middle of a stream.
\<close>

section \<open>The end of the chunks\<close>

lemma sends_flush: "sends (flushPendingCall tid)"
proof (rule sendsI)
  fix s :: anthropic_state
  assume "open_sink (emOut s)"
  then show "advances (fst (flushPendingCall tid s)) (emOut s) (emOut (snd (flushPendingCall tid s)))"
    by (auto simp: flushPendingCall_def emit_open pending_chunk_def inner_chunk_def advances_def good_chunks_def
        split: option.splits)
qed

lemma sends_flush_ids: "sends (flush_ids ids)"
proof (induction ids)
  case (Cons a ids)
  then show ?case
    using sends_flush [of a] by (auto simp: sends_reached intro!: reached_then)
qed (simp add: sends_def advances_refl)

lemma flush_ids_go_on: "open_sink (emOut s) \<Longrightarrow> fst (flush_ids ids s)"
proof (induction ids arbitrary: s)
  case (Cons a ids)
  have "fst (flushPendingCall a s)" "open_sink (emOut (snd (flushPendingCall a s)))"
    using Cons.prems by (auto simp: flushPendingCall_def emit_open split: option.split)
  with Cons.IH show ?case by (simp add: and_then_def)
qed simp

lemma sends_flush_all: "sends (flushAllPending env)"
  using sends_flush_ids by (auto simp: sends_reached flushAllPending_def)

lemma set_meta_out [simp]: "emOut (set_meta k v s) = emOut s"
  by (simp add: set_meta_def)

lemma track_out [simp]: "emOut (track b p s) = emOut s"
  by (simp add: track_def)

lemma inner_chunks [simp]:
  "inner_chunk (tool_start_chunk tid name)" "inner_chunk (reasoning_chunk t m)" "inner_chunk (plain_text_chunk t)"
  "inner_chunk (tool_call_chunk tid name args)" "inner_chunk (step_finish_chunk fr)"
  "inner_chunk (zero_Chunk\<lparr>scType := ChunkText, scMetadata := m\<rparr>)"
  "inner_chunk (zero_Chunk\<lparr>scType := ChunkToolCallDelta, scToolCallID := tid, scToolName := name, scToolInput := t\<rparr>)"
  "last_chunk (err_chunk e)" "last_chunk (finish_chunk_of env r s)" "last_chunk (handleStreamError env data event)"
  by (simp_all add: inner_chunk_def last_chunk_def tool_start_chunk_def reasoning_chunk_def plain_text_chunk_def
      tool_call_chunk_def step_finish_chunk_def err_chunk_def finish_chunk_of_def handleStreamError_def Let_def split: option.splits)

lemma sends_finish: "sends (finish_with env r)"
  by (rule sendsI) (auto simp: finish_with_def emit_return_def emit_open advances_def good_chunks_def)

lemmas sends_steps = reached_step [OF sends_emit] reached_step [OF sends_emit_return] reached_step [OF sends_flush_all]
  reached_step [OF sends_flush] reached_step [OF sends_finish]

lemma sends_message_start: "sends (message_start event)"
  unfolding sends_reached
proof safe
  fix s :: anthropic_state
  assume o: "open_sink (emOut s)"
  show "reached (emOut s) (message_start event s)"
  proof (cases "get_map event ''message''")
    case None
    with o show ?thesis by (simp add: message_start_def reached_same)
  next
    case (Some msg)
    show ?thesis
    proof (cases "inputTransformations (map_of msg ''input_transformations'')")
      case (Inl e)
      with Some o show ?thesis by (auto simp: message_start_def intro!: sends_steps)
    next
      case (Inr t)
      with Some o show ?thesis by (cases t) (simp_all add: message_start_def Let_def reached_same)
    qed
  qed
qed

lemma sends_blocks:
  "sends (block_tool_use env b cb)" "sends (block_server_tool b cb)" "sends (block_thinking b cb)"
  "sends (block_redacted b cb)" "sends (block_result cb)" "sends (\<lambda>s. (True, track b p s))"
  by (auto simp: sends_reached block_tool_use_def block_server_tool_def block_thinking_def
      block_redacted_def block_result_def Let_def intro!: reached_same sends_steps split: option.split)

lemma reached_flush_then:
  assumes "open_sink (emOut s)" "sends k" "emOut s = out"
  shows "reached out (and_then (if P then flushAllPending env s else (True, s)) k)"
  using assms reached_step [OF sends_flush_all, of out s env]
  by (intro reached_then reached_if) (auto simp: sends_reached reached_same)

lemma sends_block_start: "sends (content_block_start env event)"
  unfolding sends_reached content_block_start_def Let_def
proof (intro allI impI reached_option reached_flush_then)
  fix s :: anthropic_state and cb
  show "sends (if str_of cb ''type'' = ''tool_use'' then block_tool_use env (blockIDOf event) cb
     else if str_of cb ''type'' = ''server_tool_use'' then block_server_tool (blockIDOf event) cb
     else if str_of cb ''type'' = ''thinking'' then block_thinking (blockIDOf event) cb
     else if str_of cb ''type'' = ''text'' then
       (\<lambda>s. (True, track (blockIDOf event) (zero_Part\<lparr>pType := PartText, pText := str_of cb ''text''\<rparr>) s))
     else if str_of cb ''type'' = ''redacted_thinking'' then block_redacted (blockIDOf event) cb
     else if isServerToolResultBlock (str_of cb ''type'') then block_result cb else go_on)"
    by (simp add: sends_blocks)
qed (simp_all add: reached_same)

lemma sends_input_json: "sends (input_json_delta text)"
  unfolding sends_reached input_json_delta_def Let_def
  by (safe intro!: reached_if reached_same sends_steps inner_chunks) simp_all

lemma sends_block_delta: "sends (content_block_delta event)"
  unfolding sends_reached content_block_delta_def Let_def
  by (safe intro!: reached_if reached_option reached_same sends_steps reached_step [OF sends_input_json] inner_chunks) simp_all

lemma sends_block_stop: "sends content_block_stop"
  unfolding sends_reached content_block_stop_def stop_switch_def reset_tool_def Let_def
  by (safe intro!: reached_then reached_if reached_same sends_steps inner_chunks) simp_all

lemma delta_usage_out [simp]: "emOut (delta_usage event s) = emOut s"
  by (auto simp: delta_usage_def Let_def split: option.splits list.splits)

lemma meta_from_out [simp]: "emOut (meta_from m k as_key s) = emOut s"
  by (auto simp: meta_from_def split: option.splits)

lemma sends_message_delta: "sends (message_delta env event)"
  by (auto simp: sends_reached message_delta_def delta_stop_reason_def Let_def
      intro!: reached_then reached_same sends_steps split: option.splits sum.splits)

lemma sends_event: "sends (handle_event env data event)"
proof -
  have "sends (\<lambda>s. and_then (flushAllPending env s) (\<lambda>s. finish_with env (asStopReason s) s))"
    by (auto simp: sends_reached intro!: reached_then sends_steps)
  then show ?thesis
    by (auto simp: handle_event_def Let_def intro: sends_message_start sends_block_start sends_block_delta
        sends_block_stop sends_message_delta)
qed

lemma sends_data: "sends (handle_data env data)"
  by (auto simp: handle_data_def intro: sends_event split: option.splits)

section \<open>Which payload ends a stream\<close>

text \<open>
  The payloads at which \<open>parseSSE\<close> returns: \<open>message_stop\<close>, \<open>error\<close>, and a \<open>message_start\<close> or
  \<open>message_delta\<close> with malformed \<open>input_transformations\<close>.
\<close>

definition malformed :: "anymap \<Rightarrow> bool" where
  "malformed m \<longleftrightarrow> (\<exists>e. inputTransformations (map_of m ''input_transformations'') = Inl e)"

definition normal_end :: "anthropic_env \<Rightarrow> string \<Rightarrow> bool" where
  "normal_end env data \<longleftrightarrow>
     (case aeJson env data of None \<Rightarrow> False | Some event \<Rightarrow> str_of event ''type'' = ''message_stop'')"

definition failing_end :: "anthropic_env \<Rightarrow> string \<Rightarrow> bool" where
  "failing_end env data \<longleftrightarrow>
     (case aeJson env data of
        None \<Rightarrow> False
      | Some event \<Rightarrow>
          str_of event ''type'' = ''error'' \<or>
          str_of event ''type'' = ''message_start'' \<and>
            (\<exists>msg. get_map event ''message'' = Some msg \<and> malformed msg) \<or>
          str_of event ''type'' = ''message_delta'' \<and> malformed event)"

definition ends_stream :: "anthropic_env \<Rightarrow> string \<Rightarrow> bool" where
  "ends_stream env data \<longleftrightarrow> normal_end env data \<or> failing_end env data"

text \<open>A step that goes on while the receiver listens.\<close>

definition flowing :: "bool \<times> 's emitter_scheme \<Rightarrow> bool" where
  "flowing r \<longleftrightarrow> fst r \<and> open_sink (emOut (snd r))"

lemma flowing_pure [simp]: "flowing (True, s) \<longleftrightarrow> open_sink (emOut s)"
  by (simp add: flowing_def)

lemma flowing_then: "flowing r \<Longrightarrow> (\<And>s. open_sink (emOut s) \<Longrightarrow> flowing (k s)) \<Longrightarrow> flowing (and_then r k)"
  by (cases r) (simp add: flowing_def and_then_def)

lemma flowing_emit [simp]: "open_sink (emOut s) \<Longrightarrow> flowing (emit c s)"
  by (simp add: emit_open flowing_def)

lemma flowing_flush [simp]:
  assumes "open_sink (emOut s)"
  shows "flowing (flushPendingCall tid s)" "flowing (flushAllPending env s)"
proof -
  have "fst (flushPendingCall tid s)"
    using assms by (auto simp: flushPendingCall_def emit_open split: option.split)
  moreover have "fst (flushAllPending env s)"
    using assms flush_ids_go_on by (simp add: flushAllPending_def)
  moreover have "advances b (emOut s) out \<Longrightarrow> open_sink out" for b out
    by (simp add: advances_def)
  ultimately show "flowing (flushPendingCall tid s)" "flowing (flushAllPending env s)"
    using assms sends_flush sends_flush_all unfolding flowing_def sends_def by blast+
qed

lemma flowing_if: "(P \<Longrightarrow> flowing a) \<Longrightarrow> (\<not> P \<Longrightarrow> flowing b) \<Longrightarrow> flowing (if P then a else b)"
  by simp

lemma flowing_option:
  "flowing a \<Longrightarrow> (\<And>x. v = Some x \<Longrightarrow> flowing (f x)) \<Longrightarrow> flowing (case v of None \<Rightarrow> a | Some x \<Rightarrow> f x)"
  by (cases v) simp_all

lemma flowing_block_start: "open_sink (emOut s) \<Longrightarrow> flowing (content_block_start env event s)"
  unfolding content_block_start_def Let_def
  by (intro flowing_option flowing_then)
     (auto simp: block_tool_use_def block_server_tool_def block_thinking_def block_redacted_def block_result_def
        go_on_def Let_def split: option.split)

lemma flowing_block_delta: "open_sink (emOut s) \<Longrightarrow> flowing (content_block_delta event s)"
  unfolding content_block_delta_def input_json_delta_def Let_def
  by (safe intro!: flowing_option flowing_if) simp_all

lemma flowing_block_stop: "open_sink (emOut s) \<Longrightarrow> flowing (content_block_stop s)"
  unfolding content_block_stop_def stop_switch_def Let_def
  by (safe intro!: flowing_then flowing_if) (simp_all add: reset_tool_def)

lemma flowing_message_delta:
  "open_sink (emOut s) \<Longrightarrow> \<not> malformed event \<Longrightarrow> flowing (message_delta env event s)"
  by (cases "inputTransformations (map_of event ''input_transformations'')")
     (auto simp: message_delta_def malformed_def delta_stop_reason_def Let_def intro!: flowing_then split: option.split)

lemma flowing_message_start:
  "open_sink (emOut s) \<Longrightarrow> (\<And>msg. get_map event ''message'' = Some msg \<Longrightarrow> \<not> malformed msg) \<Longrightarrow>
     flowing (message_start event s)"
  unfolding message_start_def malformed_def
  by (intro flowing_option) (auto simp: Let_def split: sum.split option.split)

lemma payload_goes_on:
  assumes "open_sink (emOut s)" "\<not> ends_stream env data"
  shows "flowing (handle_data env data s)"
proof (cases "aeJson env data")
  case (Some event)
  with assms show ?thesis
    by (auto simp: handle_data_def handle_event_def Let_def go_on_def ends_stream_def normal_end_def failing_end_def
        intro: flowing_message_start flowing_block_start flowing_block_delta flowing_block_stop flowing_message_delta)
qed (use assms in \<open>simp add: handle_data_def go_on_def\<close>)

text \<open>What the payload that ends the stream leaves behind.\<close>

definition closed_by :: "sink \<Rightarrow> StreamChunkType \<Rightarrow> bool \<times> 's emitter_scheme \<Rightarrow> bool" where
  "closed_by out t r \<longleftrightarrow> \<not> fst r \<and>
     (\<exists>cs c. skSent (emOut (snd r)) = skSent out @ cs @ [c] \<and> list_all inner_chunk cs \<and> scType c = t)"

lemma closed_by_return:
  "open_sink (emOut s) \<Longrightarrow> emOut s = out \<Longrightarrow> scType c = t \<Longrightarrow> closed_by out t (emit_return c s)"
  by (auto simp: closed_by_def emit_return_def emit_open intro!: exI [of _ "[]"])

lemma finish_chunk_type [simp]: "scType (finish_chunk_of env r s) = ChunkFinish" "scType (err_chunk e) = ChunkError"
  "scType (handleStreamError env data event) = ChunkError"
  by (simp_all add: finish_chunk_of_def err_chunk_def handleStreamError_def Let_def split: option.splits)

lemma closed_by_finish:
  assumes "open_sink (emOut s)"
  shows "closed_by (emOut s) ChunkFinish (and_then (flushAllPending env s) (\<lambda>s. finish_with env (reason s) s))"
proof -
  obtain b t where fl: "flushAllPending env s = (b, t)" by fastforce
  with flowing_flush(2) [OF assms, of env] have b: "b" "open_sink (emOut t)" by (simp_all add: flowing_def)
  with fl assms sends_flush_all [of env] obtain cs where "skSent (emOut t) = skSent (emOut s) @ cs" "list_all inner_chunk cs"
    unfolding sends_def advances_def good_chunks_def by (metis fst_conv snd_conv)
  with fl b show ?thesis
    by (auto simp: closed_by_def and_then_def finish_with_def emit_return_def emit_open)
qed

lemma payload_ends:
  assumes "open_sink (emOut s)" "ends_stream env data"
  shows "closed_by (emOut s) (if normal_end env data then ChunkFinish else ChunkError) (handle_data env data s)"
proof -
  from assms(2) obtain event where event: "aeJson env data = Some event"
    by (auto simp: ends_stream_def normal_end_def failing_end_def split: option.splits)
  consider "str_of event ''type'' = ''message_stop''" | "str_of event ''type'' = ''error''"
    | msg where "str_of event ''type'' = ''message_start''" "get_map event ''message'' = Some msg" "malformed msg"
    | "str_of event ''type'' = ''message_delta''" "malformed event"
    using assms(2) event by (auto simp: ends_stream_def normal_end_def failing_end_def)
  then show ?thesis
  proof cases
    case 1
    with event closed_by_finish [OF assms(1)] show ?thesis
      by (simp add: normal_end_def handle_data_def handle_event_def)
  next
    case 2
    with event assms(1) show ?thesis
      by (auto simp: normal_end_def handle_data_def handle_event_def intro!: closed_by_return)
  next
    case 3
    with event assms(1) show ?thesis
      by (auto simp: normal_end_def handle_data_def handle_event_def message_start_def malformed_def
          intro!: closed_by_return)
  next
    case 4
    with event assms(1) show ?thesis
      by (auto simp: normal_end_def handle_data_def handle_event_def message_delta_def malformed_def
          intro!: closed_by_return)
  qed
qed

text \<open>The chunks that end a stream, by the first payload that ends it and the scanner's error.\<close>

definition stream_ending :: "anthropic_env \<Rightarrow> string list \<times> go_error option \<Rightarrow> StreamChunk list \<Rightarrow> bool" where
  "stream_ending env scanned tail \<longleftrightarrow>
     (case find (ends_stream env) (fst scanned) of
        Some data \<Rightarrow> map scType tail = [if normal_end env data then ChunkFinish else ChunkError]
      | None \<Rightarrow>
          (case snd scanned of
             None \<Rightarrow> map scType tail = [ChunkFinish]
           | Some e \<Rightarrow> \<exists>f. tail = [err_chunk (ErrWrap (''reading stream: '' @ error_text e) e), f] \<and>
               scType f = ChunkFinish \<and> scFinishReason f = FinishError))"

lemma loop_ending:
  "open_sink (emOut s) \<Longrightarrow>
     \<exists>cs tail. skSent (emOut (snd (chunk_loop env (ds, err) s))) = skSent (emOut s) @ cs @ tail \<and>
       list_all inner_chunk cs \<and> stream_ending env (ds, err) tail"
proof (induction ds arbitrary: s)
  case Nil
  show ?case
  proof (cases err)
    case None
    have "chunk_loop env ([], err) s = and_then (flushAllPending env s) (\<lambda>s. finish_with env (asStopReason s) s)"
      using None flowing_flush(2) [OF Nil, of env] by (simp add: stream_end_def and_then_def flowing_def split: prod.split)
    with closed_by_finish [OF Nil, of env asStopReason] obtain cs c where
      "skSent (emOut (snd (chunk_loop env ([], err) s))) = skSent (emOut s) @ cs @ [c]" "list_all inner_chunk cs"
      "scType c = ChunkFinish"
      unfolding closed_by_def by metis
    with None show ?thesis by (intro exI [of _ cs] exI [of _ "[c]"]) (simp add: stream_ending_def)
  next
    case (Some e)
    let ?err = "err_chunk (ErrWrap (''reading stream: '' @ error_text e) e)"
    let ?t = "s\<lparr>emOut := (emOut s)\<lparr>skTried := Suc (skTried (emOut s)), skSent := skSent (emOut s) @ [?err]\<rparr>\<rparr>"
    have "skSent (emOut (snd (chunk_loop env ([], err) s))) =
        skSent (emOut s) @ [] @ [?err, finish_chunk_of env FinishError ?t]"
      using Some Nil by (simp add: stream_end_def emit_open and_then_def finish_with_def emit_return_def)
    moreover have "stream_ending env ([], err) [?err, finish_chunk_of env FinishError ?t]"
      using Some by (simp add: stream_ending_def finish_chunk_of_def Let_def)
    ultimately show ?thesis by (intro exI [of _ "[]"] exI [of _ "[?err, finish_chunk_of env FinishError ?t]"]) simp
  qed
next
  case (Cons d ds)
  show ?case
  proof (cases "ends_stream env d")
    case True
    from payload_ends [OF Cons.prems this] obtain cs c where
      "\<not> fst (handle_data env d s)" "skSent (emOut (snd (handle_data env d s))) = skSent (emOut s) @ cs @ [c]"
      "list_all inner_chunk cs" "scType c = (if normal_end env d then ChunkFinish else ChunkError)"
      unfolding closed_by_def by blast
    with True show ?thesis
      by (intro exI [of _ cs] exI [of _ "[c]"]) (simp add: stream_ending_def and_then_def split: prod.split)
  next
    case False
    obtain b t where hd: "handle_data env d s = (b, t)" by fastforce
    with payload_goes_on [OF Cons.prems False] have t: "b" "open_sink (emOut t)" by (simp_all add: flowing_def)
    with hd Cons.prems sends_data [of env d] obtain cs where
      cs: "skSent (emOut t) = skSent (emOut s) @ cs" "list_all inner_chunk cs"
      unfolding sends_def advances_def good_chunks_def by (metis fst_conv snd_conv)
    from Cons.IH [OF t(2)] obtain cs' tail where
      "skSent (emOut (snd (chunk_loop env (ds, err) t))) = skSent (emOut t) @ cs' @ tail"
      "list_all inner_chunk cs'" "stream_ending env (ds, err) tail" by blast
    moreover from this have "stream_ending env (d # ds, err) tail"
      using False unfolding stream_ending_def by (cases "find (ends_stream env) ds") simp_all
    ultimately show ?thesis
      using hd t(1) cs by (intro exI [of _ "cs @ cs'"] exI [of _ tail]) (simp add: and_then_def)
  qed
qed

text \<open>
  C18: every Anthropic stream ends in one of four ways, and which one is settled by what was read: while
  the receiver listens, the chunks are inner ones (no final and no error chunk) followed by exactly
  \<^item> a final chunk, if the first payload that ends the stream is a \<open>message_stop\<close>;
  \<^item> an error chunk, if it is an \<open>error\<close> or has malformed \<open>input_transformations\<close>;
  \<^item> a final chunk, if no payload ends the stream and the body was read to its end;
  \<^item> an error chunk with the read error and a final chunk with the reason \<open>FinishError\<close>, if no payload
    ends the stream and the body failed to be read.
\<close>

theorem parseSSE_ends:
  assumes "open_sink out"
  shows "\<exists>cs tail. skSent (parseSSE env body out) = skSent out @ cs @ tail \<and> list_all inner_chunk cs \<and>
    stream_ending env (scan_payloads (NewScanner body)) tail"
  using loop_ending [of "anthropic_start out" env "fst (scan_payloads (NewScanner body))"
      "snd (scan_payloads (NewScanner body))"] assms
  by (simp add: parseSSE_def anthropic_start_def)

lemma scan_empty: "scan_payloads (NewScanner []) = ([], None)"
  using scan_encoded_end [of "[]" "[]"] by (simp add: steady_def encode_events_def unlines_def)

theorem parseSSE_ends_witness:
  "\<exists>cs f. skSent (parseSSE \<lparr>aeJson = (\<lambda>_. None), aeError = (\<lambda>_. None), aeOrder = (\<lambda>xs. xs), aeRFMode = False\<rparr> [] new_sink) = cs @ [f] \<and>
     scType f = ChunkFinish"
  using parseSSE_ends [OF open_new_sink, of "\<lparr>aeJson = (\<lambda>_. None), aeError = (\<lambda>_. None), aeOrder = (\<lambda>xs. xs), aeRFMode = False\<rparr>" "[]"]
  by (auto simp: scan_empty stream_ending_def new_sink_def)

section \<open>Exceptions of the Bedrock stream\<close>

lemma chunk_loop_skip:
  assumes "handle_data env d = go_on"
  shows "chunk_loop env (ds @ [d], err) s = chunk_loop env (ds, err) s"
proof (induction ds arbitrary: s)
  case Nil
  show ?case using assms by (simp add: and_then_def go_on_def)
next
  case (Cons a ds)
  then have "chunk_loop env (ds @ [d], err) = chunk_loop env (ds, err)" by blast
  then show ?case by simp
qed

definition untyped :: "anthropic_env \<Rightarrow> string \<Rightarrow> bool" where
  "untyped env d \<longleftrightarrow> (case aeJson env d of None \<Rightarrow> True | Some event \<Rightarrow> get_str event ''type'' = None)"

lemma untyped_skipped: "untyped env d \<Longrightarrow> handle_data env d = go_on"
proof (cases "aeJson env d")
  case (Some event)
  assume "untyped env d"
  with Some have "str_of event ''type'' = []" by (simp add: untyped_def str_of_def)
  with Some show ?thesis by (simp add: handle_data_def handle_event_def)
qed (simp add: handle_data_def)

text \<open>
  C20: an exception in the middle of a Bedrock stream is lost: its payload has no member \<open>type\<close>, and the
  scanner's \<open>Next\<close> does not report the event type \<open>error\<close> the bridge gave it, so that the chunks are those of
  a stream that ended cleanly in front of the exception.
\<close>

theorem bedrock_exception_lost:
  assumes "data_of src = event_frames fs" "final_of src = ErrEOF"
    "data_of src' = event_frames (fs @ [(hs, p)])" "final_of src' = ErrEOF"
    "list_all (\<lambda>(hs, p). frame_ok hs p) (fs @ [(hs, p)])" "MessageType (frame_of hs p) = ''exception''" "untyped env p"
    "es = concat (map (frame_events unm) (map (\<lambda>(hs, p). frame_of hs p) fs))"
    "list_all event_ok (es @ [(''error'', [p])])" "list_all (\<lambda>n. 0 < n) sizes"
    "length (encode_events (es @ [(''error'', [p])])) < length sizes"
  shows "parseSSE env (read_all unm sizes (newEventStreamSSEReader src')) out =
    parseSSE env (read_all unm sizes (newEventStreamSSEReader src)) out"
proof -
  have pay: "Payload (frame_of hs p) = p"
  proof -
    have "Payload (foldl apply_header f hs) = Payload f" for f
      by (induction hs arbitrary: f) (auto simp: apply_header_def set_header_def split: prod.splits)
    then show ?thesis by (simp add: frame_of_def)
  qed
  have es': "es @ [(''error'', [p])] = concat (map (frame_events unm) (map (\<lambda>(hs, p). frame_of hs p) (fs @ [(hs, p)])))"
    using assms(6,8) by (simp add: frame_events_def pay)
  have short: "length (encode_events es) < length sizes" using assms(11) by (simp add: encode_events_append)
  let ?done = "\<lambda>p. p \<noteq> ''[DONE]''"
  have "scan_payloads (NewScanner (read_all unm sizes (newEventStreamSSEReader src))) =
      (takeWhile ?done (concat (map snd es)), None)"
    using bridge_bytes [OF assms(1) _ assms(8,10) short] assms(2,5,9) by (intro scan_encoded_end) auto
  moreover have "scan_payloads (NewScanner (read_all unm sizes (newEventStreamSSEReader src'))) =
      (takeWhile ?done (concat (map snd (es @ [(''error'', [p])]))), None)"
    using bridge_bytes [OF assms(3,5) es' assms(10,11)] assms(4,9) by (intro scan_encoded_end) auto
  moreover have "chunk_loop env (takeWhile ?done (concat (map snd (es @ [(''error'', [p])]))), None) s =
      chunk_loop env (takeWhile ?done (concat (map snd es)), None) s" for s
  proof (cases "''[DONE]'' \<in> set (concat (map snd es))")
    case True
    then show ?thesis by (simp add: takeWhile_append1)
  next
    case False
    then have whole: "takeWhile ?done (concat (map snd es)) = concat (map snd es)"
      using takeWhile_eq_all_conv [of ?done "concat (map snd es)"] by blast
    have more: "takeWhile ?done (concat (map snd (es @ [(''error'', [p])]))) = concat (map snd es) @ takeWhile ?done [p]"
      using False by (subst map_append, subst concat_append, subst takeWhile_append2) auto
    show ?thesis
      unfolding more whole using chunk_loop_skip [OF untyped_skipped [OF assms(7)]] by simp
  qed
  ultimately show ?thesis by (simp add: parseSSE_def)
qed

theorem bedrock_exception_lost_witness:
  "let env = \<lparr>aeJson = (\<lambda>_. Some []), aeError = (\<lambda>_. None), aeOrder = id, aeRFMode = False\<rparr>;
       bridge = (\<lambda>fs. read_all Some (replicate 99 1) (newEventStreamSSEReader [(event_frames fs, None)]))
   in parseSSE env (bridge chunk_frames) new_sink = parseSSE env (bridge [hd chunk_frames]) new_sink"
proof -
  let ?fs = "[([('':message-type'', 7, ''event'')], ''a'')]" let ?hs = "[('':message-type'', 7, ''exception'')]"
  let ?env = "\<lparr>aeJson = (\<lambda>_. Some []), aeError = (\<lambda>_. None), aeOrder = id, aeRFMode = False\<rparr>"
  have cf: "chunk_frames = ?fs @ [(?hs, ''b'')]" by (simp add: chunk_frames_def)
  have ty: "MessageType (frame_of ?hs ''b'') = ''exception''" "untyped ?env ''b''"
    by (simp_all add: frame_of_def apply_header_def set_header_def untyped_def)
  have es: "[([], [''a''])] = concat (map (frame_events Some) (map (\<lambda>(hs, p). frame_of hs p) ?fs))"
    by (simp add: frame_events_def frame_of_def apply_header_def set_header_def)
  have ok: "list_all event_ok ([([], [''a''])] @ [(''error'', [''b''])])"
    by (simp add: event_ok_def line_ok_def MaxLineSize_def MaxEventSize_def)
  have len: "length (encode_events ([([], [''a''])] @ [(''error'', [''b''])])) < length (replicate 99 (1::nat))"
    by (simp add: encode_events_def unlines_def event_lines_def)
  show ?thesis
    using bedrock_exception_lost [OF _ _ _ _ chunk_frames_events(1) [unfolded cf] ty es ok _ len,
        of "[(event_frames ?fs, None)]" "[(event_frames (?fs @ [(?hs, ''b'')]), None)]" new_sink]
    by (simp add: cf Let_def list_all_iff)
qed

end
