(* ===== verification/AnthropicMessages.thy ===== *)
theory AnthropicMessages
  imports AnthropicFacts
begin

text \<open>
  Anthropic streams that encode a message: a list of content blocks, each sent as a start, its deltas and a
  stop. The chunks of such a stream, and the message a tool-loop step rebuilds from them.
\<close>

section \<open>Encoded messages\<close>

datatype message_block =
    TextBlock "string list"
  | ThinkingBlock "string list" string
  | ToolBlock string string "string list"

definition start_event :: "nat \<Rightarrow> anymap \<Rightarrow> anymap" where
  "start_event i cb = [(''type'', AStr ''content_block_start''), (''index'', AFloat (show_nat i)), (''content_block'', AMap cb)]"

definition delta_event :: "nat \<Rightarrow> anymap \<Rightarrow> anymap" where
  "delta_event i d = [(''type'', AStr ''content_block_delta''), (''index'', AFloat (show_nat i)), (''delta'', AMap d)]"

definition stop_event :: "nat \<Rightarrow> anymap" where
  "stop_event i = [(''type'', AStr ''content_block_stop''), (''index'', AFloat (show_nat i))]"

definition text_delta :: "nat \<Rightarrow> string \<Rightarrow> anymap" where
  "text_delta i t = delta_event i [(''type'', AStr ''text_delta''), (''text'', AStr t)]"

definition thinking_delta :: "nat \<Rightarrow> string \<Rightarrow> anymap" where
  "thinking_delta i t = delta_event i [(''type'', AStr ''thinking_delta''), (''thinking'', AStr t)]"

definition json_delta :: "nat \<Rightarrow> string \<Rightarrow> anymap" where
  "json_delta i t = delta_event i [(''type'', AStr ''input_json_delta''), (''partial_json'', AStr t)]"

definition signature_delta :: "nat \<Rightarrow> string \<Rightarrow> anymap" where
  "signature_delta i t = delta_event i [(''type'', AStr ''signature_delta''), (''signature'', AStr t)]"

fun block_events :: "nat \<Rightarrow> message_block \<Rightarrow> anymap list" where
  "block_events i (TextBlock ts) = start_event i [(''type'', AStr ''text'')] # map (text_delta i) ts @ [stop_event i]"
| "block_events i (ThinkingBlock ts sig) =
     start_event i [(''type'', AStr ''thinking'')] # map (thinking_delta i) ts @ [signature_delta i sig, stop_event i]"
| "block_events i (ToolBlock tid name ts) =
     start_event i [(''type'', AStr ''tool_use''), (''id'', AStr tid), (''name'', AStr name)] #
       map (json_delta i) ts @ [stop_event i]"

fun block_part :: "message_block \<Rightarrow> Part" where
  "block_part (TextBlock ts) = zero_Part\<lparr>pType := PartText, pText := concat ts\<rparr>"
| "block_part (ThinkingBlock ts sig) = zero_Part\<lparr>pType := PartReasoning, pText := concat ts,
     pProviderOptions := (if sig = [] then [] else [(''signature'', AStr sig)])\<rparr>"
| "block_part (ToolBlock tid name ts) = (tool_part tid name)\<lparr>pToolInput := or_empty_object (concat ts)\<rparr>"

definition json_chunk :: "string \<Rightarrow> string \<Rightarrow> string \<Rightarrow> StreamChunk" where
  "json_chunk tid name t =
     zero_Chunk\<lparr>scType := ChunkToolCallDelta, scToolCallID := tid, scToolName := name, scToolInput := t\<rparr>"

definition nonempty :: "string list \<Rightarrow> string list" where
  "nonempty ts = filter (\<lambda>t. t \<noteq> []) ts"

fun block_chunks :: "nat \<Rightarrow> message_block \<Rightarrow> StreamChunk list" where
  "block_chunks i (TextBlock ts) = map plain_text_chunk (nonempty ts)"
| "block_chunks i (ThinkingBlock ts sig) =
     map (\<lambda>t. reasoning_chunk t [(''blockId'', AStr (show_nat i))]) (nonempty ts) @
     (if sig = [] then [] else [reasoning_chunk [] [(''signature'', AStr sig), (''blockId'', AStr (show_nat i))]])"
| "block_chunks i (ToolBlock tid name ts) =
     tool_start_chunk tid name # map (json_chunk tid name) (nonempty ts) @
     [tool_call_chunk tid name (or_empty_object (concat ts))]"

fun block_ok :: "message_block \<Rightarrow> bool" where
  "block_ok (ToolBlock tid name ts) \<longleftrightarrow> tid \<noteq> []"
| "block_ok _ \<longleftrightarrow> True"

section \<open>Indexes\<close>

lemma show_nat_no: "\<not> is_digit c \<Longrightarrow> c \<notin> set (show_nat n)"
  using show_nat_digits [of n] by (auto simp: list_all_iff)

lemma float_trunc_show [simp]: "float_trunc (show_nat n) = int n"
proof -
  have "\<not> has_prefix (show_nat n) ''-''"
    using show_nat_no [of "CHR ''-''" n] by (auto simp: has_prefix_iff is_digit_def)
  moreover have T: "takeWhile is_digit (show_nat n) = show_nat n"
    using show_nat_digits [of n] by (auto simp: list_all_iff takeWhile_eq_all_conv)
  ultimately show ?thesis unfolding float_trunc_def T by simp
qed

lemma float_integral_show [simp]: "float_integral (show_nat n)"
  using show_nat_no [of "CHR ''.''" n] by (simp add: float_integral_def is_digit_def)

lemma block_id_index: "map_of event ''index'' = Some (AFloat (show_nat i)) \<Longrightarrow> i \<le> 500 \<Longrightarrow> blockIDOf event = show_nat i"
  by (simp add: blockIDOf_def streamEventIndex_def maxStreamedContentBlocks_def show_int_def)

lemma show_nat_block [simp]: "show_nat i \<noteq> ''-1''"
  using show_nat_no [of "CHR ''-''" i] by (auto simp: is_digit_def)

lemma block_ids [simp]:
  "i \<le> 500 \<Longrightarrow> blockIDOf (start_event i cb) = show_nat i" "i \<le> 500 \<Longrightarrow> blockIDOf (delta_event i d) = show_nat i"
  by (rule block_id_index; simp add: start_event_def delta_event_def)+

section \<open>Content of a block\<close>

lemma appendText_twice: "appendText b t (appendText b s c) = appendText b (s @ t) c"
proof (cases "map_of (ocPos c) b")
  case (Some i)
  then show ?thesis
    by (cases "i < length (ocText c)") (simp_all add: appendText_def list_update_beyond)
qed (simp add: appendText_def)

lemma appendText_empty [simp]: "appendText b [] c = c"
  by (auto simp: appendText_def split: option.split)

fun block_content :: "string \<Rightarrow> message_block \<Rightarrow> orderedContent \<Rightarrow> orderedContent" where
  "block_content b (TextBlock ts) c = appendText b (concat ts) (start_block b (zero_Part\<lparr>pType := PartText\<rparr>) c)"
| "block_content b (ThinkingBlock ts sig) c =
     (if sig = [] then (\<lambda>x. x) else setSignature b sig)
       (appendText b (concat ts) (start_block b (zero_Part\<lparr>pType := PartReasoning\<rparr>) c))"
| "block_content b (ToolBlock tid name ts) c =
     setToolInput tid (or_empty_object (concat ts)) (start_block b (tool_part tid name) c)"

definition aligned :: "orderedContent \<Rightarrow> bool" where
  "aligned c \<longleftrightarrow> length (ocText c) = length (ocParts c)"

lemma block_content_part:
  assumes "aligned c" "b \<noteq> ''-1''"
  shows "aligned (block_content b blk c)"
    "map2 finished_part (ocParts (block_content b blk c)) (ocText (block_content b blk c)) =
       map2 finished_part (ocParts c) (ocText c) @ [block_part blk]"
  using assms
  by (cases blk; auto simp: aligned_def start_block_def appendText_def setSignature_def setToolInput_def
      finished_part_def tool_part_def zero_Part_def nth_append list_update_append split: nat.split)+

section \<open>Running the events of a block\<close>

fun run_events :: "anthropic_env \<Rightarrow> (string \<times> anymap) list \<Rightarrow> anthropic_step" where
  "run_events env [] s = (True, s)"
| "run_events env ((d, e) # xs) s = and_then (handle_event env d e s) (run_events env xs)"

lemma run_events_append: "run_events env (xs @ ys) s = and_then (run_events env xs s) (run_events env ys)"
  by (induction xs arbitrary: s) (auto simp: and_then_def)

lemma chunk_loop_run:
  "map (aeJson env) ds = map Some es \<Longrightarrow>
     chunk_loop env (ds, err) s = and_then (run_events env (zip ds es) s) (stream_end env err)"
proof (induction ds arbitrary: es s)
  case (Cons d ds)
  then obtain e es' where "es = e # es'" by (cases es) auto
  with Cons show ?case by (auto simp: handle_data_def and_then_def)
qed (simp add: and_then_def)

lemmas event_gets = start_event_def delta_event_def stop_event_def str_of_def get_str_def get_map_def

lemma handle_start: "handle_event env d (start_event i cb) = content_block_start env (start_event i cb)"
  and handle_delta: "handle_event env d (delta_event i x) = content_block_delta (delta_event i x)"
  and handle_stop: "handle_event env d (stop_event i) = content_block_stop"
  by (simp_all add: handle_event_def event_gets)

lemma get_block [simp]:
  "get_map (start_event i cb) ''content_block'' = Some cb" "get_map (delta_event i x) ''delta'' = Some x"
  by (simp_all add: event_gets)

text \<open>The deltas of a block, all at once.\<close>

lemma nonempty_simps [simp]: "nonempty [] = []" "nonempty (t # ts) = (if t = [] then nonempty ts else t # nonempty ts)"
  by (simp_all add: nonempty_def)

lemma run_text_deltas:
  assumes "i \<le> 500" "open_sink (emOut s)" "length ds = length ts"
  shows "run_events env (zip ds (map (text_delta i) ts)) s =
    (True, s\<lparr>asContent := appendText (show_nat i) (concat ts) (asContent s),
             emOut := push (map plain_text_chunk (nonempty ts)) (emOut s)\<rparr>)"
  using assms(2,3)
proof (induction ts arbitrary: ds s)
  case (Cons t ts)
  obtain d ds' where ds: "ds = d # ds'" "length ds' = length ts" using Cons.prems(2) by (cases ds) auto
  have "handle_event env d (text_delta i t) s = (True, if t = [] then s else
      s\<lparr>asContent := appendText (show_nat i) t (asContent s), emOut := push [plain_text_chunk t] (emOut s)\<rparr>)"
    using assms(1) Cons.prems(1)
    by (simp add: text_delta_def handle_delta content_block_delta_def Let_def emit_push str_of_def get_str_def)
  then show ?case
    using ds Cons.IH [OF _ ds(2), of s] Cons.prems(1)
      Cons.IH [OF _ ds(2), of "s\<lparr>asContent := appendText (show_nat i) t (asContent s), emOut := push [plain_text_chunk t] (emOut s)\<rparr>"]
    by (auto simp: and_then_def appendText_twice)
qed simp

lemma run_thinking_deltas:
  assumes "i \<le> 500" "open_sink (emOut s)" "length ds = length ts"
  shows "run_events env (zip ds (map (thinking_delta i) ts)) s =
    (True, s\<lparr>asContent := appendText (show_nat i) (concat ts) (asContent s),
             emOut := push (map (\<lambda>t. reasoning_chunk t [(''blockId'', AStr (show_nat i))]) (nonempty ts)) (emOut s)\<rparr>)"
  using assms(2,3)
proof (induction ts arbitrary: ds s)
  case (Cons t ts)
  obtain d ds' where ds: "ds = d # ds'" "length ds' = length ts" using Cons.prems(2) by (cases ds) auto
  let ?c = "reasoning_chunk t [(''blockId'', AStr (show_nat i))]"
  have "handle_event env d (thinking_delta i t) s = (True, if t = [] then s else
      s\<lparr>asContent := appendText (show_nat i) t (asContent s), emOut := push [?c] (emOut s)\<rparr>)"
    using assms(1) Cons.prems(1)
    by (simp add: thinking_delta_def handle_delta content_block_delta_def Let_def emit_push str_of_def get_str_def)
  then show ?case
    using ds Cons.IH [OF _ ds(2), of s] Cons.prems(1)
      Cons.IH [OF _ ds(2), of "s\<lparr>asContent := appendText (show_nat i) t (asContent s), emOut := push [?c] (emOut s)\<rparr>"]
    by (auto simp: and_then_def appendText_twice)
qed simp

lemma run_json_deltas:
  assumes "open_sink (emOut s)" "length ds = length ts" "\<not> asRFBlock s" "\<not> asServerTool s"
  shows "\<exists>b. run_events env (zip ds (map (json_delta i) ts)) s =
    (True, s\<lparr>asFirstDelta := b, asToolArgs := asToolArgs s @ concat ts,
             emOut := push (map (json_chunk (asToolID s) (asToolName s)) (nonempty ts)) (emOut s)\<rparr>)"
  using assms
proof (induction ts arbitrary: ds s)
  case Nil
  then show ?case by (auto intro: exI [of _ "asFirstDelta s"])
next
  case (Cons t ts)
  obtain d ds' where ds: "ds = d # ds'" "length ds' = length ts" using Cons.prems(2) by (cases ds) auto
  define s1 where "s1 = (if t = [] then s else s\<lparr>asFirstDelta := False, asToolArgs := asToolArgs s @ t,
      emOut := push [json_chunk (asToolID s) (asToolName s) t] (emOut s)\<rparr>)"
  have step: "handle_event env d (json_delta i t) s = (True, s1)"
    using Cons.prems
    by (simp add: s1_def json_delta_def handle_delta content_block_delta_def input_json_delta_def Let_def emit_push
        str_of_def get_str_def json_chunk_def)
  have keep: "open_sink (emOut s1)" "\<not> asRFBlock s1" "\<not> asServerTool s1" "asToolID s1 = asToolID s" "asToolName s1 = asToolName s"
    using Cons.prems by (simp_all add: s1_def)
  from Cons.IH [OF keep(1) ds(2) keep(2,3)] obtain b where "run_events env (zip ds' (map (json_delta i) ts)) s1 =
    (True, s1\<lparr>asFirstDelta := b, asToolArgs := asToolArgs s1 @ concat ts,
             emOut := push (map (json_chunk (asToolID s1) (asToolName s1)) (nonempty ts)) (emOut s1)\<rparr>)" by blast
  then show ?case using ds step keep by (intro exI [of _ b]) (simp add: and_then_def s1_def)
qed

section \<open>Running a block and a message\<close>

text \<open>Between two blocks the local variables of the tool call in progress are empty.\<close>

definition idle :: "anthropic_state \<Rightarrow> bool" where
  "idle s \<longleftrightarrow> open_sink (emOut s) \<and> asToolID s = [] \<and> asToolName s = [] \<and> asToolArgs s = [] \<and> \<not> asRFBlock s \<and>
     \<not> asServerTool s \<and> \<not> asResultBlock s \<and> asPending s = []"

lemma idle_block_stop: "idle s \<Longrightarrow> content_block_stop s = (True, s)"
  by (simp add: idle_def content_block_stop_def stop_switch_def reset_tool_def and_then_def)

lemma split_events:
  assumes "length ds = Suc (length es + n)"
  obtains d ds1 ds2 where "ds = d # ds1 @ ds2" "length ds1 = length es" "length ds2 = n"
proof -
  obtain d t where "ds = d # t" using assms by (cases ds) auto
  moreover have "t = take (length es) t @ drop (length es) t" by simp
  ultimately show ?thesis using assms that [of d "take (length es) t" "drop (length es) t"] by simp
qed

lemma run_block:
  assumes "i \<le> 500" "idle s" "block_ok blk" "\<not> aeRFMode env" "length ds = length (block_events i blk)"
  shows "\<exists>b. run_events env (zip ds (block_events i blk)) s =
    (True, s\<lparr>asFirstDelta := b, asContent := block_content (show_nat i) blk (asContent s),
             emOut := push (block_chunks i blk) (emOut s)\<rparr>)"
proof (cases blk)
  case (TextBlock ts)
  obtain d ds1 ds2 where ds: "ds = d # ds1 @ ds2" "length ds1 = length (map (text_delta i) ts)" "length ds2 = 1"
    using split_events [of ds "map (text_delta i) ts" 1] assms(5) TextBlock by auto
  then obtain d2 where d2: "ds2 = [d2]" by (cases ds2) auto
  let ?c = "start_block (show_nat i) (zero_Part\<lparr>pType := PartText\<rparr>) (asContent s)"
  have "handle_event env d (start_event i [(''type'', AStr ''text'')]) s = (True, s\<lparr>asContent := ?c\<rparr>)"
    using assms(1,2) by (simp add: handle_start content_block_start_def Let_def str_of_def get_str_def idle_def
        and_then_def track_def zero_Part_def)
  moreover have "idle (s\<lparr>asContent := c, emOut := push cs (emOut s)\<rparr>)" for c cs using assms(2) by (simp add: idle_def)
  ultimately show ?thesis
    using ds d2 TextBlock assms(1,2) run_text_deltas [of i "s\<lparr>asContent := ?c\<rparr>" ds1 ts env]
    by (intro exI [of _ "asFirstDelta s"]) (simp add: run_events_append and_then_def handle_stop idle_block_stop idle_def [of s])
next
  case (ThinkingBlock ts sig)
  obtain d ds1 ds2 where ds: "ds = d # ds1 @ ds2" "length ds1 = length (map (thinking_delta i) ts)" "length ds2 = 2"
    using split_events [of ds "map (thinking_delta i) ts" 2] assms(5) ThinkingBlock by auto
  then obtain d2 d3 where d2: "ds2 = [d2, d3]" by (cases ds2; cases "tl ds2") auto
  let ?c = "start_block (show_nat i) (zero_Part\<lparr>pType := PartReasoning\<rparr>) (asContent s)"
  have start: "handle_event env d (start_event i [(''type'', AStr ''thinking'')]) s = (True, s\<lparr>asContent := ?c\<rparr>)"
    using assms(1,2) by (simp add: handle_start content_block_start_def block_thinking_def Let_def str_of_def get_str_def idle_def
        and_then_def track_def zero_Part_def isServerToolResultBlock_def server_result_types_def)
  have sig: "handle_event env d2 (signature_delta i sig) t = (True, if sig = [] then t else
      t\<lparr>asContent := setSignature (show_nat i) sig (asContent t),
        emOut := push [reasoning_chunk [] [(''signature'', AStr sig), (''blockId'', AStr (show_nat i))]] (emOut t)\<rparr>)"
    if "open_sink (emOut t)" for t
    using assms(1) that by (simp add: signature_delta_def handle_delta content_block_delta_def Let_def emit_push str_of_def get_str_def)
  have "idle (s\<lparr>asContent := c, emOut := push cs (emOut s)\<rparr>)" for c cs using assms(2) by (simp add: idle_def)
  with start sig show ?thesis
    using ds d2 ThinkingBlock assms(1,2) run_thinking_deltas [of i "s\<lparr>asContent := ?c\<rparr>" ds1 ts env]
    by (intro exI [of _ "asFirstDelta s"]) (simp add: run_events_append and_then_def handle_stop idle_block_stop idle_def [of s])
next
  case (ToolBlock tid name ts)
  obtain d ds1 ds2 where ds: "ds = d # ds1 @ ds2" "length ds1 = length ts" "length ds2 = 1"
    using split_events [of ds "map (json_delta i) ts" 1] assms(5) ToolBlock by auto
  then obtain d2 where d2: "ds2 = [d2]" by (cases ds2) auto
  let ?cb = "[(''type'', AStr ''tool_use''), (''id'', AStr tid), (''name'', AStr name)]"
  let ?c = "start_block (show_nat i) (tool_part tid name) (asContent s)"
  define s1 where "s1 = s\<lparr>asToolID := tid, asToolName := name, asFirstDelta := True, asContent := ?c,
      emOut := push [tool_start_chunk tid name] (emOut s)\<rparr>"
  have start: "handle_event env d (start_event i ?cb) s = (True, s1)"
    using assms(1,2,4) by (simp add: handle_start content_block_start_def block_tool_use_def Let_def str_of_def get_str_def idle_def
        and_then_def track_def emit_push s1_def)
  have keep: "open_sink (emOut s1)" "\<not> asRFBlock s1" "\<not> asServerTool s1" using assms(2) by (simp_all add: s1_def idle_def)
  obtain b where b: "run_events env (zip ds1 (map (json_delta i) ts)) s1 =
    (True, s1\<lparr>asFirstDelta := b, asToolArgs := asToolArgs s1 @ concat ts,
             emOut := push (map (json_chunk (asToolID s1) (asToolName s1)) (nonempty ts)) (emOut s1)\<rparr>)"
    using run_json_deltas [OF keep(1) ds(2) keep(2,3)] by blast
  show ?thesis
    using ds d2 ToolBlock start b assms(2,3)
    by (intro exI [of _ b]) (simp add: run_events_append and_then_def handle_stop content_block_stop_def stop_switch_def
        reset_tool_def idle_def s1_def Let_def emit_push)
qed

definition blocks_events :: "nat \<Rightarrow> message_block list \<Rightarrow> anymap list" where
  "blocks_events k blks = concat (map (\<lambda>(i, b). block_events i b) (List.enumerate k blks))"

definition blocks_chunks :: "nat \<Rightarrow> message_block list \<Rightarrow> StreamChunk list" where
  "blocks_chunks k blks = concat (map (\<lambda>(i, b). block_chunks i b) (List.enumerate k blks))"

lemma blocks_simps [simp]:
  "blocks_events k [] = []" "blocks_chunks k [] = []"
  "blocks_events k (b # bs) = block_events k b @ blocks_events (Suc k) bs"
  "blocks_chunks k (b # bs) = block_chunks k b @ blocks_chunks (Suc k) bs"
  by (simp_all add: blocks_events_def blocks_chunks_def)

definition content_parts :: "orderedContent \<Rightarrow> Part list" where
  "content_parts c = map2 finished_part (ocParts c) (ocText c)"

lemma run_blocks:
  assumes "idle s" "aligned (asContent s)" "k + length blks \<le> 501" "list_all block_ok blks" "\<not> aeRFMode env"
    "length ds = length (blocks_events k blks)"
  shows "\<exists>s'. run_events env (zip ds (blocks_events k blks)) s = (True, s') \<and> idle s' \<and> aligned (asContent s') \<and>
    content_parts (asContent s') = content_parts (asContent s) @ map block_part blks \<and>
    emOut s' = push (blocks_chunks k blks) (emOut s) \<and> asUsage s' = asUsage s \<and> asResponse s' = asResponse s \<and>
    asFinishMeta s' = asFinishMeta s"
  using assms
proof (induction blks arbitrary: s k ds)
  case (Cons blk blks)
  let ?n = "length (block_events k blk)"
  define ds1 ds2 where "ds1 = take ?n ds" and "ds2 = drop ?n ds"
  then have ds: "ds = ds1 @ ds2" "length ds1 = ?n" "length ds2 = length (blocks_events (Suc k) blks)"
    using Cons.prems(6) by simp_all
  obtain b where b: "run_events env (zip ds1 (block_events k blk)) s =
    (True, s\<lparr>asFirstDelta := b, asContent := block_content (show_nat k) blk (asContent s),
             emOut := push (block_chunks k blk) (emOut s)\<rparr>)" (is "_ = (True, ?s1)")
    using run_block [of k s blk env ds1] Cons.prems ds(2) by auto
  have s1: "idle ?s1" "aligned (asContent ?s1)" "content_parts (asContent ?s1) = content_parts (asContent s) @ [block_part blk]"
    using Cons.prems(1) block_content_part [OF Cons.prems(2) show_nat_block, of k blk] by (simp_all add: idle_def content_parts_def)
  from Cons.IH [OF s1(1,2) _ _ Cons.prems(5) ds(3)] Cons.prems(3,4) s1(3) show ?case
    using ds(1,2) b by (auto simp: run_events_append and_then_def)
qed simp

text \<open>A whole message: its envelope, its blocks, the stop reason with the usage, and the end.\<close>

definition message_start_event :: "string \<Rightarrow> string \<Rightarrow> nat \<Rightarrow> anymap" where
  "message_start_event mid model n = [(''type'', AStr ''message_start''),
     (''message'', AMap [(''id'', AStr mid), (''model'', AStr model), (''usage'', AMap [(''input_tokens'', AFloat (show_nat n))])])]"

definition message_delta_event :: "string \<Rightarrow> nat \<Rightarrow> anymap" where
  "message_delta_event reason n = [(''type'', AStr ''message_delta''),
     (''delta'', AMap [(''stop_reason'', AStr reason)]), (''usage'', AMap [(''output_tokens'', AFloat (show_nat n))])]"

definition message_stop_event :: anymap where
  "message_stop_event = [(''type'', AStr ''message_stop'')]"

definition message_events :: "string \<Rightarrow> string \<Rightarrow> nat \<Rightarrow> message_block list \<Rightarrow> string \<Rightarrow> nat \<Rightarrow> anymap list" where
  "message_events mid model ins blks reason outs =
     message_start_event mid model ins # blocks_events 0 blks @ [message_delta_event reason outs, message_stop_event]"

definition message_finish :: "string \<Rightarrow> string \<Rightarrow> nat \<Rightarrow> message_block list \<Rightarrow> string \<Rightarrow> nat \<Rightarrow> StreamChunk" where
  "message_finish mid model ins blks reason outs =
     zero_Chunk\<lparr>scType := ChunkFinish, scFinishReason := mapFinishReason reason,
       scUsage := zero_Usage\<lparr>InputTokens := of_nat ins, OutputTokens := of_nat outs, TotalTokens := of_nat ins + of_nat outs\<rparr>,
       scResponse := zero_Response\<lparr>rID := mid, rModel := model\<rparr>,
       scContent := (if blks = [] then None else Some (map block_part blks))\<rparr>"

lemma flush_none [simp]: "asPending s = [] \<Longrightarrow> flushAllPending env s = (True, s)"
proof -
  assume "asPending s = []"
  then have "flush_ids ids s = (True, s)" for ids
    by (induction ids) (simp_all add: flushPendingCall_def and_then_def)
  then show ?thesis by (simp add: flushAllPending_def)
qed

lemma finish_content_parts:
  assumes "aligned c" "content_parts c = ps"
  shows "finish_content c = (if ps = [] then None else Some ps)"
proof -
  have "length ps = length (ocParts c)" using assms by (simp add: content_parts_def aligned_def flip: assms(2))
  then have "ocParts c = [] \<longleftrightarrow> ps = []" by auto
  with assms(2) show ?thesis by (simp add: finish_content_def content_parts_def)
qed

lemma message_start_run:
  "handle_event env d (message_start_event mid model ins) s =
     (True, s\<lparr>asResponse := (asResponse s)\<lparr>rID := mid, rModel := model\<rparr>, asUsage := (asUsage s)\<lparr>InputTokens := of_nat ins\<rparr>\<rparr>)"
  by (simp add: handle_event_def message_start_event_def message_start_def inputTransformations_def Let_def str_of_def
      get_str_def get_map_def with_count_def token_count_def get_float_def)

lemma message_delta_run:
  assumes "open_sink (emOut s)" "asPending s = []" "\<not> aeRFMode env"
  shows "handle_event env d (message_delta_event reason outs) s =
    (True, s\<lparr>asStopReason := mapFinishReason reason, emOut := push [step_finish_chunk (mapFinishReason reason)] (emOut s),
             asUsage := (asUsage s)\<lparr>OutputTokens := of_nat outs\<rparr>\<rparr>)"
  using assms
  by (simp add: handle_event_def message_delta_event_def message_delta_def delta_stop_reason_def stop_reason_of_def delta_usage_def
      meta_from_def inputTransformations_def Let_def str_of_def get_str_def get_map_def get_list_def with_count_def
      token_count_def get_float_def and_then_def emit_push)

lemma message_stop_run:
  assumes "open_sink (emOut s)" "asPending s = []"
  shows "handle_event env d message_stop_event s =
    (False, s\<lparr>emOut := push [finish_chunk_of env (asStopReason s) s] (emOut s)\<rparr>)"
  using assms by (simp add: handle_event_def message_stop_event_def Let_def str_of_def get_str_def and_then_def
      finish_with_def emit_return_def emit_push)

lemma message_run:
  assumes "open_sink out" "length ds = length (message_events mid model ins blks reason outs)"
    "length blks \<le> 501" "list_all block_ok blks" "\<not> aeRFMode env"
  shows "\<exists>s'. run_events env (zip ds (message_events mid model ins blks reason outs)) (anthropic_start out) = (False, s') \<and>
    emOut s' = push (blocks_chunks 0 blks @ [step_finish_chunk (mapFinishReason reason), message_finish mid model ins blks reason outs]) out"
proof -
  let ?s = "(anthropic_start out)\<lparr>asResponse := zero_Response\<lparr>rID := mid, rModel := model\<rparr>,
      asUsage := zero_Usage\<lparr>InputTokens := of_nat ins\<rparr>\<rparr>"
  obtain d ds1 ds2 where ds: "ds = d # ds1 @ ds2" "length ds1 = length (blocks_events 0 blks)" "length ds2 = 2"
    using split_events [of ds "blocks_events 0 blks" 2] assms(2) by (auto simp: message_events_def)
  then obtain d2 d3 where d2: "ds2 = [d2, d3]" by (cases ds2; cases "tl ds2") auto
  have "idle ?s" "aligned (asContent ?s)" "content_parts (asContent ?s) = []"
    using assms(1) by (simp_all add: idle_def anthropic_start_def aligned_def no_content_def content_parts_def)
  with run_blocks [of ?s 0 blks env ds1] assms(3-5) ds(2)
  obtain s' where s': "run_events env (zip ds1 (blocks_events 0 blks)) ?s = (True, s')" "idle s'" "aligned (asContent s')"
    "content_parts (asContent s') = map block_part blks" "emOut s' = push (blocks_chunks 0 blks) out"
    "asUsage s' = zero_Usage\<lparr>InputTokens := of_nat ins\<rparr>" "asResponse s' = zero_Response\<lparr>rID := mid, rModel := model\<rparr>"
    "asFinishMeta s' = None"
    by (auto simp: anthropic_start_def)
  have fin: "finish_content (asContent s') = (if blks = [] then None else Some (map block_part blks))"
    using finish_content_parts [OF s'(3,4)] by simp
  have "finish_chunk_of env (mapFinishReason reason)
      (s'\<lparr>asStopReason := mapFinishReason reason, emOut := o', asUsage := (asUsage s')\<lparr>OutputTokens := of_nat outs\<rparr>\<rparr>) =
      message_finish mid model ins blks reason outs" for o'
    using s'(6-8) assms(5) by (simp add: finish_chunk_of_def message_finish_def fin Let_def zero_Chunk_def)
  then show ?thesis
    using ds d2 s' assms(5) message_delta_run [of s' env d2 reason outs]
    by (simp add: message_events_def run_events_append message_start_run and_then_def message_stop_run idle_def
        anthropic_start_def)
qed

section \<open>What a step rebuilds\<close>

fun block_text :: "message_block \<Rightarrow> string" where
  "block_text (TextBlock ts) = concat ts"
| "block_text _ = []"

fun block_call :: "message_block \<Rightarrow> ToolCall list" where
  "block_call (ToolBlock tid name ts) =
     [\<lparr>tcID = tid, tcName = name, tcInput = or_empty_object (concat ts), tcMetadata = []\<rparr>]"
| "block_call _ = []"

lemma concat_nonempty: "concat (nonempty ts) = concat ts"
  by (induction ts) auto

lemma scType_chunks [simp]:
  "scType (plain_text_chunk t) = ChunkText" "scType (reasoning_chunk t m) = ChunkReasoning"
  "scType (tool_start_chunk a b) = ChunkToolCallStreamStart" "scType (json_chunk a b t) = ChunkToolCallDelta"
  "scType (tool_call_chunk a b t) = ChunkToolCall" "scType (step_finish_chunk r) = ChunkStepFinish"
  "scType (message_finish mid model ins blks reason outs) = ChunkFinish" "scText (plain_text_chunk t) = t"
  by (simp_all add: plain_text_chunk_def reasoning_chunk_def tool_start_chunk_def json_chunk_def tool_call_chunk_def
      step_finish_chunk_def message_finish_def)

lemma of_type_map: "of_type t (map f xs) = (if \<forall>x \<in> set xs. scType (f x) = t then map f xs else of_type t (map f xs))"
  by (auto simp: of_type_def filter_id_conv)

lemma of_type_same [simp]: "(\<And>x. scType (f x) = t) \<Longrightarrow> of_type t (map f xs) = map f xs"
  by (simp add: of_type_def filter_id_conv)

lemma of_type_other [simp]: "(\<And>x. scType (f x) = u) \<Longrightarrow> u \<noteq> t \<Longrightarrow> of_type t (map f xs) = []"
  by (simp add: of_type_def filter_empty_conv)

lemma block_chunks_text: "concat (map scText (of_type ChunkText (block_chunks i b))) = block_text b"
  by (cases b) (simp_all add: o_def concat_nonempty)

lemma block_chunks_calls: "map chunk_tool_call (of_type ChunkToolCall (block_chunks i b)) = block_call b"
  by (cases b) (simp_all add: chunk_tool_call_def tool_call_chunk_def zero_Chunk_def)

lemma block_chunks_quiet: "filter finishing (block_chunks i b) = []" "of_type ChunkFinish (block_chunks i b) = []"
  by (cases b; auto simp: finishing_def of_type_def filter_empty_conv)+

lemma blocks_chunks_view:
  "concat (map scText (of_type ChunkText (blocks_chunks k blks))) = concat (map block_text blks)"
  "map chunk_tool_call (of_type ChunkToolCall (blocks_chunks k blks)) = concat (map block_call blks)"
  "filter finishing (blocks_chunks k blks) = []" "of_type ChunkFinish (blocks_chunks k blks) = []"
  by (induction blks arbitrary: k) (simp_all add: block_chunks_text block_chunks_calls block_chunks_quiet)

text \<open>
  C2: an Anthropic message survives streaming: for every stream whose events encode a message (any number of
  text, thinking and tool blocks up to the 501 the protocol allows, each in any number of deltas), the step
  that drains the chunks rebuilds its text, its tool calls with their complete arguments, its blocks in order
  with signatures for replay, its stop reason and its usage.
\<close>

theorem anthropic_message_rebuilt:
  assumes "scan_payloads (NewScanner body) = (ds, err)"
    "map (aeJson env) ds = map Some (message_events mid model ins blks reason outs)"
    "length blks \<le> 501" "list_all block_ok blks" "\<not> aeRFMode env"
    "drainStep (skSent (parseSSE env body new_sink)) new_sink = (dr, out)"
  shows "drText dr = concat (map block_text blks) \<and> drToolCalls dr = concat (map block_call blks) \<and>
    drContent dr = (if blks = [] then None else Some (map block_part blks)) \<and> drFinishReason dr = mapFinishReason reason \<and>
    InputTokens (drUsage dr) = of_nat ins \<and> OutputTokens (drUsage dr) = of_nat outs \<and> drErr dr = None \<and>
    skSent out = blocks_chunks 0 blks @ [step_finish_chunk (mapFinishReason reason)]"
proof -
  let ?fin = "message_finish mid model ins blks reason outs"
  let ?cs = "blocks_chunks 0 blks @ [step_finish_chunk (mapFinishReason reason), ?fin]"
  have len: "length ds = length (message_events mid model ins blks reason outs)"
    using assms(2) by (metis length_map)
  from message_run [OF open_new_sink len assms(3-5)] have sent: "skSent (parseSSE env body new_sink) = ?cs"
    by (auto simp: parseSSE_def assms(1) chunk_loop_run [OF assms(2)] and_then_def new_sink_def)
  have dr: "dr = drain_finish (drained ?cs)" and out: "skSent out = filter (\<lambda>c. scType c \<noteq> ChunkFinish) ?cs"
    using assms(6) by (auto simp: sent drainStep_def drain_loop_open drained_def new_sink_def [THEN arg_cong, of skSent])
  have quiet: "of_type ChunkError (blocks_chunks k blks) = []" for k
  proof -
    have "of_type ChunkError (block_chunks i b) = []" for i b
      by (cases b) (auto simp: of_type_def filter_empty_conv)
    then show ?thesis by (induction blks arbitrary: k) simp_all
  qed
  have "filter (\<lambda>c. scType c \<noteq> ChunkFinish) (blocks_chunks 0 blks) = blocks_chunks 0 blks"
    using blocks_chunks_view(4) [of 0 blks] by (simp add: of_type_def filter_empty_conv filter_id_conv)
  then show ?thesis
    using blocks_chunks_view [of 0 blks]
    by (simp add: dr out drained_text drained_calls drained_content drained_finish drained_err quiet finishing_def
        message_finish_def last_or_def zero_Usage_def)
qed

definition sample_blocks :: "message_block list" where
  "sample_blocks = [TextBlock [''a'', ''b''], ToolBlock ''1'' ''f'' [''{'', ''}'']]"

definition sample_payloads :: "string list" where
  "sample_payloads = [''0'', ''1'', ''2'', ''3'', ''4'', ''5'', ''6'', ''7'', ''8'', ''9'', ''10'']"

definition sample_env :: anthropic_env where
  "sample_env = \<lparr>aeJson = map_of (zip sample_payloads (message_events ''m'' ''x'' 3 sample_blocks ''tool_use'' 4)),
     aeError = (\<lambda>_. None), aeOrder = id, aeRFMode = False\<rparr>"

definition sample_body :: reader where
  "sample_body = [(encode_events (map (\<lambda>d. ([], [d])) sample_payloads), None)]"

lemma map_zip: "distinct ds \<Longrightarrow> length ds = length es \<Longrightarrow> map (map_of (zip ds es)) ds = map Some es"
  by (rule nth_equalityI) (simp_all add: map_of_zip_nth)

theorem anthropic_message_rebuilt_witness:
  "let dr = fst (drainStep (skSent (parseSSE sample_env sample_body new_sink)) new_sink)
   in drText dr = ''ab'' \<and> map tcInput (drToolCalls dr) = [''{}''] \<and> drFinishReason dr = FinishToolCalls"
proof -
  have "scan_payloads (NewScanner sample_body) =
      (takeWhile (\<lambda>p. p \<noteq> ''[DONE]'') (concat (map snd (map (\<lambda>d. ([] :: string, [d])) sample_payloads))), None)"
    by (rule scan_encoded_end)
      (simp_all add: sample_body_def steady_def sample_payloads_def event_ok_def line_ok_def MaxLineSize_def MaxEventSize_def
        encode_events_def unlines_def event_lines_def)
  then have "scan_payloads (NewScanner sample_body) = (sample_payloads, None)" by (simp add: sample_payloads_def)
  moreover have "map (aeJson sample_env) sample_payloads = map Some (message_events ''m'' ''x'' 3 sample_blocks ''tool_use'' 4)"
    by (simp only: sample_env_def anthropic_env.simps, rule map_zip)
      (simp_all add: sample_payloads_def message_events_def sample_blocks_def)
  moreover have "length sample_blocks \<le> 501" "list_all block_ok sample_blocks" "\<not> aeRFMode sample_env"
    by (simp_all add: sample_blocks_def sample_env_def)
  ultimately show ?thesis
    using anthropic_message_rebuilt [OF _ _ _ _ _ prod.collapse [symmetric]]
    by (fastforce simp: Let_def sample_blocks_def or_empty_object_def mapFinishReason_def)
qed

end
