(* ===== verification/GeminiSchema.thy ===== *)
theory GeminiSchema
  imports GoValues HttpErrors
begin

text \<open>
  JSON schema sanitising for Gemini (\<open>src/internal/gemini/schema.go\<close>): references are inlined and
  unsupported keywords dropped, then nullable types, enums, required lists and array items are
  rewritten. A schema is a dynamic value; the text \<open>fmt.Sprint\<close> gives floats and composite
  values is a parameter.
\<close>

section \<open>Inlining references\<close>

definition maxRefInlineDepth :: nat where "maxRefInlineDepth = 10"

definition dropped_keywords :: "string list" where
  "dropped_keywords = [''$defs'', ''if'', ''then'', ''else'', ''$schema'', ''$id'', ''$comment'']"

definition generic_object :: any where
  "generic_object = AMap [(''type'', AStr ''object'')]"

definition resolveDefRef :: "string \<Rightarrow> anymap option \<Rightarrow> any option" where
  "resolveDefRef ref defs =
     (case defs of
        None \<Rightarrow> None
      | Some table \<Rightarrow>
          if has_prefix ref ''#/$defs/''
          then (case map_of table (drop 8 ref) of Some ANil \<Rightarrow> None | r \<Rightarrow> r) else None)"

lemma size_map_value: "(k, v) \<in> set m \<Longrightarrow> size (v :: any) < Suc (size_list (size_prod (\<lambda>_. 0) size) m)"
  by (induction m) (auto simp: size_prod_def)

lemma size_list_value: "v \<in> set vs \<Longrightarrow> size (v :: any) < Suc (size_list size vs)"
  by (induction vs) auto

function (sequential) inlineRefsAndStripDrafts :: "anymap option \<Rightarrow> nat \<Rightarrow> any \<Rightarrow> any" where
  "inlineRefsAndStripDrafts defs depth (AMap v) =
     (case get_str v ''$ref'' of
        Some ref \<Rightarrow>
          if maxRefInlineDepth \<le> depth then generic_object
          else (case resolveDefRef ref defs of
                  Some target \<Rightarrow> inlineRefsAndStripDrafts defs (Suc depth) target
                | None \<Rightarrow> generic_object)
      | None \<Rightarrow>
          AMap (map (\<lambda>(k, val). (k, inlineRefsAndStripDrafts defs depth val))
                    (filter (\<lambda>(k, val). k \<notin> set dropped_keywords) v)))"
| "inlineRefsAndStripDrafts defs depth (AList v) = AList (map (inlineRefsAndStripDrafts defs depth) v)"
| "inlineRefsAndStripDrafts defs depth obj = obj"
  by pat_completeness auto

termination
  by (relation "measures [\<lambda>(defs, depth, v). maxRefInlineDepth - depth, \<lambda>(defs, depth, v). size v]")
     (auto dest: size_map_value size_list_value)

section \<open>The compatibility pass\<close>

text \<open>\<open>fmt.Sprint\<close> on the members of an enum.\<close>

definition Sprint :: "(any \<Rightarrow> string) \<Rightarrow> any \<Rightarrow> string" where
  "Sprint other v =
     (case v of
        AStr s \<Rightarrow> s
      | AInt i \<Rightarrow> show_int i
      | ABool b \<Rightarrow> if b then ''true'' else ''false''
      | ANil \<Rightarrow> ''<nil>''
      | _ \<Rightarrow> other v)"

fun strings_of :: "any list \<Rightarrow> string list" where
  "strings_of [] = []"
| "strings_of (AStr s # vs) = s # strings_of vs"
| "strings_of (_ # vs) = strings_of vs"

text \<open>The entries a nullable type array is rewritten to; none when it is left as it is.\<close>

definition single_type :: "string list \<Rightarrow> anymap" where
  "single_type tt =
     (case filter (\<lambda>s. s \<noteq> ''null'') tt of
        [t] \<Rightarrow> (''type'', AStr t) # (if ''null'' \<in> set tt then [(''nullable'', ABool True)] else [])
      | _ \<Rightarrow> [])"

definition normalized_type :: "anymap \<Rightarrow> anymap" where
  "normalized_type m =
     (case map_of m ''type'' of
        Some (AStrList tt) \<Rightarrow> single_type tt
      | Some (AList tt) \<Rightarrow> single_type (strings_of tt)
      | _ \<Rightarrow> [])"

definition enum_to_string_type :: "anymap \<Rightarrow> anymap" where
  "enum_to_string_type m =
     (if has_key m ''enum'' \<and> map_of m ''type'' \<in> {Some (AStr ''integer''), Some (AStr ''number'')}
      then AList.update ''type'' (AStr ''string'') m else m)"

definition filter_required :: "anymap \<Rightarrow> anymap" where
  "filter_required m =
     (if map_of m ''type'' = Some (AStr ''object'')
      then (case get_map m ''properties'' of
              None \<Rightarrow> m
            | Some props \<Rightarrow>
                (case map_of m ''required'' of
                   Some (AList req) \<Rightarrow>
                     AList.update ''required''
                       (AList (filter (\<lambda>r. case r of AStr s \<Rightarrow> has_key props s | _ \<Rightarrow> False) req)) m
                 | Some (AStrList req) \<Rightarrow>
                     AList.update ''required'' (AList (map AStr (filter (has_key props) req))) m
                 | _ \<Rightarrow> m))
      else m)"

definition present_items :: "anymap \<Rightarrow> anymap" where
  "present_items m =
     (if map_of m ''items'' \<in> {None, Some ANil} then AList.update ''items'' (AMap []) m else m)"

definition type_items :: "anymap \<Rightarrow> anymap" where
  "type_items m =
     (if map_of m ''type'' = Some (AStr ''array'')
      then
        (case get_map (present_items m) ''items'' of
           None \<Rightarrow> present_items m
         | Some items \<Rightarrow>
             if has_key items ''type'' then present_items m
             else AList.update ''items'' (AMap (AList.update ''type'' (AStr ''string'') items))
                    (present_items m))
      else m)"

definition only_objects_have_properties :: "anymap \<Rightarrow> anymap" where
  "only_objects_have_properties m =
     (if map_of m ''type'' \<notin> {None, Some (AStr ''object'')}
      then AList.delete ''properties'' (AList.delete ''required'' m) else m)"

definition const_to_enum :: "(any \<Rightarrow> string) \<Rightarrow> anymap \<Rightarrow> anymap" where
  "const_to_enum other m =
     (case map_of m ''const'' of
        None \<Rightarrow> m
      | Some v \<Rightarrow>
          let m1 = AList.delete ''const'' m in
          if has_key m1 ''enum'' then m1
          else
            let m2 = AList.update ''enum'' (AList [AStr (Sprint other v)]) m1 in
            if has_key m2 ''type'' then m2 else AList.update ''type'' (AStr ''string'') m2)"

definition unsupported_keywords :: "string list" where
  "unsupported_keywords =
     [''additionalProperties'', ''format'', ''propertyNames'', ''patternProperties'',
      ''exclusiveMinimum'', ''exclusiveMaximum'', ''default'']"

definition delete_keys :: "string list \<Rightarrow> anymap \<Rightarrow> anymap" where
  "delete_keys ks m = fold AList.delete ks m"

text \<open>The rewriting of one object once its members are sanitised and copied into \<open>result\<close>.\<close>

definition finish_object :: "(any \<Rightarrow> string) \<Rightarrow> anymap \<Rightarrow> anymap" where
  "finish_object other result =
     delete_keys [''exclusiveMinimum'', ''exclusiveMaximum'', ''default'']
       (const_to_enum other
         (delete_keys [''additionalProperties'', ''format'', ''propertyNames'', ''patternProperties'']
           (only_objects_have_properties (type_items (filter_required (enum_to_string_type result))))))"

function (sequential) sanitizeImpl :: "(any \<Rightarrow> string) \<Rightarrow> any \<Rightarrow> any" where
  "sanitizeImpl other (AList arr) = AList (map (sanitizeImpl other) arr)"
| "sanitizeImpl other (AMap m) =
     (let pre = normalized_type m;
          copied = map (\<lambda>(k, v).
                         (k, case v of
                               AList vs \<Rightarrow>
                                 if k = ''enum'' then AList (map (\<lambda>ev. AStr (Sprint other ev)) vs)
                                 else sanitizeImpl other v
                             | AMap vv \<Rightarrow> sanitizeImpl other v
                             | _ \<Rightarrow> v))
                       (filter (\<lambda>(k, v). \<not> (k = ''type'' \<and> has_key pre ''type'')) m)
      in AMap (finish_object other (copied @ pre)))"
| "sanitizeImpl other obj = obj"
  by pat_completeness auto

termination
  by (relation "measure (\<lambda>(other, v). size v)") (auto dest: size_map_value size_list_value)

definition SanitizeSchema :: "(any \<Rightarrow> string) \<Rightarrow> anymap \<Rightarrow> anymap" where
  "SanitizeSchema other schema =
     (let processed = inlineRefsAndStripDrafts (get_map schema ''$defs'') 0 (AMap schema);
          schema1 = (case processed of AMap m \<Rightarrow> m | _ \<Rightarrow> schema)
      in case sanitizeImpl other (AMap schema1) of AMap m \<Rightarrow> m | _ \<Rightarrow> [])"


section \<open>Every object of a schema\<close>

text \<open>The objects the passes walk: through members of objects and elements of arrays.\<close>

fun every_object :: "(anymap \<Rightarrow> bool) \<Rightarrow> any \<Rightarrow> bool" where
  "every_object P (AMap m) \<longleftrightarrow> P m \<and> list_all (\<lambda>(k, v). every_object P v) m"
| "every_object P (AList vs) \<longleftrightarrow> list_all (every_object P) vs"
| "every_object P _ \<longleftrightarrow> True"

definition inlined :: "anymap \<Rightarrow> bool" where
  "inlined m \<longleftrightarrow> get_str m ''$ref'' = None \<and> list_all (\<lambda>k. \<not> has_key m k) dropped_keywords"

definition required_declared :: "anymap \<Rightarrow> bool" where
  "required_declared m \<longleftrightarrow>
     (map_of m ''type'' = Some (AStr ''object'') \<longrightarrow>
      (case (get_map m ''properties'', map_of m ''required'') of
         (Some props, Some (AList req)) \<Rightarrow>
           list_all (\<lambda>r. case r of AStr s \<Rightarrow> has_key props s | _ \<Rightarrow> False) req
       | (Some props, Some (AStrList req)) \<Rightarrow> False
       | _ \<Rightarrow> True))"

definition items_typed :: "anymap \<Rightarrow> bool" where
  "items_typed m \<longleftrightarrow>
     (map_of m ''type'' = Some (AStr ''array'') \<longrightarrow>
      (case map_of m ''items'' of
         None \<Rightarrow> False
       | Some ANil \<Rightarrow> False
       | Some (AMap items) \<Rightarrow> has_key items ''type''
       | Some _ \<Rightarrow> True))"

definition enum_textual :: "anymap \<Rightarrow> bool" where
  "enum_textual m \<longleftrightarrow>
     (map_of m ''type'' \<in> {Some (AStr ''integer''), Some (AStr ''number'')} \<longrightarrow>
      (case map_of m ''enum'' of None \<Rightarrow> True | Some (AList [AStr _]) \<Rightarrow> True | _ \<Rightarrow> False))"

definition gemini_object :: "anymap \<Rightarrow> bool" where
  "gemini_object m \<longleftrightarrow>
     inlined m \<and> list_all (\<lambda>k. \<not> has_key m k) (''const'' # unsupported_keywords) \<and>
     required_declared m \<and> items_typed m \<and> enum_textual m"

lemma every_object_list:
  "list_all (\<lambda>(k, v). every_object P v) m \<longleftrightarrow> (\<forall>kv\<in>set m. every_object P (snd kv))"
  by (auto simp: list_all_iff)

lemma map_of_map_filter_keys:
  "map_of (map (\<lambda>(k, v). (k, f k v)) (filter (\<lambda>(k, v). Q k) m)) k =
     (if Q k then map_option (f k) (map_of m k) else None)"
  by (induction m) auto



definition object_definitions :: "anymap option \<Rightarrow> bool" where
  "object_definitions defs \<longleftrightarrow>
     (case defs of None \<Rightarrow> True | Some t \<Rightarrow> list_all (\<lambda>(k, v). case v of AMap _ \<Rightarrow> True | _ \<Rightarrow> False) t)"

lemma resolved_object:
  "object_definitions defs \<Longrightarrow> resolveDefRef ref defs = Some target \<Longrightarrow> \<exists>m. target = AMap m"
  by (force simp: object_definitions_def resolveDefRef_def list_all_iff
            dest!: map_of_SomeD split: option.splits any.splits if_splits)

lemma inline_object:
  "object_definitions defs \<Longrightarrow> \<exists>m'. inlineRefsAndStripDrafts defs depth (AMap m) = AMap m'"
proof (induction "maxRefInlineDepth - depth" arbitrary: depth m rule: less_induct)
  case less
  show ?case
  proof (cases "get_str m ''$ref''")
    case None
    then show ?thesis by simp
  next
    case (Some ref)
    then show ?thesis
      using resolved_object [OF less(2), of ref] less(1) [of "Suc depth", OF _ less(2)]
      by (force simp: generic_object_def split: option.splits)
  qed
qed

lemma inline_string:
  assumes "object_definitions defs" and "inlineRefsAndStripDrafts defs depth v = AStr s"
  shows "v = AStr s"
proof (cases v)
  case (AMap m)
  then show ?thesis
    using inline_object [OF assms(1), of depth m] assms(2) by (metis any.distinct)
qed (use assms(2) in simp_all)

lemma get_str_inlined:
  assumes "object_definitions defs" and "get_str v k = None"
  shows "get_str (map (\<lambda>(k, val). (k, inlineRefsAndStripDrafts defs depth val))
                      (filter (\<lambda>(k, val). k \<notin> set dropped_keywords) v)) k = None"
  using assms(2) inline_string [OF assms(1)]
  by (auto simp: get_str_def map_of_map_filter_keys simp del: inlineRefsAndStripDrafts.simps
           split: option.splits any.splits)

lemma generic_inlined: "every_object inlined generic_object"
  by (simp add: generic_object_def inlined_def get_str_def has_key_def dropped_keywords_def)

lemma inline_inlined:
  "object_definitions defs \<Longrightarrow> every_object inlined (inlineRefsAndStripDrafts defs depth v)"
proof (induction defs depth v rule: inlineRefsAndStripDrafts.induct)
  case (1 defs depth v)
  show ?case
  proof (cases "get_str v ''$ref''")
    case None
    let ?m = "map (\<lambda>(k, val). (k, inlineRefsAndStripDrafts defs depth val))
                  (filter (\<lambda>(k, val). k \<notin> set dropped_keywords) v)"
    have "inlined ?m"
      using get_str_inlined [OF 1(3) None]
      by (simp add: inlined_def list_all_iff has_key_def map_of_map_filter_keys)
    moreover have "list_all (\<lambda>(k, v). every_object inlined v) ?m"
      using 1(1) [OF None] 1(3) by (auto simp: list_all_iff)
    ultimately show ?thesis
      using None by simp
  next
    case (Some ref)
    then show ?thesis
      using 1(2) [OF Some] 1(3) by (simp add: generic_inlined split: option.splits)
  qed
qed (auto simp: list_all_iff)

declare inlineRefsAndStripDrafts.simps(1) [simp del]

section \<open>The rewriting of one object\<close>

lemma map_of_delete_keys: "map_of (delete_keys ks m) k = (if k \<in> set ks then None else map_of m k)"
  by (induction ks arbitrary: m) (auto simp: delete_keys_def delete_conv')

lemma set_delete_keys: "set (delete_keys ks m) \<subseteq> set m"
proof (induction ks arbitrary: m)
  case (Cons k ks)
  then show ?case
    using Cons [of "AList.delete k m"] by (auto simp: delete_keys_def AList.delete_eq)
qed (simp add: delete_keys_def)

lemma set_update_subset: "set (AList.update k v m) \<subseteq> insert (k, v) (set m)"
  by (induction m) auto

text \<open>No step adds a member that is not an object the code has already rewritten.\<close>

definition members :: "(anymap \<Rightarrow> bool) \<Rightarrow> anymap \<Rightarrow> bool" where
  "members P m \<longleftrightarrow> (\<forall>kv\<in>set m. every_object P (snd kv))"

lemma members_update: "members P m \<Longrightarrow> every_object P v \<Longrightarrow> members P (AList.update k v m)"
  using set_update_subset [of k v m] by (auto simp: members_def)

lemma members_delete: "members P m \<Longrightarrow> members P (AList.delete k m)"
  by (auto simp: members_def AList.delete_eq)

lemma members_delete_keys: "members P m \<Longrightarrow> members P (delete_keys ks m)"
  using set_delete_keys [of ks m] by (auto simp: members_def)

lemma members_lookup: "members P m \<Longrightarrow> map_of m k = Some v \<Longrightarrow> every_object P v"
  by (auto simp: members_def dest!: map_of_SomeD)

lemmas members_rules = members_update members_delete members_delete_keys


lemma enum_to_string_lookup:
  "k \<noteq> ''type'' \<Longrightarrow> map_of (enum_to_string_type m) k = map_of m k"
  by (simp add: enum_to_string_type_def update_conv')

lemma enum_to_string_type:
  "map_of (enum_to_string_type m) ''type'' \<in> {Some (AStr ''integer''), Some (AStr ''number'')} \<Longrightarrow>
   map_of (enum_to_string_type m) ''enum'' = None"
  by (auto simp: enum_to_string_type_def update_conv' has_key_def split: if_splits)

lemma filter_required_lookup: "k \<noteq> ''required'' \<Longrightarrow> map_of (filter_required m) k = map_of m k"
  by (simp add: filter_required_def update_conv' split: option.splits any.splits)

lemma filter_required_declared: "required_declared (filter_required m)"
proof (cases "map_of m ''type'' = Some (AStr ''object'')")
  case obj: True
  show ?thesis
  proof (cases "get_map m ''properties''")
    case None
    then show ?thesis
      by (simp add: obj filter_required_def required_declared_def)
  next
    case (Some props)
    then have "get_map (AList.update ''required'' v m) ''properties'' = Some props" for v
      by (simp add: get_map_def update_conv')
    then show ?thesis
      using Some obj
      by (auto simp: filter_required_def required_declared_def update_conv' list_all_iff
               split: option.splits any.splits)
  qed
qed (simp add: filter_required_def required_declared_def)

lemma get_map_Some: "get_map m k = Some b \<longleftrightarrow> map_of m k = Some (AMap b)"
  by (simp add: get_map_def split: option.splits any.splits)

lemma get_map_update:
  "get_map (AList.update k v m) k = (case v of AMap b \<Rightarrow> Some b | _ \<Rightarrow> None)"
  by (simp add: get_map_def update_conv')

lemma type_items_lookup: "k \<noteq> ''items'' \<Longrightarrow> map_of (type_items m) k = map_of m k"
  by (simp add: type_items_def present_items_def update_conv' split: option.splits)

lemma type_items_typed: "items_typed (type_items m)"
proof (cases "map_of m ''type'' = Some (AStr ''array'')")
  case arr: True
  show ?thesis
  proof (cases "get_map m ''items''")
    case (Some items)
    then have "map_of m ''items'' = Some (AMap items)"
      by (simp add: get_map_Some)
    then show ?thesis
      using Some by (simp add: type_items_def present_items_def items_typed_def arr update_conv' has_key_def)
  next
    case None
    then have "map_of m ''items'' \<noteq> Some (AMap b)" for b
      by (simp add: get_map_Some [symmetric])
    then show ?thesis
      using None
      by (auto simp: type_items_def present_items_def items_typed_def arr update_conv' get_map_update has_key_def
               split: option.splits any.splits)
  qed
qed (simp add: type_items_def items_typed_def)

lemma only_objects_lookup:
  "k \<notin> {''properties'', ''required''} \<Longrightarrow> map_of (only_objects_have_properties m) k = map_of m k"
  by (simp add: only_objects_have_properties_def delete_conv')

lemma only_objects_object:
  "map_of m ''type'' = Some (AStr ''object'') \<Longrightarrow> only_objects_have_properties m = m"
  by (simp add: only_objects_have_properties_def)

lemma const_to_enum_lookup:
  "k \<notin> {''const'', ''enum'', ''type''} \<Longrightarrow> map_of (const_to_enum f m) k = map_of m k"
  by (simp add: const_to_enum_def Let_def update_conv' delete_conv' split: option.splits)

lemma const_to_enum_const: "map_of (const_to_enum f m) ''const'' = None"
  by (simp add: const_to_enum_def Let_def update_conv' delete_conv' split: option.splits)

lemma const_to_enum_type:
  "map_of (const_to_enum f m) ''type'' \<in> {map_of m ''type'', Some (AStr ''string'')}"
  by (simp add: const_to_enum_def Let_def update_conv' delete_conv' split: option.splits)

lemma const_to_enum_enum:
  "map_of (const_to_enum f m) ''enum'' = map_of m ''enum'' \<or>
   (\<exists>s. map_of (const_to_enum f m) ''enum'' = Some (AList [AStr s]))"
  by (simp add: const_to_enum_def Let_def update_conv' delete_conv' split: option.splits)

lemmas step_lookups = map_of_delete_keys const_to_enum_lookup only_objects_lookup type_items_lookup
  filter_required_lookup enum_to_string_lookup

lemma required_declared_cong:
  "map_of m ''type'' \<noteq> Some (AStr ''object'') \<or>
     map_of m ''type'' = map_of m' ''type'' \<and> map_of m ''properties'' = map_of m' ''properties'' \<and>
     map_of m ''required'' = map_of m' ''required'' \<Longrightarrow>
   required_declared m' \<Longrightarrow> required_declared m"
  by (auto simp: required_declared_def get_map_def)

lemma items_typed_cong:
  "map_of m ''type'' \<noteq> Some (AStr ''array'') \<or>
     map_of m ''type'' = map_of m' ''type'' \<and> map_of m ''items'' = map_of m' ''items'' \<Longrightarrow>
   items_typed m' \<Longrightarrow> items_typed m"
  by (auto simp: items_typed_def)

lemma finish_type:
  "map_of (finish_object f m) ''type'' \<in> {map_of (enum_to_string_type m) ''type'', Some (AStr ''string'')}"
  using const_to_enum_type [of f "delete_keys [''additionalProperties'', ''format'', ''propertyNames'', ''patternProperties'']
      (only_objects_have_properties (type_items (filter_required (enum_to_string_type m))))"]
  by (simp add: finish_object_def step_lookups)

lemma finish_required: "required_declared (finish_object f m)"
proof (rule required_declared_cong)
  show "required_declared (type_items (filter_required (enum_to_string_type m)))"
    by (rule required_declared_cong [OF _ filter_required_declared [of "enum_to_string_type m"]])
       (simp add: step_lookups)
  show "map_of (finish_object f m) ''type'' \<noteq> Some (AStr ''object'') \<or>
    map_of (finish_object f m) ''type'' =
      map_of (type_items (filter_required (enum_to_string_type m))) ''type'' \<and>
    map_of (finish_object f m) ''properties'' =
      map_of (type_items (filter_required (enum_to_string_type m))) ''properties'' \<and>
    map_of (finish_object f m) ''required'' =
      map_of (type_items (filter_required (enum_to_string_type m))) ''required''"
    using finish_type [of f m]
    by (auto simp: finish_object_def step_lookups only_objects_object)
qed

lemma finish_items: "items_typed (finish_object f m)"
  by (rule items_typed_cong [OF _ type_items_typed [of "filter_required (enum_to_string_type m)"]])
     (use finish_type [of f m] in \<open>auto simp: finish_object_def step_lookups\<close>)

lemma finish_enum: "enum_textual (finish_object f m)"
proof (unfold enum_textual_def, rule impI)
  let ?m5 = "delete_keys [''additionalProperties'', ''format'', ''propertyNames'', ''patternProperties'']
      (only_objects_have_properties (type_items (filter_required (enum_to_string_type m))))"
  assume "map_of (finish_object f m) ''type'' \<in> {Some (AStr ''integer''), Some (AStr ''number'')}"
  then have "map_of (enum_to_string_type m) ''type'' \<in> {Some (AStr ''integer''), Some (AStr ''number'')}"
    using finish_type [of f m] by auto
  then have "map_of ?m5 ''enum'' = None"
    using enum_to_string_type [of m] by (simp add: step_lookups)
  then show "case map_of (finish_object f m) ''enum'' of None \<Rightarrow> True
      | Some (AList [AStr _]) \<Rightarrow> True | _ \<Rightarrow> False"
    using const_to_enum_enum [of f ?m5] by (auto simp: finish_object_def map_of_delete_keys)
qed

lemma finish_inlined: "inlined m \<Longrightarrow> inlined (finish_object f m)"
  by (simp add: inlined_def get_str_def has_key_def dropped_keywords_def finish_object_def step_lookups)

lemma finish_supported:
  "list_all (\<lambda>k. \<not> has_key (finish_object f m) k) (''const'' # unsupported_keywords)"
  by (simp add: has_key_def unsupported_keywords_def finish_object_def map_of_delete_keys
                const_to_enum_const const_to_enum_lookup)

lemma finish_gemini: "inlined m \<Longrightarrow> gemini_object (finish_object f m)"
  by (simp only: gemini_object_def finish_inlined finish_supported finish_required finish_items
                 finish_enum simp_thms)


lemma gemini_object_Nil: "gemini_object []"
  by (simp add: gemini_object_def inlined_def required_declared_def items_typed_def enum_textual_def
                list_all_iff)

lemma gemini_object_string_items:
  "gemini_object items \<Longrightarrow> gemini_object (AList.update ''type'' (AStr ''string'') items)"
  by (simp add: gemini_object_def inlined_def required_declared_def items_typed_def enum_textual_def
                list_all_iff dropped_keywords_def unsupported_keywords_def update_conv' has_key_def)

abbreviation gemini_value :: "any \<Rightarrow> bool" where "gemini_value \<equiv> every_object gemini_object"

lemma gemini_value_members: "gemini_value (AMap m) \<longleftrightarrow> gemini_object m \<and> members gemini_object m"
  by (auto simp: members_def list_all_iff)

lemma strings_only: "every_object P (AList (map (\<lambda>x. AStr (f x)) xs))"
  by (simp add: list_all_iff)

lemma filter_required_members: "members P m \<Longrightarrow> members P (filter_required m)"
proof -
  assume m: "members P m"
  have "every_object P (AList (filter Q req))" if "map_of m ''required'' = Some (AList req)" for Q req
    using members_lookup [OF m that] by (auto simp: list_all_iff)
  then show ?thesis
    using m strings_only [of P "\<lambda>x. x"]
    by (auto simp: filter_required_def intro!: members_update split: option.splits any.splits
             simp del: every_object.simps(2))
qed

lemma type_items_members: "members gemini_object m \<Longrightarrow> members gemini_object (type_items m)"
proof -
  assume m: "members gemini_object m"
  then have m1: "members gemini_object (present_items m)"
    by (auto simp: present_items_def gemini_object_Nil intro!: members_update)
  have "members gemini_object
      (AList.update ''items'' (AMap (AList.update ''type'' (AStr ''string'') items)) (present_items m))"
    if "get_map (present_items m) ''items'' = Some items" for items
  proof -
    have "gemini_value (AMap items)"
      using members_lookup [OF m1] that unfolding get_map_Some .
    then have "gemini_value (AMap (AList.update ''type'' (AStr ''string'') items))"
      using gemini_object_string_items by (simp add: gemini_value_members members_update del: every_object.simps(1))
    then show ?thesis
      using members_update [OF m1] by blast
  qed
  then show ?thesis
    using m m1 by (simp add: type_items_def split: option.splits)
qed

lemma const_to_enum_members: "members P m \<Longrightarrow> members P (const_to_enum f m)"
  by (auto simp: const_to_enum_def Let_def intro!: members_rules split: option.splits)

lemma finish_members: "members gemini_object m \<Longrightarrow> members gemini_object (finish_object f m)"
  unfolding finish_object_def only_objects_have_properties_def enum_to_string_type_def
  by (auto intro!: members_rules const_to_enum_members type_items_members filter_required_members)

section \<open>Sanitised schemas\<close>

lemma single_type_entries:
  "kv \<in> set (single_type tt) \<Longrightarrow> (\<exists>s. kv = (''type'', AStr s)) \<or> kv = (''nullable'', ABool True)"
  by (auto simp: single_type_def split: list.splits if_splits)

lemma normalized_type_entries:
  "kv \<in> set (normalized_type m) \<Longrightarrow>
   (\<exists>s. kv = (''type'', AStr s)) \<or> kv = (''nullable'', ABool True)"
  unfolding normalized_type_def
  by (cases "map_of m ''type''" rule: option.exhaust; simp split: any.splits)
     (auto dest: single_type_entries split: any.splits)

lemma normalized_type_lookup:
  "k \<noteq> ''type'' \<Longrightarrow> k \<noteq> ''nullable'' \<Longrightarrow> map_of (normalized_type m) k = None"
  using normalized_type_entries [of "(k, v)" m for v] by (auto simp: map_of_eq_None_iff image_iff)

lemma normalized_type_members: "members P (normalized_type m)"
  unfolding members_def by (auto dest: normalized_type_entries)

text \<open>The copy loop: each member sanitised, an enum's values turned into strings.\<close>

definition copy_member :: "(any \<Rightarrow> string) \<Rightarrow> string \<Rightarrow> any \<Rightarrow> any" where
  "copy_member f k v =
     (case v of
        AList vs \<Rightarrow> if k = ''enum'' then AList (map (\<lambda>ev. AStr (Sprint f ev)) vs) else sanitizeImpl f v
      | AMap vv \<Rightarrow> sanitizeImpl f v
      | _ \<Rightarrow> v)"

definition copied :: "(any \<Rightarrow> string) \<Rightarrow> anymap \<Rightarrow> anymap" where
  "copied f m =
     map (\<lambda>(k, v). (k, copy_member f k v))
         (filter (\<lambda>(k, v). \<not> (k = ''type'' \<and> has_key (normalized_type m) ''type'')) m) @ normalized_type m"

lemma sanitizeImpl_object: "sanitizeImpl f (AMap m) = AMap (finish_object f (copied f m))"
  by (simp add: copied_def copy_member_def Let_def)

declare sanitizeImpl.simps(2) [simp del]

lemma sanitizeImpl_string: "sanitizeImpl f v = AStr s \<longleftrightarrow> v = AStr s"
  by (cases v) (simp_all add: sanitizeImpl_object)

lemma copied_lookup:
  "k \<noteq> ''type'' \<Longrightarrow> k \<noteq> ''nullable'' \<Longrightarrow>
   map_of (copied f m) k = map_option (copy_member f k) (map_of m k)"
  unfolding copied_def map_of_append map_add_def
  using map_of_map_filter_keys [of "copy_member f" "\<lambda>k. \<not> (k = ''type'' \<and> has_key (normalized_type m) ''type'')" m k]
  by (simp add: normalized_type_lookup split: option.splits)

lemma copy_member_string: "copy_member f k v = AStr s \<longleftrightarrow> v = AStr s"
  by (cases v) (simp_all add: copy_member_def sanitizeImpl_string)

lemma get_str_Some: "get_str m k = Some s \<longleftrightarrow> map_of m k = Some (AStr s)"
  by (simp add: get_str_def split: option.splits any.splits)

lemma copied_get_str:
  assumes "k \<noteq> ''type''" and "k \<noteq> ''nullable''"
  shows "get_str (copied f m) k = get_str m k"
proof -
  have "get_str (copied f m) k = Some s \<longleftrightarrow> get_str m k = Some s" for s
    by (simp add: get_str_Some copied_lookup assms copy_member_string)
  then show ?thesis
    by (metis option.exhaust)
qed

lemma copied_inlined: "inlined m \<Longrightarrow> inlined (copied f m)"
  by (simp add: inlined_def has_key_def dropped_keywords_def copied_lookup copied_get_str)

lemma copied_members:
  assumes "\<And>k v. (k, v) \<in> set m \<Longrightarrow> gemini_value (sanitizeImpl f v)"
  shows "members gemini_object (copied f m)"
proof -
  have "gemini_value (copy_member f k v)" if "(k, v) \<in> set m" for k v
    using assms [OF that] strings_only [of gemini_object "Sprint f"]
    by (cases v) (simp_all add: copy_member_def)
  then show ?thesis
    using normalized_type_members [of gemini_object m]
    by (auto simp: members_def copied_def)
qed

lemma sanitized_gemini: "every_object inlined v \<Longrightarrow> gemini_value (sanitizeImpl f v)"
proof (induction v rule: measure_induct_rule [of size])
  case (less v)
  show ?case
  proof (cases v)
    case (AList vs)
    then show ?thesis
      using less by (auto simp: list_all_iff dest: size_list_value)
  next
    case (AMap m)
    have "gemini_value (sanitizeImpl f x)" if "(k, x) \<in> set m" for k x
      using less AMap that size_map_value [OF that] by (force simp: list_all_iff)
    then have "members gemini_object (copied f m)"
      by (rule copied_members)
    moreover have "inlined (copied f m)"
      using less(2) AMap by (simp add: copied_inlined)
    ultimately show ?thesis
      unfolding AMap sanitizeImpl_object gemini_value_members
      by (simp add: finish_gemini finish_members)
  qed simp_all
qed

text \<open>
  C22: \<open>SanitizeSchema\<close> returns a schema Gemini accepts, whatever its shape and however deeply its
  references nest or cycle: in the result, and in every object reached through its members and arrays,
  no \<open>$ref\<close> string, conditional, meta or unsupported keyword is left; every entry of \<open>required\<close> of an
  object type with properties names one of them; every array type has \<open>items\<close> with a type; and an enum
  on a numeric type is only the one-string enum a \<open>const\<close> was rewritten to. The hypothesis says
  that the entries of \<open>$defs\<close> are objects.
\<close>

theorem SanitizeSchema_gemini:
  assumes "object_definitions (get_map schema ''$defs'')"
  shows "every_object gemini_object (AMap (SanitizeSchema other schema))"
proof -
  let ?p = "inlineRefsAndStripDrafts (get_map schema ''$defs'') 0 (AMap schema)"
  obtain m where m: "?p = AMap m"
    using inline_object [OF assms] by blast
  have "gemini_value (sanitizeImpl other (AMap m))"
    using inline_inlined [OF assms, of 0 "AMap schema"] m by (simp add: sanitized_gemini)
  then show ?thesis
    by (simp add: SanitizeSchema_def m sanitizeImpl_object)
qed



text \<open>A recursive type: the cycle is cut off, the nullable type and the numeric enum are rewritten.\<close>

definition sample_schema :: anymap where
  "sample_schema =
     [(''$defs'', AMap [(''N'', AMap [(''type'', AStr ''object''),
                                      (''properties'', AMap [(''next'', AMap [(''$ref'', AStr ''#/$defs/N'')])])])]),
      (''type'', AList [AStr ''object'', AStr ''null'']),
      (''properties'', AMap [(''n'', AMap [(''$ref'', AStr ''#/$defs/N'')]),
                             (''e'', AMap [(''type'', AStr ''integer''), (''enum'', AList [AInt 1, AInt 2])]),
                             (''c'', AMap [(''type'', AStr ''integer''), (''const'', AInt 5)]),
                             (''format'', AMap [(''type'', AStr ''string'')]),
                             (''a'', AMap [(''type'', AStr ''array'')])]),
      (''required'', AList [AStr ''e'', AStr ''format''])]"

theorem SanitizeSchema_gemini_witness:
  "every_object gemini_object (AMap (SanitizeSchema (\<lambda>_. ''?'') sample_schema))"
  by (rule SanitizeSchema_gemini)
     (simp add: sample_schema_def get_map_def object_definitions_def)


text \<open>
  The maps under \<open>properties\<close> are walked as if they were schemas: a parameter whose name is a keyword
  disappears, and with it the entry of \<open>required\<close>. A numeric \<open>const\<close> keeps its numeric type although
  its value becomes a string.
\<close>

lemma property_named_like_keyword_lost:
  "SanitizeSchema f
     [(''type'', AStr ''object''),
      (''properties'', AMap [(''format'', AMap [(''type'', AStr ''string'')])]),
      (''required'', AList [AStr ''format''])] =
     [(''type'', AStr ''object''), (''properties'', AMap []), (''required'', AList [])]"
  by code_simp

lemma numeric_const_keeps_type:
  "SanitizeSchema f [(''type'', AStr ''integer''), (''const'', AInt 5)] =
     [(''type'', AStr ''integer''), (''enum'', AList [AStr ''5''])]"
  by code_simp

end
