(* ===== verification/OpenAiStream.thy ===== *)
theory OpenAiStream
  imports StreamSteps SseScan HttpErrors
begin

text \<open>
  Answers of OpenAI-compatible providers (\<open>src/internal/openaicompat/openaicompat.go\<close> and
  \<open>reasoning_details.go\<close>): the streaming reader \<open>ParseStream\<close>, which reassembles tool calls from
  fragments and normalises token counts, and \<open>ParseResponse\<close> for whole answers. JSON coding and random
  identifiers are parameters; members of a decoded object are assumed to be listed in one fixed order.
\<close>

section \<open>Decoded answers\<close>

record promptTokensDetails =
  pdCachedTokens :: "64 word"
  pdCacheWriteTokens :: "64 word"

record completionTokensDetails =
  cdReasoningTokens :: "64 word"
  cdAcceptedPredictionTokens :: "64 word"
  cdRejectedPredictionTokens :: "64 word"

record streamUsage =
  suPromptTokens :: "64 word"
  suCompletionTokens :: "64 word"
  suTotalTokens :: "64 word"
  suPromptCacheHitTokens :: "64 word"
  suCachedTokens :: "64 word"
  suPromptTokensDetails :: "promptTokensDetails option"
  suCompletionTokensDetails :: "completionTokensDetails option"

record url_citation =
  ucURL :: string
  ucTitle :: string
  ucStartIndex :: int
  ucEndIndex :: int

record annotation =
  anType :: string
  anURLCitation :: "url_citation option"

record tool_fragment =
  tfIndex :: int
  tfID :: string
  tfName :: string
  tfArguments :: string

type_synonym details = "anymap option list"

text \<open>A choice of a stream chunk or of a whole answer; \<open>content\<close> and \<open>logprobs\<close> are raw JSON.\<close>

record choice =
  chContent :: string
  chReasoningContent :: string
  chReasoning :: string
  chReasoningDetails :: "details option"
  chToolCalls :: "tool_fragment list"
  chAnnotations :: "annotation list"
  chLogprobs :: "string option"
  chFinishReason :: string

record streamResponse =
  srID :: string
  srModel :: string
  srChoices :: "choice list"
  srCitations :: "string list"
  srUsage :: "streamUsage option"

record openai_env =
  oeDecode :: "string \<Rightarrow> go_error + streamResponse" \<comment> \<open>\<open>json.Unmarshal\<close> into the struct\<close>
  oeError :: "string \<Rightarrow> error_event option"
  oeAny :: "string \<Rightarrow> any option"
  oeString :: "string \<Rightarrow> string option"
  oeTextParts :: "string \<Rightarrow> (string \<times> string) list option" \<comment> \<open>type and text of each element\<close>
  oeMarshal :: "anymap option \<Rightarrow> go_error + string"
  oeToolCallID :: "nat \<Rightarrow> string" \<comment> \<open>the results of \<open>generateToolCallID\<close>\<close>

definition maxToolCallArgsBytes :: nat where "maxToolCallArgsBytes = 64 * 2 ^ 20"
definition maxCitationsBytes :: nat where "maxCitationsBytes = 64 * 2 ^ 20"
definition maxReasoningDetailsBytes :: nat where "maxReasoningDetailsBytes = 64 * 2 ^ 20"

section \<open>Pieces shared by both readers\<close>

definition openai_finish_reason :: "string \<Rightarrow> FinishReason" where
  "openai_finish_reason reason =
     (if reason = ''stop'' then FinishStop
      else if reason = ''tool_calls'' then FinishToolCalls
      else if reason = ''length'' then FinishLength
      else if reason = ''content_filter'' then FinishContentFilter
      else FinishOther)"

definition cacheWriteTokens :: "promptTokensDetails option \<Rightarrow> 64 word" where
  "cacheWriteTokens details = (case details of None \<Rightarrow> 0 | Some d \<Rightarrow> pdCacheWriteTokens d)"

definition cacheReadTokens :: "promptTokensDetails option \<Rightarrow> 64 word \<Rightarrow> 64 word \<Rightarrow> 64 word" where
  "cacheReadTokens details hitTokens openRouterCached =
     (case details of
        Some d \<Rightarrow> if 0 < sint (pdCachedTokens d) then pdCachedTokens d
                  else if 0 < sint hitTokens then hitTokens else openRouterCached
      | None \<Rightarrow> if 0 < sint hitTokens then hitTokens else openRouterCached)"

text \<open>Input tokens without the cached ones; a missing total is the sum.\<close>

definition normalized_usage :: "streamUsage \<Rightarrow> Usage \<Rightarrow> Usage" where
  "normalized_usage u old =
     (let input = suPromptTokens u; output = suCompletionTokens u; total = suTotalTokens u;
          total = (if sint total \<le> 0 \<and> 0 < sint (input + output) then input + output else total);
          reads = cacheReadTokens (suPromptTokensDetails u) (suPromptCacheHitTokens u) (suCachedTokens u);
          writes = cacheWriteTokens (suPromptTokensDetails u);
          input = input - (reads + writes);
          input = (if sint input < 0 then 0 else input)
      in old\<lparr>InputTokens := input, OutputTokens := output, TotalTokens := total,
           ReasoningTokens := (case suCompletionTokensDetails u of
                                 Some c \<Rightarrow> cdReasoningTokens c | None \<Rightarrow> ReasoningTokens old),
           CacheReadTokens := reads, CacheWriteTokens := writes\<rparr>)"

definition positive_count :: "string \<Rightarrow> 64 word \<Rightarrow> anymap \<Rightarrow> anymap" where
  "positive_count k n m = (if 0 < sint n then AList.update k (AInt (sint n)) m else m)"

definition prediction_meta :: "streamUsage \<Rightarrow> anymap \<Rightarrow> anymap" where
  "prediction_meta u m =
     (case suCompletionTokensDetails u of
        None \<Rightarrow> m
      | Some c \<Rightarrow> positive_count ''rejectedPredictionTokens'' (cdRejectedPredictionTokens c)
                    (positive_count ''acceptedPredictionTokens'' (cdAcceptedPredictionTokens c) m))"

definition extractTextContent :: "openai_env \<Rightarrow> string \<Rightarrow> string" where
  "extractTextContent env raw =
     (if raw = [] then []
      else case oeString env raw of
          Some s \<Rightarrow> s
        | None \<Rightarrow>
            (case oeTextParts env raw of
               Some parts \<Rightarrow> concat (map snd (filter (\<lambda>(t, x). t = ''text'' \<and> x \<noteq> []) parts))
             | None \<Rightarrow> []))"

definition logprobs_meta :: "openai_env \<Rightarrow> string option \<Rightarrow> anymap \<Rightarrow> anymap" where
  "logprobs_meta env raw m =
     (case Option.bind raw (oeAny env) of
        None \<Rightarrow> m
      | Some ANil \<Rightarrow> m
      | Some lp \<Rightarrow> AList.update ''logprobs'' lp m)"

definition url_source :: "url_citation \<Rightarrow> source" where
  "url_source c = Source [] ''url'' (ucURL c) (ucTitle c) (ucStartIndex c) (ucEndIndex c) []"

definition annotation_sources :: "annotation list \<Rightarrow> source list" where
  "annotation_sources anns =
     List.map_filter (\<lambda>ann. if anType ann = ''url_citation'' then map_option url_source (anURLCitation ann) else None) anns"

definition citation_sources :: "string list \<Rightarrow> source list" where
  "citation_sources cs = map (\<lambda>(i, c). Source (''citation_'' @ show_nat i) ''url'' c [] 0 0 []) (enumerate 0 cs)"

section \<open>Reasoning details\<close>

definition detail_type :: "anymap option \<Rightarrow> any option" where
  "detail_type d = Option.bind d (\<lambda>m. map_of m ''type'')"

definition detail_member :: "anymap option \<Rightarrow> string \<Rightarrow> any option" where
  "detail_member d k = (case Option.bind d (\<lambda>m. map_of m k) of Some ANil \<Rightarrow> None | v \<Rightarrow> v)"

definition sameReasoningDetail :: "anymap option \<Rightarrow> anymap option \<Rightarrow> bool" where
  "sameReasoningDetail a b =
     list_all (\<lambda>key. detail_member a key = None \<or> detail_member b key = None \<or> detail_member a key = detail_member b key)
       [''id'', ''index'', ''format'']"

definition merge_entry :: "string \<Rightarrow> string \<times> any \<Rightarrow> anymap \<Rightarrow> anymap" where
  "merge_entry key kv prev =
     (case kv of (k, v) \<Rightarrow>
        if k = key
        then AList.update k
               (AStr ((case get_str prev k of Some s \<Rightarrow> s | None \<Rightarrow> []) @ (case v of AStr s \<Rightarrow> s | _ \<Rightarrow> []))) prev
        else if v \<noteq> ANil \<or> detail_member (Some prev) k = None then AList.update k v prev
        else prev)"

definition merge_detail :: "anymap \<Rightarrow> string \<Rightarrow> anymap \<Rightarrow> anymap" where
  "merge_detail prev typ detail =
     fold (merge_entry (if typ = ''reasoning.summary'' then ''summary'' else ''text'')) detail prev"

definition detail_string :: "anymap option \<Rightarrow> string \<Rightarrow> string" where
  "detail_string d k = (case Option.bind d (\<lambda>m. get_str m k) of Some s \<Rightarrow> s | None \<Rightarrow> [])"

definition add_detail :: "details \<Rightarrow> anymap option \<Rightarrow> details" where
  "add_detail ds detail =
     (let typ = detail_string detail ''type'' in
      case (if ds = [] then None else last ds, detail) of
        (Some l, Some d) \<Rightarrow>
          if (typ = ''reasoning.text'' \<or> typ = ''reasoning.summary'') \<and> detail_type (Some l) = Some (AStr typ) \<and>
             sameReasoningDetail (Some l) detail
          then butlast ds @ [Some (merge_detail l typ d)]
          else ds @ [detail]
      | _ \<Rightarrow> ds @ [detail])"

record reasoningDetailsAccumulator =
  rdDetails :: "details option"
  rdSize :: nat

fun add_details :: "openai_env \<Rightarrow> anymap option list \<Rightarrow> details \<Rightarrow> nat \<Rightarrow>
    go_error option \<times> reasoningDetailsAccumulator" where
  "add_details env [] ds sz = (None, \<lparr>rdDetails = Some ds, rdSize = sz\<rparr>)"
| "add_details env (detail # details) ds sz =
     (case oeMarshal env detail of
        Inl err \<Rightarrow> (Some (ErrWrap (''encoding reasoning detail: '' @ error_text err) err), \<lparr>rdDetails = Some ds, rdSize = sz\<rparr>)
      | Inr data \<Rightarrow>
          let sz = sz + length data in
          if maxReasoningDetailsBytes < sz
          then (Some (ErrMsg (''reasoning details exceed '' @ show_nat maxReasoningDetailsBytes @ '' bytes'')),
                \<lparr>rdDetails = Some ds, rdSize = sz\<rparr>)
          else add_details env details (add_detail ds detail) sz)"

definition add_reasoning_details ::
    "openai_env \<Rightarrow> details option \<Rightarrow> reasoningDetailsAccumulator \<Rightarrow> go_error option \<times> reasoningDetailsAccumulator" where
  "add_reasoning_details env details a =
     (case details of
        None \<Rightarrow> (None, a)
      | Some ds \<Rightarrow> add_details env ds (case rdDetails a of Some old \<Rightarrow> old | None \<Rightarrow> []) (rdSize a))"

definition detail_text :: "anymap option \<Rightarrow> string" where
  "detail_text detail =
     (if detail_type detail = Some (AStr ''reasoning.text'') then detail_string detail ''text''
      else if detail_type detail = Some (AStr ''reasoning.summary'') then detail_string detail ''summary''
      else [])"

definition reasoningDetailsText :: "details \<Rightarrow> string" where
  "reasoningDetailsText details = concat (map detail_text details)"

definition reasoning_meta :: "details \<Rightarrow> anymap" where
  "reasoning_meta ds = [(''reasoning_details'', AMapList ds)]"

section \<open>State of the streaming reader\<close>

record activeToolCall =
  atID :: string
  atName :: string
  atArgs :: string
  atSize :: nat
  atStarted :: bool

definition zero_tool :: activeToolCall where
  "zero_tool = \<lparr>atID = [], atName = [], atArgs = [], atSize = 0, atStarted = False\<rparr>"

record openai_state = emitter +
  osTools :: "(int \<times> activeToolCall) list"
  osUsage :: Usage
  osResponse :: ResponseMetadata
  osMeta :: anymap
  osCitations :: "string list"
  osCitationsSize :: nat
  osDetails :: reasoningDetailsAccumulator
  osGenerated :: nat \<comment> \<open>identifiers generated so far\<close>

definition openai_start :: "sink \<Rightarrow> openai_state" where
  "openai_start out = \<lparr>emOut = out, osTools = [], osUsage = zero_Usage, osResponse = zero_Response, osMeta = [],
     osCitations = [], osCitationsSize = 0, osDetails = \<lparr>rdDetails = None, rdSize = 0\<rparr>, osGenerated = 0\<rparr>"

type_synonym openai_step = "openai_state \<Rightarrow> bool \<times> openai_state"

section \<open>One event\<close>

definition capture_response :: "streamResponse \<Rightarrow> openai_state \<Rightarrow> openai_state" where
  "capture_response resp s =
     (let r = osResponse s;
          r = (if rID r = [] \<and> srID resp \<noteq> [] then r\<lparr>rID := srID resp\<rparr> else r);
          r = (if rModel r = [] \<and> srModel resp \<noteq> [] then r\<lparr>rModel := srModel resp\<rparr> else r)
      in s\<lparr>osResponse := r\<rparr>)"

definition capture_usage :: "streamResponse \<Rightarrow> openai_state \<Rightarrow> openai_state" where
  "capture_usage resp s =
     (case srUsage resp of
        None \<Rightarrow> s
      | Some u \<Rightarrow> s\<lparr>osUsage := normalized_usage u (osUsage s), osMeta := prediction_meta u (osMeta s)\<rparr>)"

definition limit_error :: "string \<Rightarrow> nat \<Rightarrow> go_error" where
  "limit_error what limit = ErrMsg (what @ '' exceed '' @ show_nat limit @ '' byte limit'')"

fun add_citations :: "string list \<Rightarrow> openai_step" where
  "add_citations [] s = (True, s)"
| "add_citations (c # cs) s =
     (if maxCitationsBytes < osCitationsSize s + length c
      then emit_return (err_chunk (limit_error ''stream citations'' maxCitationsBytes)) s
      else add_citations cs (s\<lparr>osCitationsSize := osCitationsSize s + length c, osCitations := osCitations s @ [c]\<rparr>))"

definition text_chunk_of :: "string \<Rightarrow> StreamChunk" where
  "text_chunk_of t = zero_Chunk\<lparr>scType := ChunkText, scText := t\<rparr>"

definition reasoning_chunk_of :: "string \<Rightarrow> StreamChunk" where
  "reasoning_chunk_of t = zero_Chunk\<lparr>scType := ChunkReasoning, scText := t\<rparr>"

definition source_chunk :: "source \<Rightarrow> StreamChunk" where
  "source_chunk c = zero_Chunk\<lparr>scType := ChunkText, scMetadata := [(''source'', ASource c)]\<rparr>"

definition emit_reasoning :: "choice \<Rightarrow> openai_step" where
  "emit_reasoning ch s =
     (if chReasoningContent ch \<noteq> [] then emit (reasoning_chunk_of (chReasoningContent ch)) s
      else if chReasoning ch \<noteq> [] then emit (reasoning_chunk_of (chReasoning ch)) s
      else
        let t = reasoningDetailsText (case chReasoningDetails ch of Some ds \<Rightarrow> ds | None \<Rightarrow> []) in
        if t \<noteq> [] then emit (reasoning_chunk_of t) s else (True, s))"

definition emit_text :: "openai_env \<Rightarrow> choice \<Rightarrow> openai_step" where
  "emit_text env ch s =
     (let t = extractTextContent env (chContent ch) in if t \<noteq> [] then emit (text_chunk_of t) s else (True, s))"

definition tool_chunk :: "StreamChunkType \<Rightarrow> activeToolCall \<Rightarrow> string \<Rightarrow> StreamChunk" where
  "tool_chunk typ a input =
     zero_Chunk\<lparr>scType := typ, scToolCallID := atID a, scToolName := atName a, scToolInput := input\<rparr>"

definition put_tool :: "int \<Rightarrow> activeToolCall \<Rightarrow> openai_state \<Rightarrow> openai_state" where
  "put_tool idx a s = s\<lparr>osTools := AList.update idx a (osTools s)\<rparr>"

text \<open>The identifier and the name a fragment brings, or a generated identifier.\<close>

definition name_tool :: "openai_env \<Rightarrow> tool_fragment \<Rightarrow> openai_state \<Rightarrow> activeToolCall \<times> openai_state" where
  "name_tool env tc s =
     (let a = (case map_of (osTools s) (tfIndex tc) of Some a \<Rightarrow> a | None \<Rightarrow> zero_tool);
          (a, s) = (if tfID tc \<noteq> [] \<and> \<not> atStarted a then (a\<lparr>atID := tfID tc\<rparr>, s)
                    else if atID a = [] \<and> tfName tc \<noteq> []
                    then (a\<lparr>atID := oeToolCallID env (osGenerated s)\<rparr>, s\<lparr>osGenerated := Suc (osGenerated s)\<rparr>)
                    else (a, s));
          a = (if tfName tc \<noteq> [] then a\<lparr>atName := tfName tc\<rparr> else a)
      in (a, put_tool (tfIndex tc) a s))"

definition start_tool :: "int \<Rightarrow> activeToolCall \<Rightarrow> openai_step" where
  "start_tool idx a s =
     (if atID a \<noteq> [] \<and> atName a \<noteq> [] \<and> \<not> atStarted a
      then and_then (emit (tool_chunk ChunkToolCallStreamStart a []) s)
             (\<lambda>s. let s = put_tool idx (a\<lparr>atStarted := True\<rparr>) s in
                  if atArgs a \<noteq> [] then emit (tool_chunk ChunkToolCallDelta a (atArgs a)) s else (True, s))
      else (True, s))"

definition tool_at :: "int \<Rightarrow> openai_state \<Rightarrow> activeToolCall" where
  "tool_at idx s = (case map_of (osTools s) idx of Some a \<Rightarrow> a | None \<Rightarrow> zero_tool)"

definition add_arguments :: "int \<Rightarrow> string \<Rightarrow> openai_step" where
  "add_arguments idx args s =
     (let a = tool_at idx s in
      if args = [] then (True, s)
      else if maxToolCallArgsBytes < atSize a + length args
      then emit_return (err_chunk (limit_error ''tool call arguments'' maxToolCallArgsBytes)) s
      else
        let a = a\<lparr>atArgs := atArgs a @ args, atSize := atSize a + length args\<rparr>; s = put_tool idx a s in
        if atStarted a then emit (tool_chunk ChunkToolCallDelta a args) s else (True, s))"

definition tool_fragment_step :: "openai_env \<Rightarrow> tool_fragment \<Rightarrow> openai_step" where
  "tool_fragment_step env tc s =
     (case name_tool env tc s of (a, s) \<Rightarrow>
        and_then (start_tool (tfIndex tc) a s) (add_arguments (tfIndex tc) (tfArguments tc)))"

text \<open>Complete calls, in index order; at the finish reason they leave the table.\<close>

definition finalize_tool :: "bool \<Rightarrow> int \<Rightarrow> openai_step" where
  "finalize_tool remove idx s =
     (let a = tool_at idx s in
      if \<not> atStarted a then (True, s)
      else and_then (emit (tool_chunk ChunkToolCall a (atArgs a)) s)
             (\<lambda>s. (True, if remove then s\<lparr>osTools := AList.delete idx (osTools s)\<rparr> else s)))"

definition finalize_tools :: "bool \<Rightarrow> openai_step" where
  "finalize_tools remove s = each_step (finalize_tool remove) (sort (map fst (osTools s))) s"

definition finish_step :: "string \<Rightarrow> openai_step" where
  "finish_step reason s =
     (if reason = [] then (True, s)
      else and_then (if reason = ''tool_calls'' then finalize_tools True s else (True, s))
             (emit (zero_Chunk\<lparr>scType := ChunkStepFinish, scFinishReason := openai_finish_reason reason\<rparr>)))"

definition choice_body :: "openai_env \<Rightarrow> choice \<Rightarrow> openai_step" where
  "choice_body env ch s =
     (case add_reasoning_details env (chReasoningDetails ch) (osDetails s) of (err, acc) \<Rightarrow>
        let s = s\<lparr>osDetails := acc\<rparr> in
        case err of
          Some e \<Rightarrow> emit_return (err_chunk e) s
        | None \<Rightarrow>
            and_then (emit_reasoning ch s) (\<lambda>s.
            and_then (emit_text env ch s) (\<lambda>s.
            let s = s\<lparr>osMeta := logprobs_meta env (chLogprobs ch) (osMeta s)\<rparr> in
            and_then (each_step (\<lambda>c. emit (source_chunk c)) (annotation_sources (chAnnotations ch)) s)
              (each_step (tool_fragment_step env) (chToolCalls ch)))))"

definition choice_step :: "openai_env \<Rightarrow> choice \<Rightarrow> openai_step" where
  "choice_step env ch s = and_then (choice_body env ch s) (finish_step (chFinishReason ch))"

definition response_step :: "openai_env \<Rightarrow> streamResponse \<Rightarrow> openai_step" where
  "response_step env resp s =
     and_then (add_citations (srCitations resp) (capture_usage resp (capture_response resp s)))
       (\<lambda>s. case srChoices resp of [] \<Rightarrow> (True, s) | ch # _ \<Rightarrow> choice_step env ch s)"

definition openai_data :: "openai_env \<Rightarrow> string \<Rightarrow> openai_step" where
  "openai_data env data s =
     (case ClassifyStreamError (oeError env) data of
        Some err \<Rightarrow> emit_return (err_chunk err) s
      | None \<Rightarrow> (case oeDecode env data of Inl _ \<Rightarrow> (True, s) | Inr resp \<Rightarrow> response_step env resp s))"

section \<open>The end of the stream\<close>

definition final_metadata :: "openai_state \<Rightarrow> anymap" where
  "final_metadata s =
     (let pm = (if osMeta s \<noteq> [] then [(''openai'', osMeta s)] else []);
          pm = (case rdDetails (osDetails s) of Some ds \<Rightarrow> AList.update ''openrouter'' (reasoning_meta ds) pm | None \<Rightarrow> pm)
      in (if pm \<noteq> [] then [(''providerMetadata'', AMetaMap pm)] else []) @
         (if osCitations s \<noteq> [] then [(''sources'', ASources (citation_sources (osCitations s)))] else []))"

definition openai_finish_chunk :: "openai_state \<Rightarrow> StreamChunk" where
  "openai_finish_chunk s = zero_Chunk\<lparr>scType := ChunkFinish, scUsage := osUsage s, scResponse := osResponse s,
     scMetadata := final_metadata s\<rparr>"

definition unresolved_error :: go_error where
  "unresolved_error = ErrMsg ''tool call arguments received but tool name/id never resolved''"

definition openai_end :: "go_error option \<Rightarrow> openai_step" where
  "openai_end err s =
     (case err of
        Some e \<Rightarrow> emit_return (err_chunk (ErrWrap (''reading stream: '' @ error_text e) e)) s
      | None \<Rightarrow>
          and_then (finalize_tools False s) (\<lambda>s.
            if list_ex (\<lambda>(idx, a). \<not> atStarted a) (osTools s) then emit_return (err_chunk unresolved_error) s
            else
              and_then
                (case rdDetails (osDetails s) of
                   Some ds \<Rightarrow> emit (zero_Chunk\<lparr>scType := ChunkReasoning,
                                 scMetadata := [(''openrouter'', AMap (reasoning_meta ds))]\<rparr>) s
                 | None \<Rightarrow> (True, s))
                (\<lambda>s. emit_return (openai_finish_chunk s) s)))"

fun openai_loop :: "openai_env \<Rightarrow> string list \<times> go_error option \<Rightarrow> openai_step" where
  "openai_loop env ([], err) s = openai_end err s"
| "openai_loop env (data # ds, err) s = and_then (openai_data env data s) (openai_loop env (ds, err))"

definition ParseStream :: "openai_env \<Rightarrow> Scanner \<Rightarrow> sink \<Rightarrow> sink" where
  "ParseStream env scanner out = emOut (snd (openai_loop env (scan_payloads scanner) (openai_start out)))"

section \<open>Whole answers\<close>

definition response_tool_call :: "tool_fragment \<Rightarrow> string \<Rightarrow> ToolCall" where
  "response_tool_call tc tid = \<lparr>tcID = tid, tcName = tfName tc, tcInput = tfArguments tc, tcMetadata = []\<rparr>"

fun response_tool_calls :: "openai_env \<Rightarrow> nat \<Rightarrow> tool_fragment list \<Rightarrow> ToolCall list" where
  "response_tool_calls env n [] = []"
| "response_tool_calls env n (tc # tcs) =
     (if tfID tc = [] then response_tool_call tc (oeToolCallID env n) # response_tool_calls env (Suc n) tcs
      else response_tool_call tc (tfID tc) # response_tool_calls env n tcs)"

definition zero_result :: GenerateResult where
  "zero_result = \<lparr>grContent = None, grText = [], grReasoning = [], grReasoningParts = [], grToolCalls = [],
     grSources = [], grFinishReason = FinishNone, grUsage = zero_Usage, grResponse = zero_Response,
     grProviderMetadata = []\<rparr>"

definition response_reasoning :: "choice \<Rightarrow> string" where
  "response_reasoning ch =
     (let r = (if chReasoningContent ch \<noteq> [] then chReasoningContent ch else chReasoning ch) in
      case chReasoningDetails ch of
        None \<Rightarrow> r
      | Some ds \<Rightarrow> if r = [] then reasoningDetailsText ds else r)"

definition response_choice :: "openai_env \<Rightarrow> choice \<Rightarrow> GenerateResult \<Rightarrow> GenerateResult" where
  "response_choice env ch result =
     (let reasoning = response_reasoning ch in
      result\<lparr>grText := extractTextContent env (chContent ch), grReasoning := reasoning,
        grReasoningParts := (case chReasoningDetails ch of
            None \<Rightarrow> []
          | Some ds \<Rightarrow> [zero_Part\<lparr>pType := PartReasoning, pText := reasoning,
                         pProviderOptions := [(''openrouter'', AMap (reasoning_meta ds))]\<rparr>]),
        grProviderMetadata := (case chReasoningDetails ch of
            None \<Rightarrow> [] | Some ds \<Rightarrow> [(''openrouter'', reasoning_meta ds)]),
        grFinishReason := openai_finish_reason (chFinishReason ch),
        grToolCalls := response_tool_calls env 0 (chToolCalls ch),
        grSources := annotation_sources (chAnnotations ch)\<rparr>)"

definition ParseResponse :: "openai_env \<Rightarrow> string \<Rightarrow> go_error + GenerateResult" where
  "ParseResponse env body =
     (case oeDecode env body of
        Inl err \<Rightarrow> Inl (ErrWrap (''parsing response: '' @ error_text err) err)
      | Inr resp \<Rightarrow>
          let result = zero_result\<lparr>grResponse := zero_Response\<lparr>rID := srID resp, rModel := srModel resp\<rparr>\<rparr>;
              result = (case srChoices resp of [] \<Rightarrow> result | ch # _ \<Rightarrow> response_choice env ch result);
              meta = (case srChoices resp of [] \<Rightarrow> [] | ch # _ \<Rightarrow> logprobs_meta env (chLogprobs ch) []);
              result = result\<lparr>grSources := grSources result @ citation_sources (srCitations resp)\<rparr>;
              result = (case srUsage resp of None \<Rightarrow> result | Some u \<Rightarrow> result\<lparr>grUsage := normalized_usage u zero_Usage\<rparr>);
              meta = (case srUsage resp of None \<Rightarrow> meta | Some u \<Rightarrow> prediction_meta u meta)
          in Inr (if meta \<noteq> []
                  then result\<lparr>grProviderMetadata := AList.update ''openai'' meta (grProviderMetadata result)\<rparr>
                  else result))"

end
