(* ===== verification/OpenAiFacts.thy ===== *)
theory OpenAiFacts
  imports OpenAiStream
begin

text \<open>
  The chunks of an OpenAI-compatible stream: how they end, what the step drain makes of the finish reason,
  and that interleaved tool-call fragments are reassembled per index.
\<close>

section \<open>The end of the chunks\<close>

lemma openai_inner [simp]:
  "inner_chunk (text_chunk_of t)" "inner_chunk (reasoning_chunk_of t)" "inner_chunk (source_chunk c)"
  "typ \<noteq> ChunkFinish \<Longrightarrow> typ \<noteq> ChunkError \<Longrightarrow> inner_chunk (tool_chunk typ a input)"
  "inner_chunk (zero_Chunk\<lparr>scType := ChunkStepFinish, scFinishReason := r\<rparr>)"
  "inner_chunk (zero_Chunk\<lparr>scType := ChunkReasoning, scMetadata := m\<rparr>)"
  "last_chunk (err_chunk e)" "last_chunk (openai_finish_chunk s)"
  by (simp_all add: inner_chunk_def last_chunk_def text_chunk_of_def reasoning_chunk_of_def source_chunk_def
      tool_chunk_def err_chunk_def openai_finish_chunk_def)

lemma start_out [simp]: "emOut (openai_start out) = out"
  by (simp add: openai_start_def)

lemma capture_out [simp]:
  "emOut (capture_response resp s) = emOut s" "emOut (capture_usage resp s) = emOut s"
  "emOut (put_tool i a s) = emOut s" "emOut (snd (name_tool env tc s)) = emOut s"
  by (simp_all add: capture_response_def capture_usage_def put_tool_def name_tool_def Let_def split: option.split)

lemmas emit_steps = reached_step [OF sends_emit] reached_step [OF sends_emit_return]

lemma sends_citations: "sends (add_citations cs)"
proof (induction cs)
  case Nil
  show ?case by (simp add: sends_reached reached_same)
next
  case (Cons c cs)
  show ?case
    by (auto simp: sends_reached intro!: emit_steps reached_step [OF Cons])
qed

lemma sends_reasoning_text: "sends (emit_reasoning ch)" "sends (emit_text env ch)"
  unfolding sends_reached emit_reasoning_def emit_text_def Let_def
  by (safe intro!: reached_if reached_same emit_steps openai_inner)

lemma sends_start_tool: "sends (start_tool idx a)"
  unfolding sends_reached start_tool_def Let_def
  by (safe intro!: reached_then reached_if reached_same emit_steps openai_inner) simp_all

lemma sends_add_arguments: "sends (add_arguments idx args)"
  unfolding sends_reached add_arguments_def Let_def
  by (safe intro!: reached_then reached_if reached_same emit_steps openai_inner) simp_all

lemma sends_fragment: "sends (tool_fragment_step env tc)"
  unfolding sends_reached tool_fragment_step_def split_beta
  by (safe intro!: reached_then reached_step [OF sends_start_tool] reached_step [OF sends_add_arguments]) simp_all

lemma sends_finalize: "sends (finalize_tool b idx)" "sends (finalize_tools b)"
proof -
  show f: "sends (finalize_tool b idx)" for idx
    unfolding sends_reached finalize_tool_def Let_def
    by (safe intro!: reached_then reached_if reached_same emit_steps openai_inner) simp_all
  show "sends (finalize_tools b)"
    using sends_each [of "finalize_tool b"] f by (auto simp: sends_reached finalize_tools_def)
qed

lemma sends_finish_step: "sends (finish_step reason)"
  unfolding sends_reached finish_step_def
  by (safe intro!: reached_then reached_if reached_same emit_steps openai_inner reached_step [OF sends_finalize(2)])

lemma sends_choice: "sends (choice_step env ch)"
proof -
  have "sends (choice_body env ch)"
    unfolding sends_reached choice_body_def split_beta Let_def
    by (safe intro!: reached_then reached_option reached_step [OF sends_reasoning_text(1)]
          reached_step [OF sends_reasoning_text(2)] reached_step [OF sends_each [OF sends_emit]]
          reached_step [OF sends_each [OF sends_fragment]] emit_steps openai_inner)
       simp_all
  then show ?thesis
    unfolding choice_step_def sends_reached by (auto intro!: reached_then reached_step [OF sends_finish_step])
qed

lemma sends_response: "sends (response_step env resp)"
  unfolding sends_reached response_step_def
  by (cases "srChoices resp")
     (auto intro!: reached_then reached_same reached_step [OF sends_citations] reached_step [OF sends_choice])

lemma sends_openai_data: "sends (openai_data env data)"
  by (auto simp: sends_reached openai_data_def intro!: emit_steps reached_same reached_step [OF sends_response]
      split: option.split sum.split)

lemma sends_end: "sends (openai_end err)"
  unfolding sends_reached openai_end_def
  by (safe intro!: reached_then reached_if reached_option reached_same emit_steps openai_inner
        reached_step [OF sends_finalize(2)])

lemma sends_loop: "sends (openai_loop env (ds, err))"
proof (induction ds)
  case Nil
  then show ?case
    by (simp add: sends_reached reached_step [OF sends_end])
next
  case (Cons d ds)
  then show ?case
    by (auto simp: sends_reached intro!: reached_then reached_step [OF sends_openai_data] reached_step [OF Cons])
qed

lemma returns_then: "(\<And>s. \<not> fst (k s)) \<Longrightarrow> \<not> fst (and_then r k)"
  by (simp add: and_then_def)

lemma returns_emit: "\<not> fst (emit_return c s)"
  by (simp add: emit_return_def)

lemma openai_end_returns: "\<not> fst (openai_end err s)"
  unfolding openai_end_def
  by (cases err) (simp_all add: returns_emit returns_then)

lemma openai_loop_returns: "\<not> fst (openai_loop env (ds, err) s)"
  by (induction ds arbitrary: s) (simp_all add: openai_end_returns returns_then)

text \<open>
  While the receiver listens, every stream ends with exactly one last chunk: the final chunk, or an error.
\<close>

lemma ParseStream_ends:
  assumes "open_sink out"
  shows "\<exists>cs c. skSent (ParseStream env sc out) = skSent out @ cs @ [c] \<and> list_all inner_chunk cs \<and> last_chunk c"
proof -
  obtain ds err where p: "scan_payloads sc = (ds, err)" by fastforce
  have "reached out (openai_loop env (ds, err) (openai_start out))"
    using reached_step [OF sends_loop, of out "openai_start out"] assms by simp
  then obtain cs where "skSent (ParseStream env sc out) = skSent out @ cs" "good_chunks False cs"
    using openai_loop_returns [of env ds err "openai_start out"]
    by (auto simp: reached_def advances_def ParseStream_def p)
  then show ?thesis
    by (auto simp: good_chunks_def intro!: exI [of _ "butlast cs"] exI [of _ "last cs"])
qed

section \<open>The finish reason\<close>

definition bare_finish :: "StreamChunk \<Rightarrow> bool" where
  "bare_finish c \<longleftrightarrow>
     (scType c = ChunkFinish \<longrightarrow> scFinishReason c = FinishNone) \<and> (scType c = ChunkError \<longrightarrow> scError c \<noteq> None)"

lemma inner_bare [simp]: "inner_chunk c \<Longrightarrow> bare_finish c"
  by (simp add: inner_chunk_def bare_finish_def)

lemma bare_chunks [simp]: "bare_finish (err_chunk e)" "bare_finish (openai_finish_chunk s)"
  by (simp_all add: bare_finish_def err_chunk_def openai_finish_chunk_def zero_Chunk_def)

abbreviation bare :: "openai_step \<Rightarrow> bool" where "bare \<equiv> only_sends bare_finish"

lemmas bare_rules = sent_only_then sent_only_if sent_only_option sent_only_emit sent_only_emit_return

lemma bare_citations: "bare (add_citations cs)"
proof (induction cs)
  case (Cons c cs)
  show ?case
    by (auto simp: only_sends_sent intro!: sent_only_emit_return sent_only_step [OF Cons])
qed (simp add: only_sends_def)

lemma bare_steps:
  "bare (emit_reasoning ch)" "bare (emit_text env ch)" "bare (start_tool idx a)" "bare (add_arguments idx args)"
  "bare (finalize_tool b idx)"
  unfolding only_sends_sent emit_reasoning_def emit_text_def start_tool_def add_arguments_def finalize_tool_def Let_def
  by (safe intro!: bare_rules sent_only_same) simp_all

lemma bare_fragment: "bare (tool_fragment_step env tc)"
  unfolding only_sends_sent tool_fragment_step_def split_beta
  by (safe intro!: bare_rules sent_only_step [OF bare_steps(3)] sent_only_step [OF bare_steps(4)]) simp_all

lemma bare_finalize: "bare (finalize_tools b)"
  using only_sends_each [of bare_finish "finalize_tool b", OF bare_steps(5)]
  by (simp add: only_sends_def finalize_tools_def)

lemma bare_finish_step: "bare (finish_step reason)"
  unfolding only_sends_sent finish_step_def
  by (safe intro!: bare_rules sent_only_same sent_only_step [OF bare_finalize]) simp_all

lemma bare_sources: "bare (each_step (\<lambda>c. emit (source_chunk c)) xs)"
  by (rule only_sends_each) (simp add: only_sends_sent sent_only_emit)

lemma bare_choice: "bare (choice_step env ch)"
proof -
  have "bare (choice_body env ch)"
    unfolding only_sends_sent choice_body_def split_beta Let_def
    by (safe intro!: bare_rules sent_only_step [OF bare_steps(1)] sent_only_step [OF bare_steps(2)]
          sent_only_step [OF bare_sources] sent_only_step [OF only_sends_each [OF bare_fragment]]) simp_all
  then show ?thesis
    unfolding choice_step_def only_sends_sent by (auto intro!: sent_only_then sent_only_step [OF bare_finish_step])
qed

lemma bare_data: "bare (openai_data env data)"
proof -
  have "bare (response_step env resp)" for resp
    unfolding only_sends_sent response_step_def
    by (cases "srChoices resp")
       (auto intro!: sent_only_then sent_only_same sent_only_step [OF bare_citations] sent_only_step [OF bare_choice])
  then show ?thesis
    by (auto simp: only_sends_sent openai_data_def intro!: sent_only_emit_return sent_only_same
        split: option.split sum.split)
qed

lemma bare_end: "bare (openai_end err)"
  unfolding only_sends_sent openai_end_def
  by (safe intro!: bare_rules sent_only_same sent_only_step [OF bare_finalize]) simp_all

lemma bare_loop: "bare (openai_loop env (ds, err))"
proof (induction ds)
  case Nil
  then show ?case
    using bare_end [of err] by (simp add: only_sends_def)
next
  case (Cons d ds)
  show ?case
    by (auto simp: only_sends_sent intro!: sent_only_then sent_only_step [OF bare_data] sent_only_step [OF Cons])
qed

lemma ParseStream_bare: "\<exists>cs. skSent (ParseStream env sc out) = skSent out @ cs \<and> list_all bare_finish cs"
proof -
  obtain ds err where p: "scan_payloads sc = (ds, err)" by fastforce
  show ?thesis
    using sent_only_step [OF bare_loop, of "openai_start out" out env ds err]
    by (simp add: sent_only_def ParseStream_def p)
qed

text \<open>
  C21: the finish reason of a streamed OpenAI-compatible answer is lost: the reader sends it with a
  \<open>ChunkStepFinish\<close> and closes the stream with a \<open>ChunkFinish\<close> that carries none, and the step drain takes the
  reason of the last of them; so every step that is drained without an error, whatever reason the provider
  gave, ends with the empty finish reason.
\<close>

theorem openai_finish_reason_lost:
  assumes "open_sink consumer"
    and "drainStep (skSent (ParseStream env sc new_sink)) consumer = (dr, consumer')"
    and "drErr dr = None"
  shows "drFinishReason dr = FinishNone"
proof -
  let ?cs = "skSent (ParseStream env sc new_sink)"
  obtain cs c where cs: "?cs = cs @ [c]" "list_all inner_chunk cs" "last_chunk c"
    using ParseStream_ends [OF open_new_sink, of env sc] by (auto simp: new_sink_def)
  have bare: "bare_finish c"
    using ParseStream_bare [of env sc new_sink] cs(1) by (auto simp: new_sink_def)
  have dr: "dr = drain_finish (drained ?cs)"
    using assms(1,2) by (auto simp: drainStep_def drain_loop_open drained_def)
  then have "last_or None scError (of_type ChunkError ?cs) = None"
    using assms(3) by (simp add: drained_err)
  then have "scType c = ChunkFinish"
    using cs(3) bare by (auto simp: cs(1) last_chunk_def bare_finish_def split: if_splits)
  then show ?thesis
    using bare unfolding dr
    by (simp add: cs(1) drain_chunk_def take_metadata_def bare_finish_def)
qed

definition length_answer :: streamResponse where
  "length_answer = \<lparr>srID = [], srModel = [],
     srChoices = [\<lparr>chContent = ''a'', chReasoningContent = [], chReasoning = [], chReasoningDetails = None,
       chToolCalls = [], chAnnotations = [], chLogprobs = None, chFinishReason = ''length''\<rparr>],
     srCitations = [], srUsage = None\<rparr>"

definition sample_env :: openai_env where
  "sample_env = \<lparr>oeDecode = (\<lambda>_. Inr length_answer), oeError = (\<lambda>_. None), oeAny = (\<lambda>_. None),
     oeString = Some, oeTextParts = (\<lambda>_. None), oeMarshal = (\<lambda>_. Inr []), oeToolCallID = show_nat\<rparr>"

definition sample_body :: reader where
  "sample_body = [(encode_events [([], [''x''])], None)]"

theorem openai_finish_reason_lost_witness:
  "let cs = skSent (ParseStream sample_env (NewScanner sample_body) new_sink); dr = fst (drainStep cs new_sink)
   in (\<exists>c \<in> set cs. scType c = ChunkStepFinish \<and> scFinishReason c = FinishLength) \<and> drFinishReason dr = FinishNone"
proof -
  have ne: "encode_events [([], [''x''])] \<noteq> []"
    by (simp add: encode_events_def unlines_def event_lines_def)
  have scan: "scan_payloads (NewScanner sample_body) = ([''x''], None)"
    using scan_encoded_end [of sample_body "[([], [''x''])]"] ne
    by (simp add: sample_body_def steady_def event_ok_def line_ok_def MaxLineSize_def MaxEventSize_def)
  have chunks: "skSent (ParseStream sample_env (NewScanner sample_body) new_sink) =
      [text_chunk_of ''a'', zero_Chunk\<lparr>scType := ChunkStepFinish, scFinishReason := FinishLength\<rparr>,
       zero_Chunk\<lparr>scType := ChunkFinish\<rparr>]"
    by (simp add: ParseStream_def scan openai_data_def sample_env_def ClassifyStreamError_def ParseStreamError_def
        response_step_def capture_usage_def capture_response_def length_answer_def choice_step_def choice_body_def
        add_reasoning_details_def openai_start_def emit_reasoning_def reasoningDetailsText_def emit_text_def
        extractTextContent_def emit_open and_then_def logprobs_meta_def annotation_sources_def finish_step_def
        openai_end_def finalize_tools_def emit_return_def openai_finish_chunk_def final_metadata_def new_sink_def
        open_sink_def openai_finish_reason_def zero_Chunk_def)
  then have "drErr (fst (drainStep (skSent (ParseStream sample_env (NewScanner sample_body) new_sink)) new_sink)) = None"
    by (simp add: drainStep_def drain_loop_open drained_err drained_def drain_chunk_def take_metadata_def
        text_chunk_of_def zero_Chunk_def)
  from openai_finish_reason_lost [OF open_new_sink prod.collapse [symmetric] this] chunks show ?thesis
    by (simp add: Let_def zero_Chunk_def)
qed

end
