(* ===== verification/OpenAiTools.thy ===== *)
theory OpenAiTools
  imports OpenAiFacts
begin

text \<open>
  Tool calls in an OpenAI-compatible stream arrive as fragments, interleaved by index and spread over events:
  the reader collects them per index and sends each complete call once.
\<close>

section \<open>Reassembling tool calls\<close>

text \<open>What the fragments of a stream say about the call at an index.\<close>

definition parts_of :: "int \<Rightarrow> tool_fragment list \<Rightarrow> tool_fragment list" where
  "parts_of idx fs = filter (\<lambda>f. tfIndex f = idx) fs"

definition call_id :: "int \<Rightarrow> tool_fragment list \<Rightarrow> string" where
  "call_id idx fs = tfID (hd (parts_of idx fs))"

definition call_name :: "int \<Rightarrow> tool_fragment list \<Rightarrow> string" where
  "call_name idx fs = last (filter (\<lambda>n. n \<noteq> []) (map tfName (parts_of idx fs)))"

definition call_arguments :: "int \<Rightarrow> tool_fragment list \<Rightarrow> string" where
  "call_arguments idx fs = concat (map tfArguments (parts_of idx fs))"

definition fragment_indices :: "tool_fragment list \<Rightarrow> int list" where
  "fragment_indices fs = sort (remdups (map tfIndex fs))"

definition call_chunk :: "tool_fragment list \<Rightarrow> int \<Rightarrow> StreamChunk" where
  "call_chunk fs idx =
     zero_Chunk\<lparr>scType := ChunkToolCall, scToolCallID := call_id idx fs, scToolName := call_name idx fs,
       scToolInput := call_arguments idx fs\<rparr>"

text \<open>The first fragment of an index carries identifier and name, and no call exceeds the limit.\<close>

definition opens_call :: "tool_fragment \<Rightarrow> bool" where
  "opens_call f \<longleftrightarrow> tfID f \<noteq> [] \<and> tfName f \<noteq> []"

definition well_formed_fragments :: "tool_fragment list \<Rightarrow> bool" where
  "well_formed_fragments fs \<longleftrightarrow>
     list_all (\<lambda>idx. opens_call (hd (parts_of idx fs)) \<and> length (call_arguments idx fs) \<le> maxToolCallArgsBytes)
       (map tfIndex fs)"

definition collected :: "tool_fragment list \<Rightarrow> int \<Rightarrow> activeToolCall" where
  "collected fs idx = \<lparr>atID = call_id idx fs, atName = call_name idx fs, atArgs = call_arguments idx fs,
     atSize = length (call_arguments idx fs), atStarted = True\<rparr>"

definition tracks :: "tool_fragment list \<Rightarrow> (int \<times> activeToolCall) list \<Rightarrow> bool" where
  "tracks fs tools \<longleftrightarrow> distinct (map fst tools) \<and>
     (\<forall>idx. map_of tools idx = (if idx \<in> tfIndex ` set fs then Some (collected fs idx) else None))"

lemma parts_of_snoc: "parts_of idx (fs @ [f]) = parts_of idx fs @ (if tfIndex f = idx then [f] else [])"
  by (simp add: parts_of_def)

lemma parts_of_empty: "parts_of idx fs = [] \<longleftrightarrow> idx \<notin> tfIndex ` set fs"
  by (auto simp: parts_of_def filter_empty_conv)

lemma well_formed_front:
  assumes "well_formed_fragments (fs @ [f])"
  shows "well_formed_fragments fs"
proof -
  have "opens_call (hd (parts_of idx fs)) \<and> length (call_arguments idx fs) \<le> maxToolCallArgsBytes"
    if "idx \<in> tfIndex ` set fs" for idx
  proof -
    have "opens_call (hd (parts_of idx (fs @ [f]))) \<and> length (call_arguments idx (fs @ [f])) \<le> maxToolCallArgsBytes"
      using assms that by (auto simp: well_formed_fragments_def list_all_iff)
    moreover have "parts_of idx fs \<noteq> []"
      using that by (simp add: parts_of_empty)
    ultimately show ?thesis
      by (simp add: parts_of_snoc call_arguments_def)
  qed
  then show ?thesis
    by (auto simp: well_formed_fragments_def list_all_iff)
qed

lemma well_formed_prefix: "well_formed_fragments (fs @ gs) \<Longrightarrow> well_formed_fragments fs"
proof (induction gs rule: rev_induct)
  case (snoc g gs)
  then show ?case using well_formed_front [of "fs @ gs" g] by simp
qed simp

text \<open>What consumers see of the chunks sent so far: the text and the complete calls.\<close>

definition sent_text :: "sink \<Rightarrow> string" where
  "sent_text out = concat (map scText (of_type ChunkText (skSent out)))"

definition sent_calls :: "sink \<Rightarrow> StreamChunk list" where
  "sent_calls out = of_type ChunkToolCall (skSent out)"

lemma sent_push [simp]:
  "sent_text (push cs out) = sent_text out @ concat (map scText (of_type ChunkText cs))"
  "sent_calls (push cs out) = sent_calls out @ of_type ChunkToolCall cs"
  by (simp_all add: sent_text_def sent_calls_def)

text \<open>A run that goes on, sends the text \<open>t\<close> and no complete call, and leaves the rest of the state alone.\<close>

definition silent :: "string \<Rightarrow> openai_state \<Rightarrow> bool \<times> openai_state \<Rightarrow> bool" where
  "silent t s r \<longleftrightarrow> fst r \<and> open_sink (emOut (snd r)) \<and> osTools (snd r) = osTools s \<and> osDetails (snd r) = osDetails s \<and>
     osCitationsSize (snd r) = osCitationsSize s \<and> sent_text (emOut (snd r)) = sent_text (emOut s) @ t \<and>
     sent_calls (emOut (snd r)) = sent_calls (emOut s)"

lemma silent_emit:
  "open_sink (emOut s) \<Longrightarrow> scType c \<noteq> ChunkToolCall \<Longrightarrow>
     silent (if scType c = ChunkText then scText c else []) s (emit c s)"
  by (simp add: silent_def emit_push)

lemma silent_refl: "open_sink (emOut s) \<Longrightarrow> silent [] s (True, s)"
  by (simp add: silent_def)

lemma silent_then:
  assumes "silent t s r" "\<And>s'. open_sink (emOut s') \<Longrightarrow> silent u s' (k s')"
  shows "silent (t @ u) s (and_then r k)"
  using assms(1) assms(2) [of "snd r"] by (simp add: silent_def and_then_def)

lemma collected_other: "tfIndex f \<noteq> idx \<Longrightarrow> collected (fs @ [f]) idx = collected fs idx"
  by (simp add: collected_def call_id_def call_name_def call_arguments_def parts_of_snoc)

lemma collected_new:
  assumes "tfIndex f \<notin> tfIndex ` set fs" "opens_call f"
  shows "collected (fs @ [f]) (tfIndex f) = \<lparr>atID = tfID f, atName = tfName f, atArgs = tfArguments f,
    atSize = length (tfArguments f), atStarted = True\<rparr>"
proof -
  have "parts_of (tfIndex f) fs = []"
    using assms(1) by (simp add: parts_of_empty)
  then show ?thesis
    using assms(2)
    by (simp add: collected_def call_id_def call_name_def call_arguments_def parts_of_snoc opens_call_def)
qed

lemma call_name_snoc:
  assumes "parts_of (tfIndex f) fs \<noteq> []"
  shows "call_name (tfIndex f) (fs @ [f]) = (if tfName f \<noteq> [] then tfName f else call_name (tfIndex f) fs)"
  by (simp add: call_name_def parts_of_snoc)

lemma collected_old:
  assumes "tfIndex f \<in> tfIndex ` set fs"
  shows "collected (fs @ [f]) (tfIndex f) =
    (collected fs (tfIndex f))
      \<lparr>atName := if tfName f \<noteq> [] then tfName f else atName (collected fs (tfIndex f)),
       atArgs := atArgs (collected fs (tfIndex f)) @ tfArguments f,
       atSize := atSize (collected fs (tfIndex f)) + length (tfArguments f)\<rparr>"
proof -
  have "parts_of (tfIndex f) fs \<noteq> []"
    using assms by (simp add: parts_of_empty)
  then show ?thesis
    by (simp add: collected_def call_id_def call_arguments_def call_name_snoc parts_of_snoc)
qed

text \<open>The same for a run that changes the table entry at one index.\<close>

definition updates :: "int \<Rightarrow> activeToolCall \<Rightarrow> openai_state \<Rightarrow> bool \<times> openai_state \<Rightarrow> bool" where
  "updates idx a s r \<longleftrightarrow> fst r \<and> open_sink (emOut (snd r)) \<and>
     osDetails (snd r) = osDetails s \<and> osCitationsSize (snd r) = osCitationsSize s \<and>
     sent_text (emOut (snd r)) = sent_text (emOut s) \<and> sent_calls (emOut (snd r)) = sent_calls (emOut s) \<and>
     map_of (osTools (snd r)) = (map_of (osTools s))(idx \<mapsto> a) \<and>
     (distinct (map fst (osTools s)) \<longrightarrow> distinct (map fst (osTools (snd r))))"

lemma put_tool_simps [simp]:
  "osTools (put_tool i a s) = AList.update i a (osTools s)" "osDetails (put_tool i a s) = osDetails s"
  "osCitationsSize (put_tool i a s) = osCitationsSize s"
  by (simp_all add: put_tool_def)

lemma updates_put: "open_sink (emOut s) \<Longrightarrow> updates idx a s (True, put_tool idx a s)"
  by (simp add: updates_def update_conv' distinct_update)

lemma updates_then:
  assumes "updates idx a s r"
    and "\<And>s'. open_sink (emOut s') \<Longrightarrow> map_of (osTools s') idx = Some a \<Longrightarrow> updates idx b s' (k s')"
  shows "updates idx b s (and_then r k)"
  using assms(1) assms(2) [of "snd r"] by (simp add: updates_def and_then_def)

lemma updates_silent: "silent [] s r \<Longrightarrow> map_of (osTools s) idx = Some a \<Longrightarrow> updates idx a s r"
  by (simp add: silent_def updates_def fun_upd_idem)

lemma tool_chunk_type [simp]:
  "scType (tool_chunk typ a x) = typ"
  by (simp add: tool_chunk_def)

lemma silent_tool_chunk:
  "open_sink (emOut s) \<Longrightarrow> typ \<noteq> ChunkToolCall \<Longrightarrow> typ \<noteq> ChunkText \<Longrightarrow> silent [] s (emit (tool_chunk typ a x) s)"
  using silent_emit [of s "tool_chunk typ a x"] by simp

lemma add_arguments_updates:
  assumes "open_sink (emOut s)" "map_of (osTools s) idx = Some a" "atStarted a" "atSize a + length args \<le> maxToolCallArgsBytes"
  shows "updates idx (a\<lparr>atArgs := atArgs a @ args, atSize := atSize a + length args\<rparr>) s (add_arguments idx args s)"
proof (cases "args = []")
  case True
  then show ?thesis
    using assms updates_silent [OF silent_refl] by (simp add: add_arguments_def)
next
  case False
  let ?a = "a\<lparr>atArgs := atArgs a @ args, atSize := atSize a + length args\<rparr>"
  have "updates idx ?a s (emit (tool_chunk ChunkToolCallDelta ?a args) (put_tool idx ?a s))"
    using updates_then [OF updates_put [OF assms(1)], of idx ?a ?a "emit (tool_chunk ChunkToolCallDelta ?a args)"]
      updates_silent [OF silent_tool_chunk] by (simp add: and_then_def)
  moreover have "add_arguments idx args s = emit (tool_chunk ChunkToolCallDelta ?a args) (put_tool idx ?a s)"
    using assms False by (simp add: add_arguments_def tool_at_def Let_def)
  ultimately show ?thesis
    by simp
qed

lemma fragment_new:
  assumes "open_sink (emOut s)" "map_of (osTools s) (tfIndex tc) = None" "opens_call tc"
    "length (tfArguments tc) \<le> maxToolCallArgsBytes"
  shows "updates (tfIndex tc) \<lparr>atID = tfID tc, atName = tfName tc, atArgs = tfArguments tc,
    atSize = length (tfArguments tc), atStarted = True\<rparr> s (tool_fragment_step env tc s)"
proof -
  let ?a0 = "\<lparr>atID = tfID tc, atName = tfName tc, atArgs = [], atSize = 0, atStarted = False\<rparr>"
  let ?a1 = "?a0\<lparr>atStarted := True\<rparr>"
  let ?i = "tfIndex tc"
  have nt: "name_tool env tc s = (?a0, put_tool ?i ?a0 s)"
    using assms(2,3) by (simp add: name_tool_def zero_tool_def opens_call_def Let_def)
  have st: "updates ?i ?a1 s (start_tool ?i ?a0 (put_tool ?i ?a0 s))"
  proof -
    have "updates ?i ?a0 s (and_then (True, put_tool ?i ?a0 s) (emit (tool_chunk ChunkToolCallStreamStart ?a0 [])))"
      using updates_put [OF assms(1)] by (rule updates_then) (simp add: updates_silent silent_tool_chunk)
    then have e: "updates ?i ?a0 s (emit (tool_chunk ChunkToolCallStreamStart ?a0 []) (put_tool ?i ?a0 s))"
      by (simp add: and_then_def)
    have "updates ?i ?a1 s (and_then (emit (tool_chunk ChunkToolCallStreamStart ?a0 []) (put_tool ?i ?a0 s))
        (\<lambda>s. (True, put_tool ?i ?a1 s)))"
      using e by (rule updates_then) (rule updates_put)
    then show ?thesis
      using assms(3) by (simp add: start_tool_def opens_call_def)
  qed
  have "updates ?i (?a1\<lparr>atArgs := tfArguments tc, atSize := length (tfArguments tc)\<rparr>) s
      (and_then (start_tool ?i ?a0 (put_tool ?i ?a0 s)) (add_arguments ?i (tfArguments tc)))"
    using st
  proof (rule updates_then)
    fix s' :: openai_state
    assume "open_sink (emOut s')" "map_of (osTools s') ?i = Some ?a1"
    then show "updates ?i (?a1\<lparr>atArgs := tfArguments tc, atSize := length (tfArguments tc)\<rparr>) s'
        (add_arguments ?i (tfArguments tc) s')"
      using add_arguments_updates [of s' ?i ?a1 "tfArguments tc"] assms(4) by simp
  qed
  then show ?thesis
    by (simp add: tool_fragment_step_def nt)
qed

lemma fragment_old:
  assumes "open_sink (emOut s)" "map_of (osTools s) (tfIndex tc) = Some a" "atStarted a" "atID a \<noteq> []"
    "atSize a + length (tfArguments tc) \<le> maxToolCallArgsBytes"
  shows "updates (tfIndex tc)
    (a\<lparr>atName := if tfName tc \<noteq> [] then tfName tc else atName a, atArgs := atArgs a @ tfArguments tc,
       atSize := atSize a + length (tfArguments tc)\<rparr>) s (tool_fragment_step env tc s)"
proof -
  let ?a1 = "a\<lparr>atName := if tfName tc \<noteq> [] then tfName tc else atName a\<rparr>"
  let ?i = "tfIndex tc"
  have nt: "name_tool env tc s = (?a1, put_tool ?i ?a1 s)"
    using assms(2-4) by (simp add: name_tool_def Let_def)
  have st: "start_tool ?i ?a1 (put_tool ?i ?a1 s) = (True, put_tool ?i ?a1 s)"
    using assms(3) by (simp add: start_tool_def)
  have "updates ?i (?a1\<lparr>atArgs := atArgs a @ tfArguments tc, atSize := atSize a + length (tfArguments tc)\<rparr>) s
      (and_then (True, put_tool ?i ?a1 s) (add_arguments ?i (tfArguments tc)))"
    using updates_put [OF assms(1)]
  proof (rule updates_then)
    fix s' :: openai_state
    assume "open_sink (emOut s')" "map_of (osTools s') ?i = Some ?a1"
    then show "updates ?i (?a1\<lparr>atArgs := atArgs a @ tfArguments tc, atSize := atSize a + length (tfArguments tc)\<rparr>) s'
        (add_arguments ?i (tfArguments tc) s')"
      using add_arguments_updates [of s' ?i ?a1 "tfArguments tc"] assms(3,5) by simp
  qed
  then show ?thesis
    by (simp add: tool_fragment_step_def nt st)
qed

lemma fragment_collected:
  assumes "open_sink (emOut s)" "tracks fs (osTools s)" "well_formed_fragments (fs @ [tc])"
  shows "updates (tfIndex tc) (collected (fs @ [tc]) (tfIndex tc)) s (tool_fragment_step env tc s)"
proof -
  have wf: "opens_call (hd (parts_of (tfIndex tc) (fs @ [tc])))"
      "length (call_arguments (tfIndex tc) (fs @ [tc])) \<le> maxToolCallArgsBytes"
    using assms(3) by (simp_all add: well_formed_fragments_def)
  show ?thesis
  proof (cases "tfIndex tc \<in> tfIndex ` set fs")
    case True
    then have old: "map_of (osTools s) (tfIndex tc) = Some (collected fs (tfIndex tc))" "parts_of (tfIndex tc) fs \<noteq> []"
      using assms(2) by (simp_all add: tracks_def parts_of_empty)
    then have "call_id (tfIndex tc) fs \<noteq> []"
      using wf(1) by (simp add: call_id_def opens_call_def parts_of_snoc)
    then have "atStarted (collected fs (tfIndex tc))" "atID (collected fs (tfIndex tc)) \<noteq> []"
        "atSize (collected fs (tfIndex tc)) + length (tfArguments tc) \<le> maxToolCallArgsBytes"
      using wf(2) by (simp_all add: collected_def call_arguments_def parts_of_snoc)
    then show ?thesis
      unfolding collected_old [OF True] by (rule fragment_old [OF assms(1) old(1)])
  next
    case False
    then have "opens_call tc"
      using wf(1) by (simp add: parts_of_snoc parts_of_empty [symmetric])
    moreover have "length (tfArguments tc) \<le> maxToolCallArgsBytes"
      using wf(2) by (simp add: call_arguments_def parts_of_snoc)
    moreover have "map_of (osTools s) (tfIndex tc) = None"
      using False assms(2) by (simp add: tracks_def)
    ultimately show ?thesis
      using fragment_new [OF assms(1)] by (simp add: collected_new [OF False])
  qed
qed

lemma tracks_snoc:
  assumes "tracks fs tools" "map_of tools' = (map_of tools)(tfIndex tc \<mapsto> collected (fs @ [tc]) (tfIndex tc))"
    "distinct (map fst tools')"
  shows "tracks (fs @ [tc]) tools'"
  using assms by (auto simp: tracks_def collected_other)

text \<open>A run that goes on, sends the text \<open>t\<close>, no complete call, and has collected the fragments \<open>fs\<close>.\<close>

definition collects :: "tool_fragment list \<Rightarrow> string \<Rightarrow> openai_state \<Rightarrow> bool \<times> openai_state \<Rightarrow> bool" where
  "collects fs t s r \<longleftrightarrow> fst r \<and> open_sink (emOut (snd r)) \<and> tracks fs (osTools (snd r)) \<and>
     osDetails (snd r) = osDetails s \<and> osCitationsSize (snd r) = osCitationsSize s \<and>
     sent_text (emOut (snd r)) = sent_text (emOut s) @ t \<and> sent_calls (emOut (snd r)) = sent_calls (emOut s)"

lemma fragments_collected:
  "open_sink (emOut s) \<Longrightarrow> tracks fs (osTools s) \<Longrightarrow> well_formed_fragments (fs @ tcs) \<Longrightarrow>
     collects (fs @ tcs) [] s (each_step (tool_fragment_step env) tcs s)"
proof (induction tcs arbitrary: fs s)
  case Nil
  then show ?case by (simp add: collects_def)
next
  case (Cons tc tcs)
  have wf: "well_formed_fragments (fs @ [tc])"
    using well_formed_prefix [of "fs @ [tc]" tcs] Cons.prems(3) by simp
  define r where "r = tool_fragment_step env tc s"
  have up: "updates (tfIndex tc) (collected (fs @ [tc]) (tfIndex tc)) s r"
    unfolding r_def using Cons.prems(1,2) wf by (rule fragment_collected)
  then have "tracks (fs @ [tc]) (osTools (snd r))"
    by (intro tracks_snoc [OF Cons.prems(2)]) (use Cons.prems(2) in \<open>simp_all add: updates_def tracks_def\<close>)
  moreover have "open_sink (emOut (snd r))" "fst r"
    using up by (simp_all add: updates_def)
  moreover from calculation have "collects (fs @ tc # tcs) [] (snd r) (each_step (tool_fragment_step env) tcs (snd r))"
    using Cons.IH [of "snd r" "fs @ [tc]"] Cons.prems(3) by simp
  ultimately show ?case
    using up by (simp add: and_then_def collects_def updates_def r_def)
qed

section \<open>Whole events\<close>

lemma silent_sources: "open_sink (emOut s) \<Longrightarrow> silent [] s (each_step (\<lambda>c. emit (source_chunk c)) xs s)"
proof (induction xs arbitrary: s)
  case (Cons c xs)
  have "silent [] s (emit (source_chunk c) s)"
    using silent_emit [OF Cons.prems, of "source_chunk c"] by (simp add: source_chunk_def zero_Chunk_def)
  then have "silent ([] @ []) s (and_then (emit (source_chunk c) s) (each_step (\<lambda>c. emit (source_chunk c)) xs))"
    by (rule silent_then) (rule Cons.IH)
  then show ?case by simp
qed (simp add: silent_refl)

lemma silent_reasoning: "open_sink (emOut s) \<Longrightarrow> silent [] s (emit_reasoning ch s)"
  using silent_emit [of s "reasoning_chunk_of t" for t]
  by (simp add: emit_reasoning_def Let_def silent_refl reasoning_chunk_of_def)

lemma silent_text: "open_sink (emOut s) \<Longrightarrow> silent (extractTextContent env (chContent ch)) s (emit_text env ch s)"
  using silent_emit [of s "text_chunk_of (extractTextContent env (chContent ch))"]
  by (simp add: emit_text_def Let_def silent_refl text_chunk_of_def)

lemma silent_collects:
  assumes "silent t s r" "tracks fs (osTools s)"
    and "\<And>s'. open_sink (emOut s') \<Longrightarrow> tracks fs (osTools s') \<Longrightarrow> collects gs u s' (k s')"
  shows "collects gs (t @ u) s (and_then r k)"
  using assms(1,2) assms(3) [of "snd r"] by (simp add: silent_def collects_def and_then_def)

lemma choice_collected:
  assumes "open_sink (emOut s)" "tracks fs (osTools s)" "well_formed_fragments (fs @ chToolCalls ch)"
    "chReasoningDetails ch = None"
  shows "collects (fs @ chToolCalls ch) (extractTextContent env (chContent ch)) s (choice_body env ch s)"
proof -
  let ?meta = "\<lambda>s. s\<lparr>osMeta := logprobs_meta env (chLogprobs ch) (osMeta s)\<rparr>"
  let ?tail = "\<lambda>s. and_then (each_step (\<lambda>c. emit (source_chunk c)) (annotation_sources (chAnnotations ch)) (?meta s))
      (each_step (tool_fragment_step env) (chToolCalls ch))"
  have tail: "collects (fs @ chToolCalls ch) [] s' (?tail s')"
    if "open_sink (emOut s')" "tracks fs (osTools s')" for s' :: openai_state
  proof -
    have "collects (fs @ chToolCalls ch) ([] @ []) (?meta s') (?tail s')"
      using silent_sources [of "?meta s'"] that assms(3)
      by (intro silent_collects [where fs = fs] fragments_collected) simp_all
    then show ?thesis by (simp add: collects_def)
  qed
  have "collects (fs @ chToolCalls ch) ([] @ extractTextContent env (chContent ch) @ []) s
      (and_then (emit_reasoning ch s) (\<lambda>s. and_then (emit_text env ch s) ?tail))"
    by (intro silent_collects [where fs = fs] silent_reasoning silent_text tail) (use assms in simp_all)
  then show ?thesis
    using assms(4) by (simp add: choice_body_def add_reasoning_details_def)
qed

lemma tracks_indices: "tracks fs tools \<Longrightarrow> sort (map fst tools) = fragment_indices fs"
proof -
  assume t: "tracks fs tools"
  then have "map_of tools idx \<noteq> None \<longleftrightarrow> idx \<in> tfIndex ` set fs" for idx
    by (simp add: tracks_def)
  then have "fst ` set tools = tfIndex ` set fs"
    by (auto simp: map_of_eq_None_iff [symmetric] simp flip: dom_map_of_conv_image_fst)
  then show ?thesis
    using t unfolding fragment_indices_def
    by (intro sorted_distinct_set_unique) (simp_all add: tracks_def)
qed

lemma finalize_run:
  "open_sink (emOut s) \<Longrightarrow> distinct idxs \<Longrightarrow> (\<And>idx. idx \<in> set idxs \<Longrightarrow> map_of (osTools s) idx = Some (collected fs idx)) \<Longrightarrow>
   r = each_step (finalize_tool b) idxs s \<Longrightarrow>
     fst r \<and> open_sink (emOut (snd r)) \<and> osDetails (snd r) = osDetails s \<and> osCitationsSize (snd r) = osCitationsSize s \<and>
     sent_text (emOut (snd r)) = sent_text (emOut s) \<and>
     sent_calls (emOut (snd r)) = sent_calls (emOut s) @ map (call_chunk fs) idxs \<and>
     osTools (snd r) = (if b then fold AList.delete idxs (osTools s) else osTools s)"
proof (induction idxs arbitrary: s)
  case Nil
  then show ?case by simp
next
  case (Cons i idxs)
  let ?t = "if b then AList.delete i (osTools s) else osTools s"
  define s1 where "s1 = s\<lparr>emOut := push [call_chunk fs i] (emOut s), osTools := ?t\<rparr>"
  have m: "map_of (osTools s) i = Some (collected fs i)" and o: "open_sink (emOut s)"
    using Cons.prems by simp_all
  have "atStarted (collected fs i)"
    "tool_chunk ChunkToolCall (collected fs i) (atArgs (collected fs i)) = call_chunk fs i"
    by (simp_all add: tool_chunk_def collected_def call_chunk_def)
  then have run: "finalize_tool b i s = (True, s1)"
    by (simp add: finalize_tool_def tool_at_def m emit_push [OF o] and_then_def s1_def)
  have "map_of (osTools s1) idx = Some (collected fs idx)" if "idx \<in> set idxs" for idx
    using Cons.prems that by (auto simp: s1_def delete_conv')
  moreover have "open_sink (emOut s1)"
    using Cons.prems(1) by (simp add: s1_def)
  moreover have "r = each_step (finalize_tool b) idxs s1"
    using Cons.prems(4) by (simp add: run and_then_def)
  ultimately show ?case
    using Cons.IH [of s1] Cons.prems(2) by (simp add: s1_def call_chunk_def zero_Chunk_def)
qed

lemma finalize_tracked:
  assumes "open_sink (emOut s)" "tracks fs (osTools s)" "r = finalize_tools b s"
  shows "fst r" "open_sink (emOut (snd r))" "osDetails (snd r) = osDetails s"
    "osCitationsSize (snd r) = osCitationsSize s" "sent_text (emOut (snd r)) = sent_text (emOut s)"
    "sent_calls (emOut (snd r)) = sent_calls (emOut s) @ map (call_chunk fs) (fragment_indices fs)"
    "osTools (snd r) = (if b then [] else osTools s)"
proof -
  have set: "set (fragment_indices fs) = tfIndex ` set fs" "distinct (fragment_indices fs)"
    by (simp_all add: fragment_indices_def)
  have "map_of (osTools s) idx = Some (collected fs idx)" if "idx \<in> set (fragment_indices fs)" for idx
    using that set assms(2) by (simp add: tracks_def)
  moreover have "r = each_step (finalize_tool b) (fragment_indices fs) s"
    by (simp add: assms(3) finalize_tools_def tracks_indices [OF assms(2)])
  ultimately have run: "fst r \<and> open_sink (emOut (snd r)) \<and> osDetails (snd r) = osDetails s \<and>
     osCitationsSize (snd r) = osCitationsSize s \<and> sent_text (emOut (snd r)) = sent_text (emOut s) \<and>
     sent_calls (emOut (snd r)) = sent_calls (emOut s) @ map (call_chunk fs) (fragment_indices fs) \<and>
     osTools (snd r) = (if b then fold AList.delete (fragment_indices fs) (osTools s) else osTools s)"
    using finalize_run [OF assms(1) set(2)] by blast
  have "map_of (fold AList.delete ks m) = (\<lambda>k. if k \<in> set ks then None else map_of m k)" for ks and m :: "(int \<times> activeToolCall) list"
    by (induction ks arbitrary: m) (auto simp: delete_conv')
  then have "map_of (fold AList.delete (fragment_indices fs) (osTools s)) = (\<lambda>_. None)"
    using assms(2) set(1) by (auto simp: tracks_def)
  then have "fold AList.delete (fragment_indices fs) (osTools s) = []"
    by (metis map_of_eq_empty_iff)
  with run show "fst r" "open_sink (emOut (snd r))" "osDetails (snd r) = osDetails s"
    "osCitationsSize (snd r) = osCitationsSize s" "sent_text (emOut (snd r)) = sent_text (emOut s)"
    "sent_calls (emOut (snd r)) = sent_calls (emOut s) @ map (call_chunk fs) (fragment_indices fs)"
    "osTools (snd r) = (if b then [] else osTools s)"
    by simp_all
qed

section \<open>A whole answer\<close>

definition answer_fragments :: "streamResponse \<Rightarrow> tool_fragment list" where
  "answer_fragments r = (case srChoices r of [] \<Rightarrow> [] | ch # _ \<Rightarrow> chToolCalls ch)"

definition answer_text :: "openai_env \<Rightarrow> streamResponse \<Rightarrow> string" where
  "answer_text env r = (case srChoices r of [] \<Rightarrow> [] | ch # _ \<Rightarrow> extractTextContent env (chContent ch))"

definition answer_finish :: "streamResponse \<Rightarrow> string" where
  "answer_finish r = (case srChoices r of [] \<Rightarrow> [] | ch # _ \<Rightarrow> chFinishReason ch)"

definition no_details :: "streamResponse \<Rightarrow> bool" where
  "no_details r \<longleftrightarrow> list_all (\<lambda>ch. chReasoningDetails ch = None) (srChoices r)"

definition cited :: "streamResponse \<Rightarrow> nat" where
  "cited r = sum_list (map length (srCitations r))"

lemma add_citations_run:
  "osCitationsSize s + sum_list (map length cs) \<le> maxCitationsBytes \<Longrightarrow>
     add_citations cs s = (True, s\<lparr>osCitationsSize := osCitationsSize s + sum_list (map length cs),
                                   osCitations := osCitations s @ cs\<rparr>)"
  by (induction cs arbitrary: s) (simp_all add: add.assoc)

lemma capture_simps [simp]:
  "osTools (capture_response r s) = osTools s" "osTools (capture_usage r s) = osTools s"
  "osDetails (capture_response r s) = osDetails s" "osDetails (capture_usage r s) = osDetails s"
  "osCitationsSize (capture_response r s) = osCitationsSize s" "osCitationsSize (capture_usage r s) = osCitationsSize s"
  by (simp_all add: capture_response_def capture_usage_def Let_def split: option.split)

definition response_body :: "openai_env \<Rightarrow> streamResponse \<Rightarrow> openai_step" where
  "response_body env r s =
     and_then (add_citations (srCitations r) (capture_usage r (capture_response r s)))
       (\<lambda>s. case srChoices r of [] \<Rightarrow> (True, s) | ch # _ \<Rightarrow> choice_body env ch s)"

lemma finish_step_Nil [simp]: "finish_step [] s = (True, s)"
  by (simp add: finish_step_def)

lemma response_step_split: "response_step env r s = and_then (response_body env r s) (finish_step (answer_finish r))"
  by (cases "srChoices r")
     (auto simp: response_step_def response_body_def answer_finish_def and_then_def choice_step_def)

lemma response_collected:
  assumes "open_sink (emOut s)" "tracks fs (osTools s)" "well_formed_fragments (fs @ answer_fragments r)"
    "no_details r" "osCitationsSize s + cited r \<le> maxCitationsBytes" "b = response_body env r s"
  shows "fst b" "open_sink (emOut (snd b))" "tracks (fs @ answer_fragments r) (osTools (snd b))"
    "osDetails (snd b) = osDetails s" "osCitationsSize (snd b) = osCitationsSize s + cited r"
    "sent_text (emOut (snd b)) = sent_text (emOut s) @ answer_text env r"
    "sent_calls (emOut (snd b)) = sent_calls (emOut s)"
proof -
  define s1 where "s1 = snd (add_citations (srCitations r) (capture_usage r (capture_response r s)))"
  have s1: "add_citations (srCitations r) (capture_usage r (capture_response r s)) = (True, s1)"
    "osTools s1 = osTools s" "osDetails s1 = osDetails s" "emOut s1 = emOut s"
    "osCitationsSize s1 = osCitationsSize s + cited r"
    using assms(5) by (simp_all add: s1_def add_citations_run cited_def)
  show "fst b" "open_sink (emOut (snd b))" "tracks (fs @ answer_fragments r) (osTools (snd b))"
    "osDetails (snd b) = osDetails s" "osCitationsSize (snd b) = osCitationsSize s + cited r"
    "sent_text (emOut (snd b)) = sent_text (emOut s) @ answer_text env r"
    "sent_calls (emOut (snd b)) = sent_calls (emOut s)"
    using assms(1-4) choice_collected [of s1 fs "hd (srChoices r)" env] s1
    by (cases "srChoices r";
        simp add: assms(6) response_body_def and_then_def answer_fragments_def answer_text_def no_details_def collects_def)+
qed

text \<open>Collecting until the finish reason \<open>tool_calls\<close>, or all calls sent.\<close>

definition collecting :: "tool_fragment list \<Rightarrow> nat \<Rightarrow> string \<Rightarrow> openai_state \<Rightarrow> bool" where
  "collecting fs n t s \<longleftrightarrow> open_sink (emOut s) \<and> osCitationsSize s = n \<and> rdDetails (osDetails s) = None \<and>
     sent_text (emOut s) = t \<and> tracks fs (osTools s) \<and> sent_calls (emOut s) = []"

definition settled :: "tool_fragment list \<Rightarrow> nat \<Rightarrow> string \<Rightarrow> openai_state \<Rightarrow> bool" where
  "settled fs n t s \<longleftrightarrow> open_sink (emOut s) \<and> osCitationsSize s = n \<and> rdDetails (osDetails s) = None \<and>
     sent_text (emOut s) = t \<and> osTools s = [] \<and> sent_calls (emOut s) = map (call_chunk fs) (fragment_indices fs)"

lemma body_collecting:
  assumes "collecting fs n t s" "well_formed_fragments (fs @ answer_fragments r)" "no_details r"
    "n + cited r \<le> maxCitationsBytes"
  shows "fst (response_body env r s)"
    "collecting (fs @ answer_fragments r) (n + cited r) (t @ answer_text env r) (snd (response_body env r s))"
  using assms response_collected [of s fs r "response_body env r s" env] by (simp_all add: collecting_def)

lemma finish_collecting:
  assumes "collecting fs n t s"
  shows "fst (finish_step reason s) \<and>
    (collecting fs n t (snd (finish_step reason s)) \<or> settled fs n t (snd (finish_step reason s)))"
proof (cases "reason = []")
  case True
  with assms show ?thesis by simp
next
  case False
  let ?c = "zero_Chunk\<lparr>scType := ChunkStepFinish, scFinishReason := openai_finish_reason reason\<rparr>"
  have last: "fst (emit ?c s') \<and> (collecting fs n t s' \<longrightarrow> collecting fs n t (snd (emit ?c s'))) \<and>
      (settled fs n t s' \<longrightarrow> settled fs n t (snd (emit ?c s')))" if "open_sink (emOut s')" for s' :: openai_state
    using that by (simp add: emit_push collecting_def settled_def)
  show ?thesis
  proof (cases "reason = ''tool_calls''")
    case True
    have fin: "fst (finalize_tools True s)" "settled fs n t (snd (finalize_tools True s))"
      using finalize_tracked [of s fs "finalize_tools True s" True] assms
      by (simp_all add: collecting_def settled_def)
    then show ?thesis
      using last [of "snd (finalize_tools True s)"] True
      by (simp add: finish_step_def and_then_def settled_def)
  next
    case other: False
    then show ?thesis
      using last [of s] False assms by (simp add: finish_step_def and_then_def collecting_def)
  qed
qed

definition decoded :: "openai_env \<Rightarrow> string list \<Rightarrow> streamResponse list \<Rightarrow> bool" where
  "decoded env ps rs \<longleftrightarrow> list_all2 (\<lambda>p r. ClassifyStreamError (oeError env) p = None \<and> oeDecode env p = Inr r) ps rs"

definition all_fragments :: "streamResponse list \<Rightarrow> tool_fragment list" where
  "all_fragments rs = concat (map answer_fragments rs)"

definition all_text :: "openai_env \<Rightarrow> streamResponse list \<Rightarrow> string" where
  "all_text env rs = concat (map (answer_text env) rs)"

definition all_cited :: "streamResponse list \<Rightarrow> nat" where
  "all_cited rs = sum_list (map cited rs)"

lemmas all_defs = all_fragments_def all_text_def all_cited_def

lemma loop_collecting:
  "collecting fs n t s \<Longrightarrow> decoded env ps rs \<Longrightarrow> list_all (\<lambda>r. no_details r \<and> answer_finish r = []) rs \<Longrightarrow>
     well_formed_fragments (fs @ all_fragments rs) \<Longrightarrow> n + all_cited rs \<le> maxCitationsBytes \<Longrightarrow>
     \<exists>s'. collecting (fs @ all_fragments rs) (n + all_cited rs) (t @ all_text env rs) s' \<and>
          openai_loop env (ps @ qs, err) s = openai_loop env (qs, err) s'"
proof (induction rs arbitrary: fs n t s ps)
  case Nil
  then show ?case by (auto simp: decoded_def all_defs)
next
  case (Cons r rs)
  obtain p ps' where ps: "ps = p # ps'" "ClassifyStreamError (oeError env) p = None" "oeDecode env p = Inr r" "decoded env ps' rs"
    using Cons.prems(2) by (auto simp: decoded_def list_all2_Cons2)
  let ?b = "response_body env r s"
  have wf: "well_formed_fragments (fs @ answer_fragments r)"
    using Cons.prems(4) well_formed_prefix [of "fs @ answer_fragments r" "all_fragments rs"] by (simp add: all_fragments_def)
  have b: "fst ?b" "collecting (fs @ answer_fragments r) (n + cited r) (t @ answer_text env r) (snd ?b)"
    using body_collecting [OF Cons.prems(1) wf, of env] Cons.prems(3,5) by (simp_all add: all_cited_def)
  have "openai_data env p s = (True, snd ?b)"
    using ps b(1) Cons.prems(3) by (simp add: openai_data_def response_step_split and_then_def)
  moreover obtain s' where
    "collecting ((fs @ answer_fragments r) @ all_fragments rs) (n + cited r + all_cited rs) ((t @ answer_text env r) @ all_text env rs) s'"
    "openai_loop env (ps' @ qs, err) (snd ?b) = openai_loop env (qs, err) s'"
    using Cons.IH [OF b(2) ps(4)] Cons.prems(3-5) by (auto simp: all_defs add.assoc)
  ultimately show ?case
    by (auto simp: ps(1) and_then_def all_defs add.assoc intro!: exI [of _ s'])
qed

lemma finish_event:
  assumes "collecting fs n t s" "well_formed_fragments (fs @ answer_fragments r)" "no_details r"
    "n + cited r \<le> maxCitationsBytes" "ClassifyStreamError (oeError env) p = None" "oeDecode env p = Inr r"
  shows "\<exists>s'. openai_data env p s = (True, s') \<and>
    (collecting (fs @ answer_fragments r) (n + cited r) (t @ answer_text env r) s' \<or>
     settled (fs @ answer_fragments r) (n + cited r) (t @ answer_text env r) s')"
proof -
  note b = body_collecting [OF assms(1-4), of env]
  have "openai_data env p s = finish_step (answer_finish r) (snd (response_body env r s))"
    using assms(5,6) b(1) by (simp add: openai_data_def response_step_split and_then_def)
  with finish_collecting [OF b(2), of "answer_finish r"] show ?thesis
    by (metis prod.collapse)
qed

lemma usage_event:
  assumes "srChoices r = []" "osCitationsSize s + cited r \<le> maxCitationsBytes"
  shows "\<exists>s'. response_step env r s = (True, s') \<and> emOut s' = emOut s \<and> osTools s' = osTools s \<and>
    osDetails s' = osDetails s \<and> osCitationsSize s' = osCitationsSize s + cited r"
  using assms by (simp add: response_step_def and_then_def add_citations_run cited_def)

lemma loop_usage:
  "collecting fs n t s \<or> settled fs n t s \<Longrightarrow> decoded env ps rs \<Longrightarrow> list_all (\<lambda>r. srChoices r = []) rs \<Longrightarrow>
     n + all_cited rs \<le> maxCitationsBytes \<Longrightarrow>
     \<exists>s' m. (collecting fs m t s' \<or> settled fs m t s') \<and> openai_loop env (ps, err) s = openai_loop env ([], err) s'"
proof (induction rs arbitrary: n s ps)
  case Nil
  then show ?case by (auto simp: decoded_def)
next
  case (Cons r rs)
  obtain p ps' where ps: "ps = p # ps'" "ClassifyStreamError (oeError env) p = None" "oeDecode env p = Inr r" "decoded env ps' rs"
    using Cons.prems(2) by (auto simp: decoded_def list_all2_Cons2)
  have n: "osCitationsSize s = n"
    using Cons.prems(1) by (auto simp: collecting_def settled_def)
  then have "osCitationsSize s + cited r \<le> maxCitationsBytes"
    using Cons.prems(4) by (simp add: all_cited_def)
  then obtain s1 where s1: "response_step env r s = (True, s1)" "emOut s1 = emOut s" "osTools s1 = osTools s"
    "osDetails s1 = osDetails s" "osCitationsSize s1 = n + cited r"
    using usage_event [of r s env] Cons.prems(3) n by auto
  then have "collecting fs (n + cited r) t s1 \<or> settled fs (n + cited r) t s1"
    using Cons.prems(1) by (auto simp: collecting_def settled_def)
  from Cons.IH [OF this ps(4)] Cons.prems(3,4) s1(1) ps(2,3) show ?case
    by (simp add: ps(1) openai_data_def and_then_def all_cited_def add.assoc)
qed

lemma end_settles:
  assumes "collecting fs n t s \<or> settled fs n t s" "out = emOut (snd (openai_end None s))"
  shows "sent_text out = t" "sent_calls out = map (call_chunk fs) (fragment_indices fs)"
    "scType (last (skSent out)) = ChunkFinish"
proof -
  define s1 where "s1 = snd (finalize_tools False s)"
  have s1: "fst (finalize_tools False s) \<and> open_sink (emOut s1) \<and> rdDetails (osDetails s1) = None \<and>
    sent_text (emOut s1) = t \<and> sent_calls (emOut s1) = map (call_chunk fs) (fragment_indices fs) \<and>
    \<not> list_ex (\<lambda>(idx, a). \<not> atStarted a) (osTools s1)"
    using assms(1)
  proof
    assume c: "collecting fs n t s"
    then have "distinct (map fst (osTools s))" "\<forall>idx. map_of (osTools s) idx = (if idx \<in> tfIndex ` set fs then Some (collected fs idx) else None)"
      by (simp_all add: collecting_def tracks_def)
    then have "atStarted a" if "(idx, a) \<in> set (osTools s)" for idx a
      using map_of_is_SomeI [OF _ that] by (auto simp: collected_def split: if_splits)
    then have "\<not> list_ex (\<lambda>(idx, a). \<not> atStarted a) (osTools s)"
      by (auto simp: list_ex_iff)
    then show ?thesis
      using c finalize_tracked [of s fs "finalize_tools False s" False] by (simp add: s1_def collecting_def)
  next
    assume "settled fs n t s"
    then show ?thesis
      by (simp add: s1_def settled_def finalize_tools_def)
  qed
  then have "openai_end None s = emit_return (openai_finish_chunk s1) s1"
    by (simp add: openai_end_def and_then_def s1_def)
  then have "out = push [openai_finish_chunk s1] (emOut s1)"
    using s1 assms(2) by (simp add: emit_return_def emit_push)
  then show "sent_text out = t" "sent_calls out = map (call_chunk fs) (fragment_indices fs)"
    "scType (last (skSent out)) = ChunkFinish"
    using s1 by (simp_all add: openai_finish_chunk_def)
qed

text \<open>The answer may end without a finish reason; after the one that has it only usage is reported.\<close>

definition well_formed_answer :: "streamResponse list \<Rightarrow> bool" where
  "well_formed_answer rs \<longleftrightarrow>
     list_all no_details rs \<and> all_cited rs \<le> maxCitationsBytes \<and> well_formed_fragments (all_fragments rs) \<and>
     list_all (\<lambda>r. srChoices r = []) (tl (dropWhile (\<lambda>r. answer_finish r = []) rs))"

lemma answer_loop:
  assumes "decoded env ps rs" "well_formed_answer rs"
    "out = emOut (snd (openai_loop env (ps, None) (openai_start new_sink)))"
  shows "sent_text out = all_text env rs" "sent_calls out = map (call_chunk (all_fragments rs)) (fragment_indices (all_fragments rs))"
    "scType (last (skSent out)) = ChunkFinish"
proof -
  let ?body = "takeWhile (\<lambda>r. answer_finish r = []) rs" and ?rest = "dropWhile (\<lambda>r. answer_finish r = []) rs"
  have rs: "rs = ?body @ ?rest" by simp
  obtain qs ps' where ps: "ps = qs @ ps'" "decoded env qs ?body" "decoded env ps' ?rest"
    using assms(1) list_all2_append2 [of _ ps ?body ?rest] unfolding decoded_def by auto
  have start: "collecting [] 0 [] (openai_start new_sink)"
    by (simp add: collecting_def openai_start_def new_sink_def sent_text_def sent_calls_def tracks_def open_sink_def)
  have split: "all_fragments rs = all_fragments ?body @ all_fragments ?rest" "all_cited rs = all_cited ?body + all_cited ?rest"
    "all_text env rs = all_text env ?body @ all_text env ?rest"
    by (simp_all add: all_defs flip: map_append concat_append sum_list_append)
  have "list_all (\<lambda>r. no_details r \<and> answer_finish r = []) ?body"
    using assms(2) by (auto simp: well_formed_answer_def list_all_iff dest: set_takeWhileD)
  moreover have "well_formed_fragments ([] @ all_fragments ?body)"
    using assms(2) split(1) well_formed_prefix [of "all_fragments ?body" "all_fragments ?rest"] by (simp add: well_formed_answer_def)
  ultimately obtain s where s: "collecting (all_fragments ?body) (all_cited ?body) (all_text env ?body) s"
    "openai_loop env (ps, None) (openai_start new_sink) = openai_loop env (ps', None) s"
    using loop_collecting [OF start ps(2)] assms(2) split(2) ps(1) by (auto simp: well_formed_answer_def)
  have "\<exists>s' m. (collecting (all_fragments rs) m (all_text env rs) s' \<or> settled (all_fragments rs) m (all_text env rs) s') \<and>
      openai_loop env (ps', None) s = openai_loop env ([], None) s'"
  proof (cases ?rest)
    case Nil
    with s ps(3) split show ?thesis by (auto simp: decoded_def all_defs)
  next
    case (Cons r us)
    obtain p ps2 where p: "ps' = p # ps2" "ClassifyStreamError (oeError env) p = None" "oeDecode env p = Inr r" "decoded env ps2 us"
      using ps(3) unfolding Cons by (auto simp: decoded_def list_all2_Cons2)
    have "r \<in> set rs"
      using Cons by (metis list.set_intros(1) set_dropWhileD)
    then have us: "list_all (\<lambda>r. srChoices r = []) us" "no_details r" "well_formed_fragments (all_fragments rs)"
        "all_cited rs \<le> maxCitationsBytes"
      using assms(2) Cons by (auto simp: well_formed_answer_def list_all_iff)
    then have none: "all_fragments us = []" "all_text env us = []"
      by (auto simp: all_defs answer_fragments_def answer_text_def list_all_iff)
    have rest: "all_fragments ?rest = answer_fragments r @ all_fragments us" "all_cited ?rest = cited r + all_cited us"
        "all_text env ?rest = answer_text env r @ all_text env us"
      unfolding Cons by (simp_all add: all_fragments_def all_cited_def all_text_def)
    have whole: "all_fragments ?body @ answer_fragments r = all_fragments rs"
        "all_text env ?body @ answer_text env r = all_text env rs" "all_cited ?body + cited r \<le> maxCitationsBytes"
      using us(4) by (simp_all add: split rest none)
    obtain s1 where s1: "openai_data env p s = (True, s1)"
        "collecting (all_fragments rs) (all_cited ?body + cited r) (all_text env rs) s1 \<or>
         settled (all_fragments rs) (all_cited ?body + cited r) (all_text env rs) s1"
      using finish_event [OF s(1) _ us(2) whole(3) p(2,3)] us(3) by (auto simp: whole)
    have "all_cited ?body + cited r + all_cited us \<le> maxCitationsBytes"
      using us(4) by (simp add: split rest)
    then show ?thesis
      using loop_usage [OF s1(2) p(4) us(1)] s1(1) by (simp add: p(1) and_then_def)
  qed
  then obtain s' m where e: "collecting (all_fragments rs) m (all_text env rs) s' \<or> settled (all_fragments rs) m (all_text env rs) s'"
    "openai_loop env (ps', None) s = openai_end None s'" by auto
  then have "out = emOut (snd (openai_end None s'))"
    using assms(3) s(2) by simp
  then show "sent_text out = all_text env rs" "sent_calls out = map (call_chunk (all_fragments rs)) (fragment_indices (all_fragments rs))"
    "scType (last (skSent out)) = ChunkFinish"
    using end_settles [OF e(1)] by simp_all
qed

definition rebuilt_call :: "tool_fragment list \<Rightarrow> int \<Rightarrow> ToolCall" where
  "rebuilt_call fs idx =
     \<lparr>tcID = call_id idx fs, tcName = call_name idx fs, tcInput = call_arguments idx fs, tcMetadata = []\<rparr>"

text \<open>
  C3: a streamed OpenAI-compatible answer is rebuilt: whatever the \<open>Read\<close> boundaries of the body, and
  however the fragments of parallel tool calls are interleaved and spread over the events, the step drain
  returns the concatenated text and one call per index, in index order, with the identifier of its first
  fragment, its last name and the concatenation of its argument fragments, whether or not the provider
  sends a finish reason. The hypotheses: the body is an encoded event stream whose payloads decode to the
  answers \<open>rs\<close>; no reasoning details; the first fragment of an index has identifier and name; arguments
  and citations stay within the limits; after the answer with the finish reason only usage follows.
\<close>

theorem openai_answer_rebuilt:
  assumes "steady body" "data_of body = encode_events es" "list_all event_ok es" "final_of body = ErrEOF"
    and "decoded env (takeWhile (\<lambda>p. p \<noteq> ''[DONE]'') (concat (map snd es))) rs" "well_formed_answer rs"
    and "open_sink consumer" "drainStep (skSent (ParseStream env (NewScanner body) new_sink)) consumer = (dr, consumer')"
  shows "drText dr = all_text env rs \<and>
    drToolCalls dr = map (rebuilt_call (all_fragments rs)) (fragment_indices (all_fragments rs)) \<and> drErr dr = None"
proof -
  define out where "out = ParseStream env (NewScanner body) new_sink"
  have "out = emOut (snd (openai_loop env (takeWhile (\<lambda>p. p \<noteq> ''[DONE]'') (concat (map snd es)), None) (openai_start new_sink)))"
    by (simp add: out_def ParseStream_def scan_encoded_end [OF assms(1-4)])
  note out = answer_loop [OF assms(5,6) this]
  obtain cs c where cs: "skSent out = cs @ [c]" "list_all inner_chunk cs" "last_chunk c"
    using ParseStream_ends [OF open_new_sink, of env "NewScanner body"] by (auto simp: out_def new_sink_def)
  have dr: "dr = drain_finish (drained (skSent out))"
    using assms(7,8) by (auto simp: drainStep_def drain_loop_open drained_def out_def)
  have "of_type ChunkError (skSent out) = []"
    using out(3) cs(2) by (auto simp: cs(1) of_type_def filter_empty_conv list_all_iff inner_chunk_def)
  then have "drErr dr = None"
    by (simp add: dr drained_err)
  moreover have "drText dr = all_text env rs"
    using out(1) by (simp add: dr drained_text sent_text_def)
  moreover have "drToolCalls dr = map (rebuilt_call (all_fragments rs)) (fragment_indices (all_fragments rs))"
    using out(2) by (simp add: dr drained_calls sent_calls_def)
      (simp add: chunk_tool_call_def call_chunk_def rebuilt_call_def zero_Chunk_def)
  ultimately show ?thesis by simp
qed

text \<open>Two parallel calls whose fragments arrive interleaved, in three events.\<close>

definition fragment_answer :: "string \<Rightarrow> tool_fragment list \<Rightarrow> string \<Rightarrow> streamResponse" where
  "fragment_answer t fs reason = \<lparr>srID = [], srModel = [],
     srChoices = [\<lparr>chContent = t, chReasoningContent = [], chReasoning = [], chReasoningDetails = None,
       chToolCalls = fs, chAnnotations = [], chLogprobs = None, chFinishReason = reason\<rparr>],
     srCitations = [], srUsage = None\<rparr>"

definition tool_answers :: "streamResponse list" where
  "tool_answers =
     [fragment_answer ''ok'' [\<lparr>tfIndex = 1, tfID = ''b'', tfName = ''g'', tfArguments = ''{''\<rparr>,
                              \<lparr>tfIndex = 0, tfID = ''a'', tfName = ''f'', tfArguments = ''{''\<rparr>] [],
      fragment_answer [] [\<lparr>tfIndex = 0, tfID = [], tfName = [], tfArguments = ''}''\<rparr>,
                          \<lparr>tfIndex = 1, tfID = [], tfName = [], tfArguments = ''}''\<rparr>] ''tool_calls'']"

definition tool_env :: openai_env where
  "tool_env = sample_env\<lparr>oeDecode := (\<lambda>p. if p = ''x'' then Inr (tool_answers ! 0) else Inr (tool_answers ! 1))\<rparr>"

theorem openai_answer_rebuilt_witness:
  "let dr = fst (drainStep (skSent (ParseStream tool_env
       (NewScanner [(encode_events [([], [''x'']), ([], [''y'']), ([], [''[DONE]''])], None)]) new_sink)) new_sink)
   in drText dr = ''ok'' \<and> map tcName (drToolCalls dr) = [''f'', ''g''] \<and> map tcInput (drToolCalls dr) = [''{}'', ''{}'']"
proof -
  let ?es = "[([], [''x'']), ([], [''y'']), ([], [''[DONE]''])]"
  have ne: "encode_events ?es \<noteq> []"
    by (simp add: encode_events_def unlines_def event_lines_def)
  have fs: "all_fragments tool_answers = answer_fragments (tool_answers ! 0) @ answer_fragments (tool_answers ! 1)"
    by (simp add: all_fragments_def tool_answers_def)
  have wf: "well_formed_answer tool_answers"
    by (simp add: well_formed_answer_def tool_answers_def fragment_answer_def no_details_def all_cited_def cited_def
        answer_finish_def well_formed_fragments_def all_fragments_def answer_fragments_def parts_of_def opens_call_def
        call_arguments_def maxToolCallArgsBytes_def)
  have dec: "decoded tool_env (takeWhile (\<lambda>p. p \<noteq> ''[DONE]'') (concat (map snd ?es))) tool_answers"
    by (simp add: decoded_def tool_env_def sample_env_def ClassifyStreamError_def ParseStreamError_def tool_answers_def)
  have res: "all_text tool_env tool_answers = ''ok''"
      "map (rebuilt_call (all_fragments tool_answers)) (fragment_indices (all_fragments tool_answers)) =
       [\<lparr>tcID = ''a'', tcName = ''f'', tcInput = ''{}'', tcMetadata = []\<rparr>,
        \<lparr>tcID = ''b'', tcName = ''g'', tcInput = ''{}'', tcMetadata = []\<rparr>]"
    by (simp_all add: all_text_def answer_text_def tool_answers_def fragment_answer_def extractTextContent_def
        tool_env_def sample_env_def all_fragments_def answer_fragments_def fragment_indices_def rebuilt_call_def
        call_id_def call_name_def call_arguments_def parts_of_def)
  show ?thesis
    using openai_answer_rebuilt [OF _ _ _ _ dec wf open_new_sink prod.collapse [symmetric], of "[(encode_events ?es, None)]"] ne res
    by (simp add: Let_def steady_def event_ok_def line_ok_def MaxLineSize_def MaxEventSize_def)
qed

end
