(* ===== verification/ObjectLoop.thy ===== *)
theory ObjectLoop
  imports ToolLoopFacts HttpErrors
begin

text \<open>
  Structured output, \<open>GenerateObject\<close> of \<open>src/object.go\<close>: a tool loop of its own that ends with the first
  step the model does not end with executable tool calls, whose text must decode into the caller's type. The
  decoder, the schema derived from the type and its zero value are parameters. The loop shares the local
  variables of \<open>GenerateText\<close>; it has no reasoning replay and publishes no states, so \<open>rLastReasoning\<close> and
  \<open>rInflight\<close> stay unused. The warnings about ignored options on standard error are not modelled.
\<close>

section \<open>Options and result\<close>

record object_options = gen_options +
  oExplicitSchema :: "string option"
  oSchemaName :: string

record 'a object_type =
  otSchema :: string \<comment> \<open>\<open>SchemaFrom[T]()\<close>\<close>
  otUnmarshal :: "string \<Rightarrow> go_error + 'a"
  otZero :: 'a

record 'a ObjectResult =
  obObject :: 'a
  obUsage :: Usage
  obFinishReason :: FinishReason
  obResponse :: ResponseMetadata
  obProviderMetadata :: metamap
  obResponseMessages :: "Message list"
  obSteps :: "StepResult list"

type_synonym ('t, 'a) object_stmt = "(text_run, go_error + 't ObjectResult, 'a) stmt"

definition object_params :: "'z object_options_scheme \<Rightarrow> 't object_type \<Rightarrow> GenerateParams" where
  "object_params opts ty = (buildParams opts)\<lparr>gpResponseFormat := Some
     \<lparr>rfName = (if oSchemaName opts = [] then ''response'' else oSchemaName opts),
      rfSchema = (case oExplicitSchema opts of Some schema \<Rightarrow> schema | None \<Rightarrow> otSchema ty)\<rparr>\<rparr>"

section \<open>The parts of a step\<close>

definition object_call :: "'z gen_options_scheme \<Rightarrow> gen_env \<Rightarrow>
    (GenerateParams, GenerateResult option \<times> go_error option) hook \<Rightarrow>
    (text_run, 'r, GenerateResult option \<times> go_error option) stmt" where
  "object_call opts env model =
     withRetry (geRetry env) (oMaxRetries opts) (oRetryObserver opts) None
       (reads_state (\<lambda>s. invoke (EvGenerate (rParams s)) model (rParams s)))"

definition object_record :: "'z gen_options_scheme \<Rightarrow> nat \<Rightarrow> GenerateResult \<Rightarrow> (text_run, 'r, unit) stmt" where
  "object_record opts step r =
     andThen (modify (\<lambda>s. s\<lparr>rSteps := rSteps s @ [step_result step r],
                            rTotalUsage := addUsage (rTotalUsage s) (grUsage r)\<rparr>)) (\<lambda>_.
       call_hooks (oOnPanic opts) ''OnStepFinish'' (EvStepFinish (step_result step r))
         (oOnStepFinish opts) (step_result step r))"

text \<open>Whether the structured output is parsed from this step.\<close>

definition output_step :: "toolmap \<Rightarrow> GenerateResult \<Rightarrow> bool" where
  "output_step toolMap r \<longleftrightarrow> grFinishReason r \<noteq> FinishToolCalls \<or> grToolCalls r = [] \<or> toolMap = []"

definition unparsable :: "go_error \<Rightarrow> string \<Rightarrow> go_error" where
  "unparsable err txt =
     ErrWrap (''parsing structured output: '' @ error_text err @ '' (raw: '' @ cut_runes 200 txt @ '')'') err"

definition object_exit :: "'z gen_options_scheme \<Rightarrow> 't object_type \<Rightarrow> nat \<Rightarrow> GenerateResult \<Rightarrow> ('t, 'a) object_stmt" where
  "object_exit opts ty originalLen r =
     (if grText r = [] then return_early (Inl (ErrMsg ''goai: empty response from model''))
      else case otUnmarshal ty (grText r) of
        Inl err \<Rightarrow> return_early (Inl (unparsable err (grText r)))
      | Inr obj \<Rightarrow> reads_state (\<lambda>s.
          andThen (fireOnFinish opts
            \<lparr>fiStepsExhausted = False, fiTotalSteps = length (rSteps s), fiTotalUsage = rTotalUsage s,
             fiFinishReason = grFinishReason r, fiStoppedBy = StopCauseNatural\<rparr>)
          (\<lambda>_. return_early (Inr
            \<lparr>obObject = obj, obUsage = rTotalUsage s, obFinishReason = grFinishReason r, obResponse = grResponse r,
             obProviderMetadata = grProviderMetadata r,
             obResponseMessages = buildResponseMessages (drop originalLen (gpMessages (rParams s))) (rSteps s) [],
             obSteps = rSteps s\<rparr>))))"

text \<open>The results of the tools go into the conversation only; those per step are discarded.\<close>

definition object_tools :: "'z gen_options_scheme \<Rightarrow> gen_env \<Rightarrow> toolmap \<Rightarrow> nat \<Rightarrow> GenerateResult \<Rightarrow> (text_run, 'r, unit) stmt" where
  "object_tools opts env toolMap step r =
     andThen (modify (rParams_update (gpToolChoice_update (\<lambda>_. [])))) (\<lambda>_. modify (\<lambda>s.
       case executeToolsParallel (geUnmarshal env) (geSchedule env (hist s)) (geContext env)
              (grToolCalls r) toolMap step (tool_hooks opts) (hist s) of
         ((msgs, results), h) \<Rightarrow>
           s\<lparr>hist := h, rParams := (rParams s)\<lparr>gpMessages :=
              appendToolRoundTrip (gpMessages (rParams s)) (grText r) [] (grToolCalls r) msgs (grContent r)\<rparr>\<rparr>))"

section \<open>The loop\<close>

definition object_answered :: "'z gen_options_scheme \<Rightarrow> 't object_type \<Rightarrow> gen_env \<Rightarrow> nat \<Rightarrow> toolmap \<Rightarrow> nat \<Rightarrow> GenerateResult \<Rightarrow>
    ('t, unit) object_stmt" where
  "object_answered opts ty env originalLen toolMap step r =
     andThen (object_record opts step r) (\<lambda>_.
       if output_step toolMap r then object_exit opts ty originalLen r
       else object_tools opts env toolMap step r)"

definition object_returned :: "'z gen_options_scheme \<Rightarrow> 't object_type \<Rightarrow> gen_env \<Rightarrow> nat \<Rightarrow> toolmap \<Rightarrow> nat \<Rightarrow>
    GenerateResult option \<times> go_error option \<Rightarrow> ('t, unit) object_stmt" where
  "object_returned opts ty env originalLen toolMap step re =
     (case re of (result, err) \<Rightarrow>
        if err = None \<and> result = None then go_panics nil_dereference
        else andThen (response_hooks opts result err) (\<lambda>_.
          case err of
            Some e \<Rightarrow> abort_step opts e
          | None \<Rightarrow> object_answered opts ty env originalLen toolMap step (the result)))"

text \<open>One iteration; \<^const>\<open>True\<close> is a \<open>break\<close>.\<close>

definition object_step :: "'z gen_options_scheme \<Rightarrow> 't object_type \<Rightarrow> gen_env \<Rightarrow>
    (GenerateParams, GenerateResult option \<times> go_error option) hook \<Rightarrow> nat \<Rightarrow> toolmap \<Rightarrow> nat \<Rightarrow>
    ('t, bool) object_stmt" where
  "object_step opts ty env model originalLen toolMap step =
     andThen (before_step opts step) (\<lambda>stop.
     if stop then pure True
     else andThen (request_hooks opts) (\<lambda>_.
          andThen (object_call opts env model) (\<lambda>re.
          andThen (object_returned opts ty env originalLen toolMap step re) (\<lambda>_. pure False))))"

primrec object_loop :: "'z gen_options_scheme \<Rightarrow> 't object_type \<Rightarrow> gen_env \<Rightarrow>
    (GenerateParams, GenerateResult option \<times> go_error option) hook \<Rightarrow> nat \<Rightarrow> toolmap \<Rightarrow> nat \<Rightarrow> nat \<Rightarrow>
    ('t, unit) object_stmt" where
  "object_loop opts ty env model originalLen toolMap 0 step = pure ()"
| "object_loop opts ty env model originalLen toolMap (Suc left) step =
     andThen (object_step opts ty env model originalLen toolMap step) (\<lambda>stop.
       if stop then pure () else object_loop opts ty env model originalLen toolMap left (Suc step))"

definition steps_exhausted_error :: "int \<Rightarrow> go_error" where
  "steps_exhausted_error maxSteps =
     ErrMsg (''goai: max steps ('' @ show_int maxSteps @ '') reached without producing structured output'')"

definition object_exhausted :: "'z gen_options_scheme \<Rightarrow> ('t, 'a) object_stmt" where
  "object_exhausted opts = reads_state (\<lambda>s.
     andThen (fireOnFinish opts
       \<lparr>fiStepsExhausted = True, fiTotalSteps = length (rSteps s), fiTotalUsage = rTotalUsage s,
        fiFinishReason = (if rSteps s = [] then FinishNone else srFinishReason (last (rSteps s))),
        fiStoppedBy = StopCauseMaxSteps\<rparr>)
     (\<lambda>_. return_early (Inl (steps_exhausted_error (oMaxSteps opts)))))"

definition object_body :: "'z object_options_scheme \<Rightarrow> 't object_type \<Rightarrow> gen_env \<Rightarrow> ('t, unit) object_stmt" where
  "object_body opts ty env =
     (case geModel env of
        None \<Rightarrow> return_early (Inl (ErrMsg ''goai: model must not be nil''))
      | Some model \<Rightarrow>
          if oPrompt opts = [] \<and> oMessages opts = []
          then return_early (Inl (ErrMsg ''goai: prompt or messages must not be empty''))
          else
            let params = object_params opts ty in
            andThen (modify (rParams_update (\<lambda>_. params))) (\<lambda>_.
            case buildToolMap (oTools opts) of
              Inl err \<Rightarrow> return_early (Inl err)
            | Inr toolMap \<Rightarrow>
                andThen (object_loop opts ty env model (length (gpMessages params)) toolMap (nat (oMaxSteps opts)) 1)
                  (\<lambda>_. object_exhausted opts)))"

definition GenerateObject_stmt :: "'z object_options_scheme \<Rightarrow> 't object_type \<Rightarrow> gen_env \<Rightarrow> ('t, unit) object_stmt" where
  "GenerateObject_stmt opts ty env = recoverToError (oOnPanic opts) (object_body opts ty env)"

definition GenerateObject :: "'z object_options_scheme \<Rightarrow> 't object_type \<Rightarrow> gen_env \<Rightarrow>
    (go_error + 't ObjectResult) \<times> event list" where
  "GenerateObject opts ty env =
     (case GenerateObject_stmt opts ty env (start_run []) of
        (Returns r, s) \<Rightarrow> (r, hist s)
      | (Value _, s) \<Rightarrow> (Inl (ErrMsg []), hist s)
      | (Panics _, s) \<Rightarrow> (Inl (ErrMsg []), hist s))"

section \<open>The invariant of the loop\<close>

text \<open>\<open>n\<close> steps are complete, all of them rounds of tool calls; nothing was reported yet.\<close>

definition tool_round :: "StepResult \<Rightarrow> bool" where
  "tool_round st \<longleftrightarrow> srFinishReason st = FinishToolCalls \<and> srToolCalls st \<noteq> []"

definition rounds :: "'z gen_options_scheme \<Rightarrow> nat \<Rightarrow> text_run \<Rightarrow> bool" where
  "rounds opts n s \<longleftrightarrow>
     map srNumber (rSteps s) = [1..<Suc n] \<and> rTotalUsage s = total_usage (map srUsage (rSteps s)) \<and>
     list_all tool_round (rSteps s) \<and> model_calls (hist s) \<le> n * budget opts \<and>
     finishes (hist s) = [] \<and> states (hist s) = []"

text \<open>What holds while a panic unwinds or an error is returned.\<close>

definition object_bounds :: "'z gen_options_scheme \<Rightarrow> nat \<Rightarrow> text_run \<Rightarrow> bool" where
  "object_bounds opts M s \<longleftrightarrow> model_calls (hist s) \<le> M * budget opts \<and> states (hist s) = []"

definition natural_finish :: "'t ObjectResult \<Rightarrow> FinishInfo" where
  "natural_finish res =
     \<lparr>fiStepsExhausted = False, fiTotalSteps = length (obSteps res), fiTotalUsage = obUsage res,
      fiFinishReason = obFinishReason res, fiStoppedBy = StopCauseNatural\<rparr>"

definition object_ok :: "'t object_type \<Rightarrow> nat \<Rightarrow> 't ObjectResult \<Rightarrow> bool" where
  "object_ok ty M res \<longleftrightarrow>
     (\<exists>n < M. map srNumber (obSteps res) = [1..<Suc (Suc n)]) \<and>
     obUsage res = total_usage (map srUsage (obSteps res)) \<and>
     list_all tool_round (butlast (obSteps res)) \<and>
     otUnmarshal ty (srText (last (obSteps res))) = Inr (obObject res) \<and>
     srText (last (obSteps res)) \<noteq> [] \<and> obFinishReason res = srFinishReason (last (obSteps res))"

definition object_post :: "'z gen_options_scheme \<Rightarrow> 't object_type \<Rightarrow> nat \<Rightarrow> go_error + 't ObjectResult \<Rightarrow> text_run \<Rightarrow> bool" where
  "object_post opts ty M r s \<longleftrightarrow> object_bounds opts M s \<and>
     (case r of
        Inl _ \<Rightarrow> True
      | Inr res \<Rightarrow> object_ok ty M res \<and>
          finishes (hist s) = replicate (length (oOnFinish opts)) (EvFinish (natural_finish res)))"

lemma rounds_bounds: "rounds opts n s \<Longrightarrow> n \<le> M \<Longrightarrow> object_bounds opts M s"
  unfolding rounds_def object_bounds_def by (meson le_trans mult_le_mono1)

lemma rounds_quiet: "rounds opts n s \<Longrightarrow> quiet s s' \<Longrightarrow> rounds opts n s'"
  by (simp add: rounds_def quiet_observe)

lemma object_bounds_quiet: "object_bounds opts M s \<Longrightarrow> quiet s s' \<Longrightarrow> object_bounds opts M s'"
  by (simp add: object_bounds_def quiet_observe)

lemma object_bounds_core: "object_bounds opts M s \<Longrightarrow> core_same s s' \<Longrightarrow> object_bounds opts M s'"
  by (simp add: object_bounds_def core_same_def)

lemma object_post_error: "object_bounds opts M s \<Longrightarrow> object_post opts ty M (Inl err) s"
  by (simp add: object_post_def)

text \<open>The state after the model answered step \<open>n + 1\<close>: the budget of one more step may be used up.\<close>

definition called :: "'z gen_options_scheme \<Rightarrow> nat \<Rightarrow> text_run \<Rightarrow> bool" where
  "called opts n s \<longleftrightarrow>
     map srNumber (rSteps s) = [1..<Suc n] \<and> rTotalUsage s = total_usage (map srUsage (rSteps s)) \<and>
     list_all tool_round (rSteps s) \<and> model_calls (hist s) \<le> Suc n * budget opts \<and>
     finishes (hist s) = [] \<and> states (hist s) = []"

lemma called_bounds: "called opts n s \<Longrightarrow> Suc n \<le> M \<Longrightarrow> object_bounds opts M s"
  unfolding called_def object_bounds_def by (meson le_trans mult_le_mono1)

lemma called_quiet: "called opts n s \<Longrightarrow> quiet s s' \<Longrightarrow> called opts n s'"
  by (simp add: called_def quiet_observe)

lemma wp_object_call:
  assumes "rounds opts n s"
  shows "wp (object_call opts env model) (\<lambda>_. called opts n) (\<lambda>_. called opts n) (\<lambda>_ _. False) s"
proof -
  have "called opts n s'" if "attempts (nat (oMaxRetries opts) + 1) s s'" for s'
    using that assms by (auto simp: attempts_def called_def rounds_def budget_def)
  then show ?thesis
    unfolding object_call_def one_attempt_def [symmetric] by (intro wp_mono [OF wp_withRetry]) simp_all
qed

section \<open>One iteration\<close>

text \<open>After the step is recorded.\<close>

definition recorded :: "'z gen_options_scheme \<Rightarrow> nat \<Rightarrow> GenerateResult \<Rightarrow> text_run \<Rightarrow> bool" where
  "recorded opts n r s \<longleftrightarrow>
     (\<exists>steps. rSteps s = steps @ [step_result (Suc n) r] \<and> list_all tool_round steps) \<and>
     map srNumber (rSteps s) = [1..<Suc (Suc n)] \<and> rTotalUsage s = total_usage (map srUsage (rSteps s)) \<and>
     model_calls (hist s) \<le> Suc n * budget opts \<and> finishes (hist s) = [] \<and> states (hist s) = []"

lemma recorded_bounds: "recorded opts n r s \<Longrightarrow> Suc n \<le> M \<Longrightarrow> object_bounds opts M s"
  unfolding recorded_def object_bounds_def by (meson le_trans mult_le_mono1)

lemma recorded_quiet: "recorded opts n r s \<Longrightarrow> quiet s s' \<Longrightarrow> recorded opts n r s'"
  by (simp add: recorded_def quiet_observe)

lemma wp_object_record:
  assumes "called opts n s" "Suc n \<le> M"
  shows "wp (object_record opts (Suc n) r) (\<lambda>_. recorded opts n r) (\<lambda>_. object_bounds opts M) (\<lambda>_ _. False) s"
proof -
  let ?s1 = "s\<lparr>rSteps := rSteps s @ [step_result (Suc n) r], rTotalUsage := addUsage (rTotalUsage s) (grUsage r)\<rparr>"
  have rec: "recorded opts n r ?s1"
    using assms(1) by (simp add: called_def recorded_def step_result_def)
  have "wp (call_hooks (oOnPanic opts) ''OnStepFinish'' (EvStepFinish (step_result (Suc n) r))
         (oOnStepFinish opts) (step_result (Suc n) r))
      (\<lambda>_. recorded opts n r) (\<lambda>_. object_bounds opts M) (\<lambda>_ _. False) ?s1"
    by (rule wp_quiet [OF quiet_call_hooks])
      (use recorded_quiet [OF rec] object_bounds_quiet [OF recorded_bounds [OF rec assms(2)]] in auto)
  then show ?thesis
    by (simp add: object_record_def)
qed

lemma wp_object_exit:
  assumes "recorded opts n r s" "Suc n \<le> M"
  shows "wp (object_exit opts ty originalLen r) Q (\<lambda>_. object_bounds opts M) (object_post opts ty M) s"
proof (cases "grText r = []")
  case True
  then show ?thesis
    using recorded_bounds [OF assms] by (simp add: object_exit_def object_post_error)
next
  case nonempty: False
  have b: "object_bounds opts M s"
    by (rule recorded_bounds [OF assms])
  show ?thesis
  proof (cases "otUnmarshal ty (grText r)")
    case (Inl err)
    then show ?thesis
      using nonempty b by (simp add: object_exit_def object_post_error)
  next
    case (Inr obj)
    let ?res = "\<lparr>obObject = obj, obUsage = rTotalUsage s, obFinishReason = grFinishReason r, obResponse = grResponse r,
             obProviderMetadata = grProviderMetadata r,
             obResponseMessages = buildResponseMessages (drop originalLen (gpMessages (rParams s))) (rSteps s) [],
             obSteps = rSteps s\<rparr>"
    have ok: "object_ok ty M ?res"
      using assms nonempty Inr
      by (auto simp: object_ok_def recorded_def step_result_def simp del: upt_Suc intro!: exI [of _ n])
    have fin: "finishes (hist s) = []"
      using assms(1) by (simp add: recorded_def)
    have "wp (andThen (fireOnFinish opts (natural_finish ?res)) (\<lambda>_. return_early (Inr ?res)))
        Q (\<lambda>_. object_bounds opts M) (object_post opts ty M) s"
      by (rule wp_seq, rule wp_mono [OF wp_fireOnFinish])
        (use ok fin object_bounds_core [OF b] in \<open>auto simp: object_post_def\<close>)
    then show ?thesis
      using nonempty Inr by (simp add: object_exit_def natural_finish_def)
  qed
qed

lemma wp_object_tools:
  assumes "recorded opts n r s" "tool_round (step_result (Suc n) r)"
  shows "wp (object_tools opts env toolMap (Suc n) r) (\<lambda>_. rounds opts (Suc n)) E R s"
proof -
  let ?s1 = "rParams_update (gpToolChoice_update (\<lambda>_. [])) s"
  obtain msgs results h where run: "executeToolsParallel (geUnmarshal env) (geSchedule env (hist ?s1)) (geContext env)
      (grToolCalls r) toolMap (Suc n) (tool_hooks opts) (hist ?s1) = ((msgs, results), h)"
    by (metis prod.collapse)
  from executeToolsParallel_events [OF run] obtain tr where h: "h = hist ?s1 @ tr" "list_all tool_event tr"
    by blast
  then have "list_all calm tr" using tool_event_calm by (auto simp: list_all_iff)
  note obs = calm_observe [OF this]
  have "rounds opts (Suc n) (?s1\<lparr>hist := h, rParams := p\<rparr>)" for p
    using assms obs h(1) by (auto simp: rounds_def recorded_def simp del: upt_Suc)
  then show ?thesis
    using run by (simp add: object_tools_def)
qed

definition object_step_post :: "'z gen_options_scheme \<Rightarrow> nat \<Rightarrow> nat \<Rightarrow> bool \<Rightarrow> text_run \<Rightarrow> bool" where
  "object_step_post opts M n stop s \<longleftrightarrow>
     (if stop then object_bounds opts M s else rounds opts (Suc n) s)"

lemma wp_object_answered:
  assumes "called opts n s" "Suc n \<le> M"
  shows "wp (object_answered opts ty env originalLen toolMap (Suc n) r)
     (\<lambda>_. rounds opts (Suc n)) (\<lambda>_. object_bounds opts M) (object_post opts ty M) s"
  unfolding object_answered_def
proof (rule wp_seq, rule wp_mono [OF wp_object_record [OF assms]])
  fix u s1 assume s1: "recorded opts n r s1"
  show "wp (if output_step toolMap r then object_exit opts ty originalLen r else object_tools opts env toolMap (Suc n) r)
      (\<lambda>_. rounds opts (Suc n)) (\<lambda>_. object_bounds opts M) (object_post opts ty M) s1"
    using wp_object_exit [OF s1 assms(2)] wp_object_tools [OF s1]
    by (auto simp: output_step_def tool_round_def step_result_def)
qed simp_all

lemma wp_object_abort:
  assumes "object_bounds opts M s"
  shows "wp (abort_step opts err) Q (\<lambda>_. object_bounds opts M) (object_post opts ty M) s"
  unfolding abort_step_def wp_reads_state
  by (rule wp_seq, rule wp_mono [OF wp_fireOnFinish])
    (use object_bounds_core [OF assms] in \<open>auto intro: object_post_error\<close>)

lemma wp_object_quiet:
  assumes "quiet_stmt m" "P s" "\<And>s'. P s \<Longrightarrow> quiet s s' \<Longrightarrow> P s'" "\<And>s'. P s' \<Longrightarrow> object_bounds opts M s'"
    and "\<And>x s'. P s' \<Longrightarrow> wp (f x) Q (\<lambda>_. object_bounds opts M) R s'"
  shows "wp (andThen m f) Q (\<lambda>_. object_bounds opts M) R s"
proof (rule wp_seq)
  show "wp m (\<lambda>_. P) (\<lambda>_. object_bounds opts M) R s"
    by (rule wp_quiet [OF assms(1)]) (use assms(2,3,4) in blast)+
qed (rule assms(5))

lemma wp_object_returned:
  assumes "called opts n s" "Suc n \<le> M"
  shows "wp (object_returned opts ty env originalLen toolMap (Suc n) re)
     (\<lambda>_. rounds opts (Suc n)) (\<lambda>_. object_bounds opts M) (object_post opts ty M) s"
proof (cases re)
  case (Pair result err)
  show ?thesis
  proof (cases "err = None \<and> result = None")
    case True
    then show ?thesis
      using Pair called_bounds [OF assms] by (simp add: object_returned_def)
  next
    case False
    have "wp (andThen (response_hooks opts result err) (\<lambda>_. case err of
            Some e \<Rightarrow> abort_step opts e
          | None \<Rightarrow> object_answered opts ty env originalLen toolMap (Suc n) (the result)))
        (\<lambda>_. rounds opts (Suc n)) (\<lambda>_. object_bounds opts M) (object_post opts ty M) s"
      by (rule wp_object_quiet [where P = "called opts n", OF quiet_response_hooks assms(1)])
        (use assms(2) in \<open>auto intro: called_quiet called_bounds wp_object_abort [OF called_bounds] wp_object_answered
          split: option.split\<close>)
    then show ?thesis
      using Pair False by (auto simp: object_returned_def simp del: wp_andThen)
  qed
qed

lemma wp_object_step:
  assumes "rounds opts n s" "Suc n \<le> M"
  shows "wp (object_step opts ty env model originalLen toolMap (Suc n))
     (object_step_post opts M n) (\<lambda>_. object_bounds opts M) (object_post opts ty M) s"
proof -
  have bounds: "object_bounds opts M s'" if "rounds opts n s'" for s'
    using rounds_bounds [OF that] assms(2) by simp
  have call: "wp (andThen (object_call opts env model) (\<lambda>re.
        andThen (object_returned opts ty env originalLen toolMap (Suc n) re) (\<lambda>_. pure False)))
      (object_step_post opts M n) (\<lambda>_. object_bounds opts M) (object_post opts ty M) s'" if "rounds opts n s'" for s'
  proof (rule wp_seq, rule wp_mono [OF wp_object_call [OF that]])
    fix re s1 assume "called opts n s1"
    then show "wp (andThen (object_returned opts ty env originalLen toolMap (Suc n) re) (\<lambda>_. pure False))
        (object_step_post opts M n) (\<lambda>_. object_bounds opts M) (object_post opts ty M) s1"
      by (intro wp_seq [OF wp_object_returned]) (use assms(2) in \<open>auto simp: object_step_post_def\<close>)
  qed (use called_bounds assms(2) in auto)
  show ?thesis
    unfolding object_step_def
  proof (rule wp_object_quiet [where P = "rounds opts n", OF quiet_before_step assms(1)])
    fix stop s1 assume s1: "rounds opts n s1"
    have "wp (andThen (request_hooks opts) (\<lambda>_. andThen (object_call opts env model) (\<lambda>re.
          andThen (object_returned opts ty env originalLen toolMap (Suc n) re) (\<lambda>_. pure False))))
        (object_step_post opts M n) (\<lambda>_. object_bounds opts M) (object_post opts ty M) s1"
      by (rule wp_object_quiet [where P = "rounds opts n", OF quiet_request_hooks s1])
        (use rounds_quiet bounds call in auto)
    then show "wp (if stop then pure True else andThen (request_hooks opts) (\<lambda>_. andThen (object_call opts env model) (\<lambda>re.
          andThen (object_returned opts ty env originalLen toolMap (Suc n) re) (\<lambda>_. pure False))))
        (object_step_post opts M n) (\<lambda>_. object_bounds opts M) (object_post opts ty M) s1"
      using bounds [OF s1] by (cases stop) (auto simp: object_step_post_def simp del: wp_andThen)
  qed (use rounds_quiet bounds in auto)
qed

lemma wp_object_loop:
  assumes "rounds opts n s" "n + left \<le> M"
  shows "wp (object_loop opts ty env model originalLen toolMap left (Suc n))
     (\<lambda>_. object_bounds opts M) (\<lambda>_. object_bounds opts M) (object_post opts ty M) s"
  using assms
proof (induction left arbitrary: n s)
  case 0
  then show ?case by (simp add: rounds_bounds)
next
  case (Suc left)
  have "Suc n \<le> M" using Suc.prems(2) by simp
  show ?case unfolding object_loop.simps
  proof (rule wp_seq, rule wp_object_step [OF Suc.prems(1) \<open>Suc n \<le> M\<close>])
    fix stop s1 assume "object_step_post opts M n stop s1"
    then show "wp (if stop then pure () else object_loop opts ty env model originalLen toolMap left (Suc (Suc n)))
        (\<lambda>_. object_bounds opts M) (\<lambda>_. object_bounds opts M) (object_post opts ty M) s1"
      using Suc.IH [of "Suc n" s1] Suc.prems(2) by (cases stop) (auto simp: object_step_post_def)
  qed
qed

lemma wp_object_exhausted:
  assumes "object_bounds opts M s"
  shows "wp (object_exhausted opts) Q (\<lambda>_. object_bounds opts M) (object_post opts ty M) s"
  unfolding object_exhausted_def wp_reads_state
  by (rule wp_seq, rule wp_mono [OF wp_fireOnFinish])
    (use object_bounds_core [OF assms] in \<open>auto intro: object_post_error\<close>)

section \<open>The function\<close>

lemma wp_object_body:
  "wp (object_body opts ty env) Q (\<lambda>_. object_bounds opts (step_bound opts)) (object_post opts ty (step_bound opts)) (start_run [])"
proof -
  let ?M = "step_bound opts"
  have start: "rounds opts 0 (start_run [])" "rounds opts 0 ((start_run [])\<lparr>rParams := p\<rparr>)" for p
    by (simp_all add: rounds_def start_run_def)
  have b: "object_bounds opts ?M (start_run [])" "object_bounds opts ?M ((start_run [])\<lparr>rParams := p\<rparr>)" for p
    by (simp_all add: object_bounds_def start_run_def)
  have loop: "wp (andThen (object_loop opts ty env model len toolMap (nat (oMaxSteps opts)) (Suc 0)) (\<lambda>_. object_exhausted opts))
      Q (\<lambda>_. object_bounds opts ?M) (object_post opts ty ?M) ((start_run [])\<lparr>rParams := p\<rparr>)" for model len toolMap p
    by (rule wp_seq, rule wp_object_loop [OF start(2)]) (simp_all add: step_bound_def wp_object_exhausted)
  show ?thesis
    using loop b
    by (auto simp: object_body_def object_post_error Let_def simp del: wp_andThen [of "object_loop _ _ _ _ _ _ _ _"] split: option.split sum.split)
qed

lemma wp_GenerateObject:
  "wp (GenerateObject_stmt opts ty env) (\<lambda>_ _. False) (\<lambda>_ _. False) (object_post opts ty (step_bound opts)) (start_run [])"
proof -
  let ?M = "step_bound opts"
  have "object_bounds opts ?M (s\<lparr>hist := hist s @ panic_events n ph p\<rparr>)" if "object_bounds opts ?M s" for s n ph p
    using that by (simp add: object_bounds_def)
  then show ?thesis
    unfolding GenerateObject_stmt_def
    by (auto intro!: wp_mono [OF wp_object_body] object_post_error)
qed

lemma GenerateObject_runs:
  obtains r s where "GenerateObject_stmt opts ty env (start_run []) = (Returns r, s)"
    "GenerateObject opts ty env = (r, hist s)" "object_post opts ty (step_bound opts) r s"
  using wp_GenerateObject [of opts ty env] that
  by (cases "GenerateObject_stmt opts ty env (start_run [])")
    (auto simp: wp_def GenerateObject_def split: outcome.splits)

text \<open>
  C14: \<open>GenerateObject\<close> always returns, after at most \<open>MaxSteps * (MaxRetries + 1)\<close> model calls and without
  touching the published state; and when it returns an object, that object is what the text of the last step
  decodes to, the steps before it are all rounds of tool calls and numbered from 1 within \<open>MaxSteps\<close>, the
  usage is their sum, and \<open>OnFinish\<close> fired exactly once per hook, with the totals of the result.
\<close>

theorem GenerateObject_result:
  "\<exists>r s. GenerateObject_stmt opts ty env (start_run []) = (Returns r, s) \<and> GenerateObject opts ty env = (r, hist s) \<and>
     model_calls (hist s) \<le> nat (oMaxSteps opts) * (nat (oMaxRetries opts) + 1) \<and> states (hist s) = [] \<and>
     (case r of
        Inl err \<Rightarrow> True
      | Inr res \<Rightarrow> obSteps res \<noteq> [] \<and> map srNumber (obSteps res) = [1..<Suc (length (obSteps res))] \<and>
          int (length (obSteps res)) \<le> oMaxSteps opts \<and>
          obUsage res = total_usage (map srUsage (obSteps res)) \<and> list_all tool_round (butlast (obSteps res)) \<and>
          otUnmarshal ty (srText (last (obSteps res))) = Inr (obObject res) \<and>
          finishes (hist s) = replicate (length (oOnFinish opts)) (EvFinish (natural_finish res)))"
proof -
  obtain r s where run: "GenerateObject_stmt opts ty env (start_run []) = (Returns r, s)"
      "GenerateObject opts ty env = (r, hist s)" and post: "object_post opts ty (step_bound opts) r s"
    by (rule GenerateObject_runs)
  have "obSteps res \<noteq> [] \<and> map srNumber (obSteps res) = [1..<Suc (length (obSteps res))] \<and>
      int (length (obSteps res)) \<le> oMaxSteps opts" if r: "r = Inr res" for res
  proof -
    obtain n where n: "n < nat (oMaxSteps opts)" "map srNumber (obSteps res) = [1..<Suc (Suc n)]"
      using post r by (auto simp: object_post_def object_ok_def step_bound_def simp del: upt_Suc)
    have "length (map srNumber (obSteps res)) = Suc n"
      unfolding n(2) by (simp del: upt_Suc)
    then have "length (obSteps res) = Suc n"
      by simp
    with n show ?thesis
      by (auto simp del: upt_Suc)
  qed
  with run post show ?thesis
    by (auto simp: object_post_def object_ok_def object_bounds_def budget_def step_bound_def simp del: upt_Suc split: sum.splits)
qed

section \<open>How a loop without output ends\<close>

definition text_type :: "string object_type" where
  "text_type = \<lparr>otSchema = ''{}'', otUnmarshal = (\<lambda>s. if s = ''done'' then Inr s else Inl (ErrMsg ''bad'')), otZero = []\<rparr>"

definition object_sample :: object_options where
  "object_sample = gen_options.extend sample_options (object_options.fields None [])"

definition stopping_sample :: object_options where
  "stopping_sample = object_sample\<lparr>oOnBeforeStep := Some (\<lambda>_ _. Inr \<lparr>brExtraMessages = [], brStop = True\<rparr>)\<rparr>"

definition prose_env :: gen_env where
  "prose_env = sample_env\<lparr>geModel := Some (\<lambda>_ _. Inr (Some
     (zero_Result\<lparr>grText := ''prose'', grFinishReason := FinishStop\<rparr>), None))\<rparr>"

definition tool_env :: gen_env where
  "tool_env = sample_env\<lparr>geModel := Some (\<lambda>h params. map_sum id (\<lambda>(r, e).
     (map_option (\<lambda>r. if grToolCalls r = [] then r else r\<lparr>grFinishReason := FinishToolCalls\<rparr>) r, e)) (sample_model h params))\<rparr>"

text \<open>A run in which the tool is called once and the object follows.\<close>

lemma object_after_tool:
  "map_sum id (\<lambda>r. (obObject r, map srNumber (obSteps r))) (fst (GenerateObject object_sample text_type tool_env)) =
     Inr (''done'', [1, 2])"
  by code_simp

text \<open>
  The two tool loops are not the same: a model that asks for a tool under another finish reason has it executed
  by \<open>GenerateText\<close>, while \<open>GenerateObject\<close> takes the step for the answer and finds it empty.
\<close>

lemma tool_call_under_other_reason:
  "map_sum id txText (fst (GenerateText sample_options sample_env)) = Inr ''done''"
  "map_sum error_text obObject (fst (GenerateObject object_sample text_type sample_env)) =
     Inl ''goai: empty response from model''"
  by code_simp+

text \<open>
  When \<open>OnBeforeStep\<close> stops the loop, the caller is told that the step limit was reached, although here one
  step of three was made.
\<close>

lemma stop_reported_as_exhausted:
  "(case GenerateObject stopping_sample text_type tool_env of (r, h) \<Rightarrow>
     (r = Inl (steps_exhausted_error 3), map (\<lambda>e. case e of EvFinish i \<Rightarrow> (fiStepsExhausted i, fiTotalSteps i, fiStoppedBy i)) (finishes h)))
   = (True, [(True, 1, StopCauseMaxSteps)])"
  by code_simp

text \<open>When the answer does not decode, \<open>OnFinish\<close> never fires.\<close>

lemma unparsable_without_finish:
  "map_prod (map_sum error_text obObject) finishes (GenerateObject object_sample text_type prose_env) =
     (Inl ''parsing structured output: bad (raw: prose)'', [])"
  by code_simp

end
