(* ===== verification/ObjectStream.thy ===== *)
theory ObjectStream
  imports ObjectLoop StreamLoop ConsumeFacts PartialJson
begin

text \<open>
  Streamed structured output, \<open>StreamObject\<close> and \<open>ObjectStream\<close> of \<open>src/object.go\<close>: one request whose text
  is decoded chunk by chunk, repaired where it breaks off, and once more as a whole at the end. The reader
  receives partial objects as long as \<open>alive\<close> says so, check by check; after that its context is done.
\<close>

section \<open>The reader\<close>

record 'a object_stream = world +
  ojText :: string
  ojContent :: "Part list option"
  ojFinishReason :: FinishReason
  ojUsage :: Usage
  ojResponse :: ResponseMetadata
  ojProviderMetadata :: metamap
  ojFinalObject :: "'a option"
  ojParseErr :: "go_error option"
  ojStreamErr :: "go_error option"
  ojPartialOut :: "'a list" \<comment> \<open>received through \<open>PartialObjectStream()\<close>\<close>
  ojChecks :: nat

definition newObjectStream :: "event list \<Rightarrow> 'a object_stream" where
  "newObjectStream h = \<lparr>hist = h, ojText = [], ojContent = None, ojFinishReason = FinishNone, ojUsage = zero_Usage,
     ojResponse = zero_Response, ojProviderMetadata = [], ojFinalObject = None, ojParseErr = None, ojStreamErr = None,
     ojPartialOut = [], ojChecks = 0\<rparr>"

definition object_chunk :: "StreamChunk \<Rightarrow> 'a object_stream \<Rightarrow> 'a object_stream" where
  "object_chunk chunk s =
     (case scType chunk of
        ChunkText \<Rightarrow> s\<lparr>ojText := ojText s @ scText chunk\<rparr>
      | ChunkFinish \<Rightarrow>
          s\<lparr>ojContent := scContent chunk, ojFinishReason := scFinishReason chunk, ojUsage := scUsage chunk,
            ojResponse := with_flat_metadata (scMetadata chunk) (scResponse chunk),
            ojProviderMetadata := metadata_providers chunk (ojProviderMetadata s)\<rparr>
      | ChunkError \<Rightarrow> if ojStreamErr s = None then s\<lparr>ojStreamErr := scError chunk\<rparr> else s
      | _ \<Rightarrow> s)"

definition emit_partial :: "'a object_type \<Rightarrow> (nat \<Rightarrow> bool) \<Rightarrow> StreamChunk \<Rightarrow> 'a object_stream \<Rightarrow> bool \<times> 'a object_stream" where
  "emit_partial ty alive chunk s =
     (if scType chunk = ChunkText then
        (case parsePartialJSON (otUnmarshal ty) (ojText s) of
           Inl _ \<Rightarrow> (True, s)
         | Inr obj \<Rightarrow>
             if alive (ojChecks s)
             then (True, s\<lparr>ojPartialOut := ojPartialOut s @ [obj], ojChecks := Suc (ojChecks s)\<rparr>)
             else (False, s))
      else (True, s))"

definition parse_final :: "'a object_type \<Rightarrow> 'a object_stream \<Rightarrow> 'a object_stream" where
  "parse_final ty s =
     (if ojText s = [] then s
      else case otUnmarshal ty (ojText s) of
        Inl err \<Rightarrow> s\<lparr>ojParseErr := Some err\<rparr>
      | Inr obj \<Rightarrow> s\<lparr>ojFinalObject := Some obj\<rparr>)"

fun object_reader :: "bool \<Rightarrow> (nat \<Rightarrow> bool) \<Rightarrow> go_error \<Rightarrow> 'a object_type \<Rightarrow> StreamChunk list \<Rightarrow> 'a object_stream \<Rightarrow> 'a object_stream" where
  "object_reader partialOut alive ctxErr ty [] s = parse_final ty s"
| "object_reader partialOut alive ctxErr ty (chunk # source) s =
     (let s1 = object_chunk chunk s in
      if partialOut then
        (case emit_partial ty alive chunk s1 of
           (True, s2) \<Rightarrow> object_reader partialOut alive ctxErr ty source s2
         | (False, s2) \<Rightarrow> s2\<lparr>ojStreamErr := Some ctxErr\<rparr>)
      else if alive (ojChecks s1)
      then object_reader partialOut alive ctxErr ty source (s1\<lparr>ojChecks := Suc (ojChecks s1)\<rparr>)
      else s1\<lparr>ojStreamErr := Some ctxErr\<rparr>)"

section \<open>The deferred callbacks\<close>

type_synonym 'a object_read = "('a object_stream, unit, unit) stmt"

definition object_response_info :: "'a object_stream \<Rightarrow> ResponseInfo" where
  "object_response_info s = \<lparr>rsUsage = ojUsage s, rsFinishReason = ojFinishReason s, rsError = ojStreamErr s,
     rsStatusCode = error_status (ojStreamErr s)\<rparr>"

definition object_step_result :: "'a object_stream \<Rightarrow> StepResult" where
  "object_step_result s = \<lparr>srContent = ojContent s, srNumber = 1, srText = ojText s, srReasoning = [],
     srToolCalls = [], srToolResults = [], srFinishReason = ojFinishReason s, srUsage = ojUsage s,
     srResponse = ojResponse s, srProviderMetadata = ojProviderMetadata s, srSources = []\<rparr>"

definition object_finish_info :: "'a object_stream \<Rightarrow> FinishInfo" where
  "object_finish_info s = \<lparr>fiStepsExhausted = False, fiTotalSteps = 1, fiTotalUsage = ojUsage s,
     fiFinishReason = ojFinishReason s, fiStoppedBy = StopCauseNatural\<rparr>"

definition object_deferred_response :: "stream_hooks \<Rightarrow> 'a object_read" where
  "object_deferred_response hs = reads_state (\<lambda>s.
     call_hooks (shOnPanic hs) ''OnResponse'' (EvResponse (object_response_info s)) (shOnResponse hs)
       (object_response_info s))"

definition object_deferred_step :: "stream_hooks \<Rightarrow> 'a object_read" where
  "object_deferred_step hs = reads_state (\<lambda>s.
     call_hooks (shOnPanic hs) ''OnStepFinish'' (EvStepFinish (object_step_result s)) (shOnStepFinish hs)
       (object_step_result s))"

definition object_deferred_finish :: "stream_hooks \<Rightarrow> 'a object_read" where
  "object_deferred_finish hs = reads_state (\<lambda>s.
     call_hooks (shOnPanic hs) ''OnFinish'' (EvFinish (object_finish_info s)) (shOnFinish hs) (object_finish_info s))"

definition set_object_err :: "go_error \<Rightarrow> 'a object_stream \<Rightarrow> 'a object_stream" where
  "set_object_err e s = (if ojStreamErr s = None then s\<lparr>ojStreamErr := Some e\<rparr> else s)"

definition consume_object :: "stream_hooks \<Rightarrow> bool \<Rightarrow> (nat \<Rightarrow> bool) \<Rightarrow> go_error \<Rightarrow> 'a object_type \<Rightarrow> StreamChunk list \<Rightarrow> 'a object_read" where
  "consume_object hs partialOut alive ctxErr ty source =
     recoverToStreamErr (shOnPanic hs) ''stream'' set_object_err
       (deferring (deferring (deferring
          (modify (object_reader partialOut alive ctxErr ty source))
          (object_deferred_response hs)) (object_deferred_step hs)) (object_deferred_finish hs))"

section \<open>The result\<close>

definition object_result :: "'a object_type \<Rightarrow> 'a object_stream \<Rightarrow> go_error + 'a ObjectResult" where
  "object_result ty s =
     (case ojStreamErr s of
        Some err \<Rightarrow> Inl err
      | None \<Rightarrow>
          (case ojParseErr s of
             Some err \<Rightarrow> Inl (unparsable err (ojText s))
           | None \<Rightarrow> Inr
               \<lparr>obObject = (case ojFinalObject s of Some obj \<Rightarrow> obj | None \<Rightarrow> otZero ty),
                obUsage = ojUsage s, obFinishReason = ojFinishReason s, obResponse = ojResponse s,
                obProviderMetadata = ojProviderMetadata s,
                obResponseMessages =
                  (if ojText s \<noteq> [] \<or> (ojContent s \<noteq> None \<and> ojContent s \<noteq> Some [])
                   then buildFinalAssistantMessages (ojText s) [] [] (ojContent s) else []),
                obSteps = []\<rparr>))"

section \<open>StreamObject\<close>

record object_handle =
  ohSource :: "StreamChunk list"
  ohHooks :: stream_hooks

definition StreamObject_stmt :: "'z object_options_scheme \<Rightarrow> 'a object_type \<Rightarrow> stream_env \<Rightarrow>
    (text_run, go_error + object_handle, unit) stmt" where
  "StreamObject_stmt opts ty env =
     recoverToError (oOnPanic opts)
       (case seModel env of
          None \<Rightarrow> return_early (Inl (ErrMsg ''goai: model must not be nil''))
        | Some model \<Rightarrow>
            if oPrompt opts = [] \<and> oMessages opts = []
            then return_early (Inl (ErrMsg ''goai: prompt or messages must not be empty''))
            else case buildToolMap (oTools opts) of
                Inl err \<Rightarrow> return_early (Inl err)
              | Inr _ \<Rightarrow>
                  andThen (modify (rParams_update (\<lambda>_. object_params opts ty))) (\<lambda>_.
                  andThen (request_hooks opts) (\<lambda>_.
                  andThen (open_stream opts env model) (\<lambda>(result, err).
                    case err of
                      Some e \<Rightarrow> andThen (failed_response opts e) (\<lambda>_. return_early (Inl e))
                    | None \<Rightarrow>
                        (case result of
                           None \<Rightarrow> go_panics nil_dereference
                         | Some source \<Rightarrow> return_early (Inr \<lparr>ohSource = source,
                             ohHooks = \<lparr>shOnResponse = oOnResponse opts, shOnStepFinish = oOnStepFinish opts,
                               shOnFinish = oOnFinish opts, shOnPanic = oOnPanic opts, shStateRef = False\<rparr>\<rparr>))))))"

definition StreamObject :: "'z object_options_scheme \<Rightarrow> 'a object_type \<Rightarrow> stream_env \<Rightarrow> (go_error + object_handle) \<times> event list" where
  "StreamObject opts ty env =
     (case StreamObject_stmt opts ty env (start_run []) of
        (Returns r, s) \<Rightarrow> (r, hist s)
      | (Value _, s) \<Rightarrow> (Inl (ErrMsg []), hist s)
      | (Panics _, s) \<Rightarrow> (Inl (ErrMsg []), hist s))"

section \<open>Partial objects\<close>

definition text_of :: "StreamChunk list \<Rightarrow> string list" where
  "text_of cs = map scText (filter (\<lambda>c. scType c = ChunkText) cs)"

text \<open>What can be read off the text after each chunk.\<close>

definition partial_at :: "'a object_type \<Rightarrow> string \<Rightarrow> 'a option" where
  "partial_at ty txt = (case parsePartialJSON (otUnmarshal ty) txt of Inr obj \<Rightarrow> Some obj | Inl _ \<Rightarrow> None)"

fun partials :: "'a object_type \<Rightarrow> string \<Rightarrow> string list \<Rightarrow> 'a list" where
  "partials ty acc [] = []"
| "partials ty acc (t # ts) =
     (case partial_at ty (acc @ t) of Some obj \<Rightarrow> [obj] | None \<Rightarrow> []) @ partials ty (acc @ t) ts"

lemma partials_upt:
  "partials ty acc ts = List.map_filter (\<lambda>i. partial_at ty (acc @ concat (take (Suc i) ts))) [0..<length ts]"
proof (induction ts arbitrary: acc)
  case (Cons t ts)
  have "[0..<length (t # ts)] = 0 # map Suc [0..<length ts]"
    by (simp add: upt_conv_Cons map_Suc_upt del: upt_Suc)
  then show ?case
    by (simp add: Cons.IH List.map_filter_def filter_map comp_def split: option.split)
qed (simp add: List.map_filter_def)

lemma partials_last:
  assumes "ts \<noteq> []" "otUnmarshal ty (acc @ concat ts) = Inr obj"
  shows "partials ty acc ts \<noteq> [] \<and> last (partials ty acc ts) = obj"
  using assms
proof (induction ts arbitrary: acc)
  case (Cons t ts)
  show ?case
  proof (cases "ts = []")
    case True
    then show ?thesis
      using Cons.prems(2) by (simp add: partial_at_def parsePartialJSON_def)
  next
    case False
    then show ?thesis
      using Cons.IH [of "acc @ t"] Cons.prems(2) by simp
  qed
qed simp

text \<open>The chunks without an error of their own, read by a caller that keeps receiving.\<close>

definition error_free :: "StreamChunk list \<Rightarrow> bool" where
  "error_free cs \<longleftrightarrow> list_all (\<lambda>c. scType c \<noteq> ChunkError) cs"

lemma object_chunk_text: "scType c = ChunkText \<Longrightarrow> object_chunk c s = s\<lparr>ojText := ojText s @ scText c\<rparr>"
  by (simp add: object_chunk_def)

lemma object_chunk_kept:
  assumes "scType c \<noteq> ChunkError"
  shows "ojStreamErr (object_chunk c s) = ojStreamErr s" "ojParseErr (object_chunk c s) = ojParseErr s"
    "ojFinalObject (object_chunk c s) = ojFinalObject s" "ojPartialOut (object_chunk c s) = ojPartialOut s"
  using assms by (simp_all add: object_chunk_def split: StreamChunkType.split)

lemma object_chunk_text_of:
  "ojText (object_chunk c s) = ojText s @ (if scType c = ChunkText then scText c else [])"
  by (simp add: object_chunk_def split: StreamChunkType.split)

text \<open>All that \<open>object_result\<close> looks at.\<close>

definition final_data :: "'a object_stream \<Rightarrow> _" where
  "final_data s = (ojText s, ojContent s, ojFinishReason s, ojUsage s, ojResponse s, ojProviderMetadata s,
     ojFinalObject s, ojParseErr s, ojStreamErr s)"

lemma final_data_chunk: "final_data s = final_data s' \<Longrightarrow> final_data (object_chunk c s) = final_data (object_chunk c s')"
  by (auto simp: final_data_def object_chunk_def split: StreamChunkType.split)

lemma final_data_parse: "final_data s = final_data s' \<Longrightarrow> final_data (parse_final ty s) = final_data (parse_final ty s')"
  by (auto simp: final_data_def parse_final_def split: sum.split)

lemma emit_partial_open:
  "emit_partial ty (\<lambda>_. True) c s = (True, snd (emit_partial ty (\<lambda>_. True) c s))"
  "final_data (snd (emit_partial ty (\<lambda>_. True) c s)) = final_data s"
  "ojPartialOut (snd (emit_partial ty (\<lambda>_. True) c s)) = ojPartialOut s @
     (if scType c = ChunkText then (case partial_at ty (ojText s) of Some obj \<Rightarrow> [obj] | None \<Rightarrow> []) else [])"
  by (simp_all add: emit_partial_def partial_at_def final_data_def split: sum.split)

lemma object_reader_step:
  "object_reader True (\<lambda>_. True) ctxErr ty (c # cs) s =
     object_reader True (\<lambda>_. True) ctxErr ty cs (snd (emit_partial ty (\<lambda>_. True) c (object_chunk c s)))"
  "object_reader False (\<lambda>_. True) ctxErr ty (c # cs) s =
     object_reader False (\<lambda>_. True) ctxErr ty cs ((object_chunk c s)\<lparr>ojChecks := Suc (ojChecks (object_chunk c s))\<rparr>)"
  by (subst object_reader.simps, subst emit_partial_open(1), simp add: Let_def) (simp add: Let_def)

lemma reader_same_data:
  "final_data s = final_data s' \<Longrightarrow>
     final_data (object_reader True (\<lambda>_. True) ctxErr ty cs s) = final_data (object_reader False (\<lambda>_. True) ctxErr' ty cs s')"
proof (induction cs arbitrary: s s')
  case Nil
  then show ?case unfolding object_reader.simps by (rule final_data_parse)
next
  case (Cons c cs)
  have "final_data (snd (emit_partial ty (\<lambda>_. True) c (object_chunk c s))) =
      final_data ((object_chunk c s')\<lparr>ojChecks := Suc (ojChecks (object_chunk c s'))\<rparr>)"
    using final_data_chunk [OF Cons.prems] by (simp add: emit_partial_open(2)) (simp add: final_data_def)
  from Cons.IH [OF this] show ?case
    by (simp only: object_reader_step)
qed

lemma reader_partials:
  "ojPartialOut (object_reader True (\<lambda>_. True) ctxErr ty cs s) = ojPartialOut s @ partials ty (ojText s) (text_of cs)"
proof (induction cs arbitrary: s)
  case Nil
  then show ?case by (simp add: text_of_def parse_final_def split: sum.split)
next
  case (Cons c cs)
  let ?s = "snd (emit_partial ty (\<lambda>_. True) c (object_chunk c s))"
  have same_text: "ojText ?s = ojText (object_chunk c s)"
    using emit_partial_open(2) [of ty c "object_chunk c s"] by (simp add: final_data_def)
  have "ojPartialOut (object_chunk c s) = ojPartialOut s"
    by (simp add: object_chunk_def split: StreamChunkType.split)
  then show ?case
    unfolding object_reader_step Cons.IH emit_partial_open(3) same_text object_chunk_text_of
    by (simp add: text_of_def)
qed

lemma reader_final:
  assumes "error_free cs" "ojStreamErr s = None" "ojParseErr s = None" "ojFinalObject s = None"
  shows "let s' = object_reader False (\<lambda>_. True) ctxErr ty cs s; t = ojText s @ concat (text_of cs) in
    ojText s' = t \<and> ojStreamErr s' = None \<and>
    (ojParseErr s', ojFinalObject s') =
      (if t = [] then (None, None) else case otUnmarshal ty t of Inl e \<Rightarrow> (Some e, None) | Inr obj \<Rightarrow> (None, Some obj))"
  using assms
proof (induction cs arbitrary: s)
  case Nil
  then show ?case by (simp add: text_of_def parse_final_def Let_def split: sum.split)
next
  case (Cons c cs)
  let ?s = "(object_chunk c s)\<lparr>ojChecks := Suc (ojChecks (object_chunk c s))\<rparr>"
  have c: "scType c \<noteq> ChunkError" "error_free cs"
    using Cons.prems(1) by (simp_all add: error_free_def)
  have "ojStreamErr ?s = None" "ojParseErr ?s = None" "ojFinalObject ?s = None"
    using Cons.prems(2-4) by (simp_all add: object_chunk_kept [OF c(1)])
  from Cons.IH [OF c(2) this] show ?case
    unfolding object_reader_step by (simp add: object_chunk_text_of text_of_def Let_def)
qed

lemma object_result_data: "final_data s = final_data s' \<Longrightarrow> object_result ty s = object_result ty s'"
  by (auto simp: final_data_def object_result_def split: option.split)

text \<open>
  Reading an error-free stream of structured output to its end yields, through
  \<open>PartialObjectStream\<close>, one object for every text chunk after which the text so far decodes, as it is or
  repaired, in order; when the whole text decodes, the last partial object is the final one. \<open>Result\<close> is
  the same whether partial objects were read or not: the decoded text, the zero object for no text, or the
  decoding error.
\<close>

theorem object_stream_partials:
  assumes "error_free cs"
  shows "let s = object_reader True (\<lambda>_. True) ctxErr ty cs (newObjectStream h);
             s' = object_reader False (\<lambda>_. True) ctxErr ty cs (newObjectStream h);
             ts = text_of cs; t = concat ts
    in ojPartialOut s = List.map_filter (\<lambda>i. partial_at ty (concat (take (Suc i) ts))) [0..<length ts] \<and>
       object_result ty s = object_result ty s' \<and>
       (case object_result ty s of
          Inr res \<Rightarrow> t = [] \<and> obObject res = otZero ty \<or>
            otUnmarshal ty t = Inr (obObject res) \<and> ojPartialOut s \<noteq> [] \<and> last (ojPartialOut s) = obObject res
        | Inl err \<Rightarrow> \<exists>e. otUnmarshal ty t = Inl e \<and> err = unparsable e t)"
proof -
  let ?s = "object_reader True (\<lambda>_. True) ctxErr ty cs (newObjectStream h :: 'a object_stream)"
  let ?s' = "object_reader False (\<lambda>_. True) ctxErr ty cs (newObjectStream h :: 'a object_stream)"
  have partials: "ojPartialOut ?s = partials ty [] (text_of cs)"
    by (simp add: reader_partials newObjectStream_def)
  have same: "object_result ty ?s = object_result ty ?s'"
    by (rule object_result_data, rule reader_same_data, rule refl)
  have fin: "ojText ?s' = concat (text_of cs)" "ojStreamErr ?s' = None"
    "(ojParseErr ?s', ojFinalObject ?s') = (if concat (text_of cs) = [] then (None, None)
       else case otUnmarshal ty (concat (text_of cs)) of Inl e \<Rightarrow> (Some e, None) | Inr obj \<Rightarrow> (None, Some obj))"
    using reader_final [OF assms, of "newObjectStream h" ctxErr ty] by (simp_all add: newObjectStream_def Let_def)
  have "case object_result ty ?s' of
          Inr res \<Rightarrow> concat (text_of cs) = [] \<and> obObject res = otZero ty \<or>
            otUnmarshal ty (concat (text_of cs)) = Inr (obObject res) \<and> partials ty [] (text_of cs) \<noteq> [] \<and>
              last (partials ty [] (text_of cs)) = obObject res
        | Inl err \<Rightarrow> \<exists>e. otUnmarshal ty (concat (text_of cs)) = Inl e \<and> err = unparsable e (concat (text_of cs))"
  proof (cases "concat (text_of cs) = []")
    case True
    then show ?thesis using fin by (simp add: object_result_def)
  next
    case False
    then have "text_of cs \<noteq> []" by auto
    note last_partial = partials_last [OF this, of ty "[]"]
    show ?thesis
    proof (cases "otUnmarshal ty (concat (text_of cs))")
      case (Inl e)
      then have "ojParseErr ?s' = Some e"
        using fin(3) False by (simp del: concat_eq_Nil_conv)
      then show ?thesis
        using Inl fin(1,2) by (simp add: object_result_def)
    next
      case (Inr obj)
      then have "ojParseErr ?s' = None" "ojFinalObject ?s' = Some obj"
        using fin(3) False by (simp_all del: concat_eq_Nil_conv)
      then show ?thesis
        using Inr fin(1,2) last_partial by (simp add: object_result_def)
    qed
  qed
  then show ?thesis
    using partials_upt [of ty "[]" "text_of cs"] by (simp only: Let_def same partials) simp
qed

definition digits_type :: "string object_type" where
  "digits_type = \<lparr>otSchema = ''{}'', otUnmarshal = (\<lambda>s. if s = ''[1]'' \<or> s = ''[1,2]'' then Inr s else Inl (ErrMsg ''bad'')), otZero = []\<rparr>"

definition text_chunks :: "string list \<Rightarrow> StreamChunk list" where
  "text_chunks ts = map (\<lambda>t. zero_Chunk\<lparr>scType := ChunkText, scText := t\<rparr>) ts"

theorem object_stream_partials_witness:
  "ojPartialOut (object_reader True (\<lambda>_. True) (ErrMsg []) digits_type (text_chunks [''[1'', '',2'', '']'']) (newObjectStream [])) =
     [''[1]'', ''[1,2]'', ''[1,2]'']"
proof -
  have "error_free (text_chunks [''[1'', '',2'', '']''])"
    by (simp add: error_free_def text_chunks_def)
  moreover have "text_of (text_chunks [''[1'', '',2'', '']'']) = [''[1'', '',2'', '']'']"
    by (simp add: text_of_def text_chunks_def)
  moreover have "partial_at digits_type ''[1'' = Some ''[1]''" "partial_at digits_type ''[1,2'' = Some ''[1,2]''"
      "partial_at digits_type ''[1,2]'' = Some ''[1,2]''"
    by code_simp+
  ultimately show ?thesis
    using object_stream_partials [of "text_chunks [''[1'', '',2'', '']'']" "ErrMsg []" digits_type "[]"]
    by (simp add: Let_def List.map_filter_def numeral_3_eq_3)
qed

section \<open>The end of the stream\<close>

lemma object_deferred_hooks:
  "object_deferred_response hs (s\<lparr>hist := h\<rparr>) =
     call_hooks (shOnPanic hs) ''OnResponse'' (EvResponse (object_response_info s)) (shOnResponse hs)
       (object_response_info s) (s\<lparr>hist := h\<rparr>)"
  "object_deferred_step hs (s\<lparr>hist := h\<rparr>) =
     call_hooks (shOnPanic hs) ''OnStepFinish'' (EvStepFinish (object_step_result s)) (shOnStepFinish hs)
       (object_step_result s) (s\<lparr>hist := h\<rparr>)"
  "object_deferred_finish hs (s\<lparr>hist := h\<rparr>) =
     call_hooks (shOnPanic hs) ''OnFinish'' (EvFinish (object_finish_info s)) (shOnFinish hs)
       (object_finish_info s) (s\<lparr>hist := h\<rparr>)"
  by (simp_all add: object_deferred_response_def object_deferred_step_def object_deferred_finish_def reads_state_def
      object_response_info_def object_finish_info_def object_step_result_def)

definition object_teardown :: "stream_hooks \<Rightarrow> 'a object_read" where
  "object_teardown hs = deferring (deferring (deferring (\<lambda>s. (Value (), s))
     (object_deferred_response hs)) (object_deferred_step hs)) (object_deferred_finish hs)"

definition object_events :: "stream_hooks \<Rightarrow> 'a object_stream \<Rightarrow> event list \<Rightarrow> bool" where
  "object_events hs s evs \<longleftrightarrow> (\<exists>a b c. evs = a @ b @ c \<and>
     hook_events (shOnResponse hs \<noteq> []) (EvResponse (object_response_info s)) a \<and>
     hook_events (shOnStepFinish hs \<noteq> []) (EvStepFinish (object_step_result s)) b \<and>
     hook_events (shOnFinish hs \<noteq> []) (EvFinish (object_finish_info s)) c)"

lemma adds_events_mono: "adds_events m s P \<Longrightarrow> (\<And>evs. P evs \<Longrightarrow> Q evs) \<Longrightarrow> adds_events m s Q"
  unfolding adds_events_def by blast

lemma object_teardown_events: "adds_events (object_teardown hs) s (object_events hs s)"
proof -
  note steps = adds_events_deferring [OF adds_events_deferring [OF adds_events_deferring
      [OF adds_events_pure object_deferred_hooks(1)] object_deferred_hooks(2)] object_deferred_hooks(3)]
  have "object_events hs s evs" if "\<exists>ab c. evs = ab @ c \<and> (\<exists>na b. ab = na @ b \<and> (\<exists>n a. na = n @ a \<and> n = [] \<and>
        hook_events (shOnResponse hs \<noteq> []) (EvResponse (object_response_info s)) a) \<and>
        hook_events (shOnStepFinish hs \<noteq> []) (EvStepFinish (object_step_result s)) b) \<and>
      hook_events (shOnFinish hs \<noteq> []) (EvFinish (object_finish_info s)) c" for evs
    using that unfolding object_events_def by (elim exE conjE) (simp, blast)
  with steps [of hs] show ?thesis
    unfolding object_teardown_def by (rule adds_events_mono)
qed

text \<open>
  Reading a stream of structured output always ends well: whatever the chunks, the caller's behaviour
  and the callbacks do (panics included), the reader returns, every registered group of deferred callbacks
  has been started in the order OnResponse, OnStepFinish, OnFinish with the final data of the stream, and
  an accumulated stream error is what \<open>Result\<close> reports.
\<close>

theorem consume_object_settles:
  "\<exists>s' evs. consume_object hs partialOut alive ctxErr ty source s = (Value (), s') \<and>
     hist s' = hist (object_reader partialOut alive ctxErr ty source s) @ evs \<and>
     object_events hs (object_reader partialOut alive ctxErr ty source s) evs \<and>
     (case ojStreamErr (object_reader partialOut alive ctxErr ty source s) of
        None \<Rightarrow> True | Some e \<Rightarrow> object_result ty s' = Inl e)"
proof -
  define r where "r = object_reader partialOut alive ctxErr ty source s"
  have body: "deferring (deferring (deferring (modify (object_reader partialOut alive ctxErr ty source))
      (object_deferred_response hs)) (object_deferred_step hs)) (object_deferred_finish hs) s = object_teardown hs r"
    by (simp add: object_teardown_def deferring_def modify_def r_def)
  obtain out evs where out: "object_teardown hs r = (out, r\<lparr>hist := hist r @ evs\<rparr>)"
      "out = Value () \<or> (\<exists>p. out = Panics p \<and> settled_panic p)" and evs: "object_events hs r evs"
    using object_teardown_events [of hs r] unfolding adds_events_def by blast
  show ?thesis
    unfolding r_def [symmetric]
    using out evs body
    by (cases "ojStreamErr r")
       (auto simp: consume_object_def recoverToStreamErr_def recovering_def
          settled_panic_def modify_def set_object_err_def object_result_def)
qed

text \<open>
  A stream that fails midway is reported to \<open>OnFinish\<close> as a natural end, by both single-shot readers.
\<close>

definition failing_hooks :: stream_hooks where
  "failing_hooks = no_stream_hooks\<lparr>shOnFinish := [\<lambda>_ _. Inr ()]\<rparr>"

definition stop_causes :: "event list \<Rightarrow> StopCause list" where
  "stop_causes h = List.map_filter (\<lambda>e. case e of EvFinish i \<Rightarrow> Some (fiStoppedBy i) | _ \<Rightarrow> None) h"

lemma stream_error_finishes_natural:
  "stop_causes (hist (snd (consume_object failing_hooks False (\<lambda>_. True) (ErrMsg []) digits_type
     [error_chunk (ErrMsg ''cut'')] (newObjectStream [])))) = [StopCauseNatural]"
  "stop_causes (hist (snd (consume failing_hooks False False (\<lambda>_. True) (ErrMsg [])
     [error_chunk (ErrMsg ''cut'')] (newTextStream [])))) = [StopCauseNatural]"
  by (simp_all add: stop_causes_def consume_object_def consume_def failing_hooks_def no_stream_hooks_def deferring_def
      recoverToStreamErr_def recovering_def modify_def reads_state_def object_deferred_response_def
      object_deferred_step_def object_deferred_finish_def deferred_response_def deferred_step_finish_def deferred_finish_def
      call_hooks_def callHook_def invoke_def log_event_def andThen_def pure_def finally_do_def publish_stream_idle_def
      object_finish_info_def error_chunk_def results_chunk_def consume_chunk_def deliver_def newObjectStream_def newTextStream_def
      object_chunk_def parse_final_def List.map_filter_def)

end
