(* ===== verification/OpenAiRequest.thy ===== *)
theory OpenAiRequest
  imports OpenAiStream
begin

text \<open>
  Requests of OpenAI-compatible providers: the conversion of messages
  (\<open>src/internal/openaicompat/messages.go\<close>) and \<open>BuildRequest\<close> with the provider options
  (\<open>src/internal/openaicompat/openaicompat.go\<close>). A request body is a dynamic map; the decimal notation of a
  \<open>float64\<close> and \<open>json.Unmarshal\<close> of a schema are parameters.
\<close>

section \<open>File parts\<close>

text \<open>\<open>base64.StdEncoding.EncodeToString\<close>.\<close>

definition base64_digits :: string where
  "base64_digits = ''ABCDEFGHIJKLMNOPQRSTUVWXYZabcdefghijklmnopqrstuvwxyz0123456789+/''"

definition base64_digit :: "nat \<Rightarrow> char" where
  "base64_digit n = base64_digits ! (n mod 64)"

fun EncodeToString :: "string \<Rightarrow> string" where
  "EncodeToString [] = []"
| "EncodeToString [a] =
     (let n = of_char a * 16 in [base64_digit (n div 64), base64_digit n] @ ''=='')"
| "EncodeToString [a, b] =
     (let n = (of_char a * 256 + of_char b) * 4 in
      [base64_digit (n div 4096), base64_digit (n div 64), base64_digit n] @ ''='')"
| "EncodeToString (a # b # c # s) =
     (let n = (of_char a * 256 + of_char b) * 256 + of_char c in
      [base64_digit (n div 262144), base64_digit (n div 4096), base64_digit (n div 64), base64_digit n] @
      EncodeToString s)"

definition audioFormat :: "string \<Rightarrow> string option" where
  "audioFormat mediaType =
     (if mediaType \<in> {''audio/wav'', ''audio/wave'', ''audio/x-wav''} then Some ''wav''
      else if mediaType \<in> {''audio/mp3'', ''audio/mpeg''} then Some ''mp3''
      else if mediaType \<in> {''audio/aiff'', ''audio/x-aiff''} then Some ''aiff''
      else if mediaType = ''audio/aac'' then Some ''aac''
      else if mediaType \<in> {''audio/ogg'', ''application/ogg''} then Some ''ogg''
      else if mediaType \<in> {''audio/flac'', ''audio/x-flac''} then Some ''flac''
      else if mediaType \<in> {''audio/mp4'', ''audio/x-m4a''} then Some ''m4a''
      else None)"

definition data_url :: "string \<Rightarrow> string \<Rightarrow> string" where
  "data_url mediaType payload = ''data:'' @ mediaType @ '';base64,'' @ payload"

text \<open>The media type, the file data and the inline payload of a part.\<close>

definition file_source :: "Part \<Rightarrow> string \<times> string \<times> string" where
  "file_source part =
     (let mediaType = pMediaType part in
      case (case pRemoteRef part of Some r \<Rightarrow> if refData r \<noteq> [] then Some r else None | None \<Rightarrow> None) of
        Some r \<Rightarrow>
          let mt = (if mediaType = [] then refMediaType r else mediaType); payload = EncodeToString (refData r)
          in (mt, data_url mt payload, payload)
      | None \<Rightarrow>
          if has_prefix (pURL part) ''data:'' then
            (case ParseDataURL (pURL part) of
               Some (mt, data) \<Rightarrow>
                 let mt = (if mediaType = [] then mt else mediaType) in (mt, data_url mt data, data)
             | None \<Rightarrow> (mediaType, [], []))
          else if pURL part \<noteq> [] then (mediaType, pURL part, [])
          else (mediaType, [], []))"

definition filePartToContent :: "Part \<Rightarrow> bool \<Rightarrow> anymap option" where
  "filePartToContent part flatInputFile =
     (case file_source part of (mediaType, fileData, payload) \<Rightarrow>
        if mediaType = ''application/pdf'' \<and> fileData \<noteq> [] then
          Some (if flatInputFile
                then [(''type'', AStr ''input_file''), (''file_data'', AStr fileData)]
                else [(''type'', AStr ''file''),
                      (''file'', AMap [(''filename'', AStr (if pFilename part = [] then ''document.pdf'' else pFilename part)),
                                       (''file_data'', AStr fileData)])])
        else
          (case audioFormat mediaType of
             Some format \<Rightarrow>
               if payload \<noteq> []
               then Some [(''type'', AStr ''input_audio''),
                          (''input_audio'', AMap [(''data'', AStr payload), (''format'', AStr format)])]
               else None
           | None \<Rightarrow> None))"

section \<open>Messages\<close>

record MessagesConfig =
  mcIncludeReasoningContent :: bool
  mcIncludeReasoningDetails :: bool
  mcFlatInputFile :: bool

fun role_name :: "Role \<Rightarrow> string" where
  "role_name RoleSystem = ''system''"
| "role_name RoleUser = ''user''"
| "role_name RoleAssistant = ''assistant''"
| "role_name RoleTool = ''tool''"
| "role_name (RoleCustom s) = s"

definition joinText :: "string list \<Rightarrow> string" where
  "joinText parts = join_with [LF] parts"

definition texts_of :: "PartType \<Rightarrow> Part list \<Rightarrow> string list" where
  "texts_of t parts = map pText (filter (\<lambda>p. pType p = t) parts)"

definition partsToText :: "Part list \<Rightarrow> string" where
  "partsToText parts = joinText (filter (\<lambda>t. t \<noteq> []) (texts_of PartText parts))"

definition tool_message :: "Part \<Rightarrow> anymap" where
  "tool_message part =
     [(''role'', AStr ''tool''), (''tool_call_id'', AStr (pToolCallID part)), (''content'', AStr (pToolOutput part))]"

definition wire_tool_call :: "Part \<Rightarrow> anymap" where
  "wire_tool_call part =
     [(''id'', AStr (pToolCallID part)), (''type'', AStr ''function''),
      (''function'', AMap [(''name'', AStr (pToolName part)), (''arguments'', AStr (pToolInput part))])]"

definition content_item :: "bool \<Rightarrow> Part \<Rightarrow> anymap option" where
  "content_item flat part =
     (case pType part of
        PartText \<Rightarrow> if pText part \<noteq> [] then Some [(''type'', AStr ''text''), (''text'', AStr (pText part))] else None
      | PartImage \<Rightarrow>
          Some [(''type'', AStr ''image_url''),
                (''image_url'', AMap ((''url'', AStr (pURL part)) #
                   (if pDetail part \<noteq> [] then [(''detail'', AStr (pDetail part))] else [])))]
      | PartFile \<Rightarrow> filePartToContent part flat
      | _ \<Rightarrow> None)"

definition user_content :: "bool \<Rightarrow> Part list \<Rightarrow> any" where
  "user_content flat parts =
     (let contentArr = List.map_filter (content_item flat) parts in
      if contentArr = [] then AStr [] else AMapList (map Some contentArr))"

text \<open>\<open>reasoningDetailsArray\<close> of the value under \<open>openrouter\<close>, \<open>None\<close> when it is nil.\<close>

definition detail_value :: "anymap option \<Rightarrow> any" where
  "detail_value d = (case d of Some m \<Rightarrow> AMap m | None \<Rightarrow> ANil)"

definition reasoningDetailsArray :: "any option \<Rightarrow> any list option" where
  "reasoningDetailsArray value =
     (case value of
        Some (AList vs) \<Rightarrow> Some vs
      | Some (AMapList ms) \<Rightarrow> Some (map detail_value ms)
      | _ \<Rightarrow> None)"

definition openrouter_details :: "anymap \<Rightarrow> any list option" where
  "openrouter_details opts =
     (case get_map opts ''openrouter'' of
        Some m \<Rightarrow> reasoningDetailsArray (map_of m ''reasoning_details'')
      | None \<Rightarrow> None)"

definition replay_details :: "Message \<Rightarrow> any list option" where
  "replay_details msg =
     (case openrouter_details (mProviderOptions msg) of
        Some ds \<Rightarrow> Some ds
      | None \<Rightarrow>
          (case List.map_filter (\<lambda>p. openrouter_details (pProviderOptions p)) (mContent msg) of
             [] \<Rightarrow> None
           | blocks \<Rightarrow> Some (concat blocks)))"

definition reasoning_texts :: "Part list \<Rightarrow> string list" where
  "reasoning_texts parts = filter (\<lambda>t. t \<noteq> []) (texts_of PartReasoning parts)"

definition with_reasoning :: "MessagesConfig \<Rightarrow> Message \<Rightarrow> anymap \<Rightarrow> anymap" where
  "with_reasoning cfg msg m =
     (let rs = reasoning_texts (mContent msg);
          m = (if mcIncludeReasoningContent cfg \<and> rs \<noteq> []
               then AList.update ''reasoning_content'' (AStr (joinText rs)) m else m)
      in if mcIncludeReasoningDetails cfg \<and> mRole msg = RoleAssistant
         then (case replay_details msg of
                 Some ds \<Rightarrow> AList.delete ''reasoning_content'' (AList.update ''reasoning_details'' (AList ds) m)
               | None \<Rightarrow>
                   if rs \<noteq> []
                   then AList.delete ''reasoning_content'' (AList.update ''reasoning'' (AStr (joinText rs)) m)
                   else m)
         else m)"

definition has_part :: "PartType \<Rightarrow> Part list \<Rightarrow> bool" where
  "has_part t parts = list_ex (\<lambda>p. pType p = t) parts"

definition plain_message :: "MessagesConfig \<Rightarrow> Message \<Rightarrow> anymap" where
  "plain_message cfg msg =
     (let parts = mContent msg; m = [(''role'', AStr (role_name (mRole msg)))];
          m = (if has_part PartText parts then AList.update ''content'' (AStr (joinText (texts_of PartText parts))) m else m);
          m = with_reasoning cfg msg m;
          calls = map wire_tool_call (filter (\<lambda>p. pType p = PartToolCall) parts)
      in if calls \<noteq> [] then AList.update ''tool_calls'' (AMapList (map Some calls)) m else m)"

definition convert_message :: "MessagesConfig \<Rightarrow> Message \<Rightarrow> anymap list" where
  "convert_message cfg msg =
     (let parts = mContent msg in
      if mRole msg = RoleSystem then [[(''role'', AStr ''system''), (''content'', AStr (partsToText parts))]]
      else if mRole msg = RoleTool then map tool_message (filter (\<lambda>p. pType p = PartToolResult) parts)
      else if (has_part PartImage parts \<or> has_part PartFile parts) \<and> mRole msg = RoleUser
      then [[(''role'', AStr (role_name (mRole msg))), (''content'', user_content (mcFlatInputFile cfg) parts)]]
      else [plain_message cfg msg])"

definition ConvertMessagesWithConfig :: "Message list \<Rightarrow> string \<Rightarrow> MessagesConfig \<Rightarrow> anymap list" where
  "ConvertMessagesWithConfig msgs system cfg =
     (if system \<noteq> [] then [[(''role'', AStr ''system''), (''content'', AStr system)]] else []) @
     concat (map (convert_message cfg) msgs)"

section \<open>Request bodies\<close>

record OpenAiConfig =
  ocIncludeStreamOptions :: bool
  ocExtraBody :: anymap
  ocIncludeReasoningContent :: bool
  ocIncludeReasoningDetails :: bool
  ocUseMaxCompletionTokens :: "bool option"
  ocJsonSchemaAsJsonObject :: bool
  ocJsonObjectAsJsonSchema :: bool
  ocSeedKey :: string
  ocFlatInputFile :: bool

record request_env =
  reJson :: "string \<Rightarrow> any option"
  reFloat :: "float64 \<Rightarrow> string"

definition openAIKnownKeys :: "string list" where
  "openAIKnownKeys = [''structuredOutputs'', ''strictJsonSchema'', ''useResponsesAPI'', ''parallelToolCalls'', ''user'',
     ''logprobs'', ''metadata'', ''safetyIdentifier'', ''store'', ''serviceTier'']"

definition openAIProtectedKeys :: "string list" where
  "openAIProtectedKeys = [''model'', ''stream'', ''messages'', ''max_tokens'', ''max_completion_tokens'', ''temperature'',
     ''top_p'', ''stop'', ''seed'', ''frequency_penalty'', ''presence_penalty'', ''tools'', ''tool_choice'',
     ''response_format'']"

definition lower_text :: "string \<Rightarrow> string" where
  "lower_text s = map lower s"

definition IsReasoningModel :: "string \<Rightarrow> bool" where
  "IsReasoningModel modelID =
     (let tid = lower_text modelID in
      (case tid of c # d # _ \<Rightarrow> c = CHR ''o'' \<and> is_digit d | _ \<Rightarrow> False) \<or>
      has_prefix tid ''gpt-5'' \<and> \<not> has_prefix tid ''gpt-5-chat'' \<or>
      has_prefix tid ''codex-'')"

definition sanitizeRequestHeaders :: "go_headers \<Rightarrow> go_headers" where
  "sanitizeRequestHeaders headers = filter (\<lambda>(k, v). lower_text k \<noteq> ''authorization'') headers"

definition copy_option :: "anymap \<Rightarrow> string \<Rightarrow> string \<Rightarrow> anymap \<Rightarrow> anymap" where
  "copy_option opts k wire body = (case map_of opts k of Some v \<Rightarrow> AList.update wire v body | None \<Rightarrow> body)"

definition with_logprobs :: "any \<Rightarrow> anymap \<Rightarrow> anymap" where
  "with_logprobs n body = AList.update ''top_logprobs'' n (AList.update ''logprobs'' (ABool True) body)"

definition logprobs_option :: "anymap \<Rightarrow> anymap \<Rightarrow> anymap" where
  "logprobs_option opts body =
     (case map_of opts ''logprobs'' of
        Some (ABool lp) \<Rightarrow> if lp then with_logprobs (AInt 0) body else body
      | Some (AInt lp) \<Rightarrow> with_logprobs (AInt lp) body
      | Some (AFloat lp) \<Rightarrow> with_logprobs (AInt (float_trunc lp)) body
      | _ \<Rightarrow> body)"

definition applyProviderOptions :: "anymap \<Rightarrow> anymap \<Rightarrow> anymap" where
  "applyProviderOptions opts body =
     put_all
       (copy_option opts ''serviceTier'' ''service_tier''
         (copy_option opts ''store'' ''store''
           (copy_option opts ''safetyIdentifier'' ''safety_identifier''
             (copy_option opts ''metadata'' ''metadata''
               (logprobs_option opts
                 (copy_option opts ''user'' ''user''
                   (copy_option opts ''parallelToolCalls'' ''parallel_tool_calls'' body)))))))
       (filter (\<lambda>(k, v). k \<notin> set openAIKnownKeys \<and> k \<notin> set openAIProtectedKeys) opts)"

definition wire_tool :: "request_env \<Rightarrow> bool \<Rightarrow> bool \<Rightarrow> ToolDefinition \<Rightarrow> anymap" where
  "wire_tool env structuredOutputs strictJSON t =
     (if tdProviderDefinedType t \<noteq> []
      then put_all [(''type'', AStr (tdProviderDefinedType t))] (tdProviderDefinedOptions t)
      else [(''type'', AStr ''function''),
            (''function'', AMap ([(''name'', AStr (tdName t)), (''description'', AStr (tdDescription t)),
               (''parameters'', case reJson env (tdInputSchema t) of Some schema \<Rightarrow> schema | None \<Rightarrow> AMap [])] @
               (if structuredOutputs then [(''strict'', ABool strictJSON)] else [])))])"

definition put_option :: "string \<Rightarrow> ('a \<Rightarrow> any) \<Rightarrow> 'a option \<Rightarrow> anymap \<Rightarrow> anymap" where
  "put_option k f v body = (case v of Some x \<Rightarrow> AList.update k (f x) body | None \<Rightarrow> body)"

definition wire_tool_choice :: "string \<Rightarrow> any" where
  "wire_tool_choice choice =
     (if choice \<in> {''auto'', ''none'', ''required''} then AStr choice
      else AMap [(''type'', AStr ''function''), (''function'', AMap [(''name'', AStr choice)])])"

definition response_format :: "request_env \<Rightarrow> OpenAiConfig \<Rightarrow> bool \<Rightarrow> bool \<Rightarrow> ResponseFormat \<Rightarrow> any" where
  "response_format env cfg structuredOutputs strictJSON rf =
     (case (if structuredOutputs \<and> rfSchema rf \<noteq> [] then reJson env (rfSchema rf) else None) of
        Some schema \<Rightarrow>
          if ocJsonSchemaAsJsonObject cfg then AMap [(''type'', AStr ''json_object''), (''schema'', schema)]
          else AMap [(''type'', AStr ''json_schema''),
                     (''json_schema'', AMap [(''name'', AStr (rfName rf)), (''schema'', schema), (''strict'', ABool strictJSON)])]
      | None \<Rightarrow>
          if ocJsonObjectAsJsonSchema cfg
          then AMap [(''type'', AStr ''json_schema''),
                     (''json_schema'', AMap [(''name'', AStr (if rfName rf = [] then ''json_schema'' else rfName rf)),
                        (''schema'', AMap [(''type'', AStr ''object'')]), (''strict'', ABool False)])]
          else AMap [(''type'', AStr ''json_object'')])"

definition rename_max_tokens :: "bool \<Rightarrow> anymap \<Rightarrow> anymap" where
  "rename_max_tokens useMaxCompletionTokens body =
     (if useMaxCompletionTokens
      then (case map_of body ''max_tokens'' of
              Some v \<Rightarrow> AList.delete ''max_tokens'' (AList.update ''max_completion_tokens'' v body)
            | None \<Rightarrow> body)
      else body)"

definition base_body :: "request_env \<Rightarrow> GenerateParams \<Rightarrow> string \<Rightarrow> bool \<Rightarrow> OpenAiConfig \<Rightarrow> anymap" where
  "base_body env params modelID streaming cfg =
     (let body = [(''model'', AStr modelID), (''stream'', ABool streaming)];
          body = (if 0 < gpMaxOutputTokens params
                  then AList.update ''max_tokens'' (AInt (gpMaxOutputTokens params)) body else body);
          body = (if streaming \<and> ocIncludeStreamOptions cfg
                  then AList.update ''stream_options'' (AMap [(''include_usage'', ABool True)]) body else body)
      in AList.update ''messages''
           (AMapList (map Some (ConvertMessagesWithConfig (gpMessages params) (gpSystem params)
              \<lparr>mcIncludeReasoningContent = ocIncludeReasoningContent cfg,
               mcIncludeReasoningDetails = ocIncludeReasoningDetails cfg,
               mcFlatInputFile = ocFlatInputFile cfg\<rparr>))) body)"

definition sampling_body :: "request_env \<Rightarrow> GenerateParams \<Rightarrow> OpenAiConfig \<Rightarrow> anymap \<Rightarrow> anymap" where
  "sampling_body env params cfg body =
     (let float = (\<lambda>f. AFloat (reFloat env f));
          body = put_option ''temperature'' float (gpTemperature params) body;
          body = put_option ''top_p'' float (gpTopP params) body;
          body = put_option ''top_k'' AInt (gpTopK params) body;
          body = put_option ''frequency_penalty'' float (gpFrequencyPenalty params) body;
          body = put_option ''presence_penalty'' float (gpPresencePenalty params) body;
          body = put_option (if ocSeedKey cfg = [] then ''seed'' else ocSeedKey cfg) AInt (gpSeed params) body
      in if gpStopSequences params \<noteq> [] then AList.update ''stop'' (AStrList (gpStopSequences params)) body else body)"

definition BuildRequest :: "request_env \<Rightarrow> GenerateParams \<Rightarrow> string \<Rightarrow> bool \<Rightarrow> OpenAiConfig \<Rightarrow> anymap" where
  "BuildRequest env params modelID streaming cfg =
     (let opts = gpProviderOptions params;
          structuredOutputs = (case get_bool opts ''structuredOutputs'' of Some b \<Rightarrow> b | None \<Rightarrow> True);
          strictJSON = (case get_bool opts ''strictJsonSchema'' of Some b \<Rightarrow> b | None \<Rightarrow> False);
          body = base_body env params modelID streaming cfg;
          body = (if gpTools params \<noteq> []
                  then AList.update ''tools''
                         (AMapList (map (Some \<circ> wire_tool env structuredOutputs strictJSON) (gpTools params))) body
                  else body);
          body = (if gpToolChoice params \<noteq> []
                  then AList.update ''tool_choice'' (wire_tool_choice (gpToolChoice params)) body else body);
          body = sampling_body env params cfg body;
          body = put_all body (ocExtraBody cfg);
          body = applyProviderOptions opts body;
          body = (case gpResponseFormat params of
                    Some rf \<Rightarrow> AList.update ''response_format'' (response_format env cfg structuredOutputs strictJSON rf) body
                  | None \<Rightarrow> body);
          body = (if gpHeaders params \<noteq> []
                  then AList.update ''_headers'' (AStrMap (sanitizeRequestHeaders (gpHeaders params))) body else body)
      in rename_max_tokens
           (case ocUseMaxCompletionTokens cfg of Some b \<Rightarrow> b | None \<Rightarrow> IsReasoningModel modelID) body)"

section \<open>Data URLs of raw bytes\<close>

lemma base64_digit_char: "base64_char (base64_digit n)"
proof -
  have "list_all base64_char base64_digits"
    by code_simp
  moreover have "n mod 64 < length base64_digits"
    by (simp add: base64_digits_def)
  ultimately show ?thesis
    by (simp add: base64_digit_def list_all_length)
qed

definition base64_padding :: "string \<Rightarrow> bool" where
  "base64_padding pad \<longleftrightarrow> pad \<in> {[], ''='', ''==''}"

lemma base64_padding_simps [simp]: "base64_padding []" "base64_padding ''=''" "base64_padding ''==''"
  by (simp_all add: base64_padding_def)

lemma base64_padding_set: "base64_padding pad \<Longrightarrow> c \<in> set pad \<Longrightarrow> c = CHR ''=''"
  by (auto simp: base64_padding_def)

definition base64_text :: "string \<Rightarrow> bool" where
  "base64_text s \<longleftrightarrow> (\<exists>core pad. s = core @ pad \<and> list_all base64_char core \<and> base64_padding pad \<and>
     (length core + length pad) mod 4 = 0)"

lemma base64_textI:
  "list_all base64_char core \<Longrightarrow> base64_padding pad \<Longrightarrow> (length core + length pad) mod 4 = 0 \<Longrightarrow>
     base64_text (core @ pad)"
  unfolding base64_text_def by (intro exI conjI) (rule refl)

lemma base64_textE:
  assumes "base64_text s"
  obtains core pad where "s = core @ pad" "list_all base64_char core" "base64_padding pad"
    "(length core + length pad) mod 4 = 0"
  using assms unfolding base64_text_def by (elim exE conjE) (rule that)

lemma base64_text_group:
  assumes "base64_text s" "base64_char a" "base64_char b" "base64_char c" "base64_char d"
  shows "base64_text (a # b # c # d # s)"
proof -
  obtain core pad where s: "s = core @ pad" "list_all base64_char core" "base64_padding pad"
    "(length core + length pad) mod 4 = 0"
    using assms(1) by (rule base64_textE)
  have "length (a # b # c # d # core) + length pad = length core + length pad + 4"
    by simp
  then have "(length (a # b # c # d # core) + length pad) mod 4 = 0"
    by (simp only: mod_add_self2 s(4))
  moreover have "list_all base64_char (a # b # c # d # core)"
    using s(2) assms(2-5) by simp
  ultimately have "base64_text ((a # b # c # d # core) @ pad)"
    using s(3) by (intro base64_textI)
  then show ?thesis
    by (simp add: s(1))
qed

lemma EncodeToString_text: "base64_text (EncodeToString s)"
proof (induction s rule: EncodeToString.induct)
  case 1
  show ?case using base64_textI [of "[]" "[]"] by simp
next
  case (2 a)
  show ?case
    using base64_textI [of "[base64_digit (of_char a * 16 div 64), base64_digit (of_char a * 16)]" "''==''"]
    by (simp add: Let_def base64_digit_char)
next
  case (3 a b)
  let ?n = "(of_char a * 256 + of_char b) * 4"
  show ?case
    using base64_textI [of "[base64_digit (?n div 4096), base64_digit (?n div 64), base64_digit ?n]" "''=''"]
    by (simp add: Let_def base64_digit_char)
next
  case (4 a b c s)
  then show ?case
    by (simp add: Let_def base64_text_group base64_digit_char)
qed

lemma base64_text_valid:
  assumes "base64_text s"
  shows "valid_base64 s"
proof -
  obtain core pad where s: "s = core @ pad" "list_all base64_char core" "base64_padding pad"
    "(length core + length pad) mod 4 = 0"
    using assms by (rule base64_textE)
  have pad: "\<not> base64_char (CHR ''='')" "\<not> base64_char CR" "\<not> base64_char LF"
    by code_simp+
  have "c \<noteq> CR \<and> c \<noteq> LF" if "c \<in> set s" for c
  proof -
    from that have "c \<in> set core \<or> c = CHR ''=''"
      using s(3) base64_padding_set unfolding s(1) by auto
    then show ?thesis
      using s(2) pad(2,3) by (auto simp: list_all_iff)
  qed
  then have "filter (\<lambda>c. c \<noteq> CR \<and> c \<noteq> LF) s = s"
    by (simp add: filter_id_conv)
  moreover have "takeWhile base64_char s = core"
  proof -
    have "takeWhile base64_char pad = []"
      using s(3) pad(1) by (cases pad) (auto dest: base64_padding_set)
    then show ?thesis
      using s(2) unfolding s(1) by (simp add: takeWhile_append2 list_all_iff)
  qed
  ultimately show ?thesis
    using s(3,4) unfolding valid_base64_def Let_def by (simp add: s(1) base64_padding_def)
qed

lemma index_of_separator: "c \<notin> set mt \<Longrightarrow> index_of (c # sep) (mt @ c # sep @ rest) = Some (length mt)"
proof (induction mt)
  case Nil
  then show ?case by (simp add: has_prefix_def)
qed auto

text \<open>The data URL built from raw bytes is one the code accepts, with the same media type and payload.\<close>

lemma data_url_parses:
  assumes "mt \<noteq> []" "CHR '';'' \<notin> set mt" "bytes \<noteq> []"
  shows "ParseDataURL (data_url mt (EncodeToString bytes)) = Some (mt, EncodeToString bytes)"
proof -
  have "index_of '';base64,'' (mt @ '';base64,'' @ EncodeToString bytes) = Some (length mt)"
    using index_of_separator [OF assms(2), of "''base64,''"] by simp
  moreover have "EncodeToString bytes \<noteq> []"
    using assms(3) by (cases bytes rule: EncodeToString.cases) (simp_all add: Let_def)
  ultimately show ?thesis
    using assms(1) base64_text_valid [OF EncodeToString_text]
    by (simp add: ParseDataURL_def data_url_def Let_def)
qed

section \<open>Tool events of a conversation\<close>

datatype tool_event = CallEvent string string string | ResultEvent string string

definition message_events :: "Message \<Rightarrow> tool_event list" where
  "message_events msg =
     (if mRole msg = RoleTool
      then map (\<lambda>p. ResultEvent (pToolCallID p) (pToolOutput p)) (filter (\<lambda>p. pType p = PartToolResult) (mContent msg))
      else map (\<lambda>p. CallEvent (pToolCallID p) (pToolName p) (pToolInput p))
             (filter (\<lambda>p. pType p = PartToolCall) (mContent msg)))"

definition member_str :: "anymap \<Rightarrow> string \<Rightarrow> string" where
  "member_str m k = (case get_str m k of Some s \<Rightarrow> s | None \<Rightarrow> [])"

definition call_event :: "anymap \<Rightarrow> tool_event" where
  "call_event c =
     (let f = (case get_map c ''function'' of Some f \<Rightarrow> f | None \<Rightarrow> []) in
      CallEvent (member_str c ''id'') (member_str f ''name'') (member_str f ''arguments''))"

definition wire_events :: "anymap \<Rightarrow> tool_event list" where
  "wire_events w =
     (if get_str w ''role'' = Some ''tool''
      then [ResultEvent (member_str w ''tool_call_id'') (member_str w ''content'')]
      else (case map_of w ''tool_calls'' of
              Some (AMapList cs) \<Rightarrow> map call_event (List.map_filter id cs)
            | _ \<Rightarrow> []))"

text \<open>Calls are parts of assistant messages, and no role is spelled like the tool role.\<close>

definition proper_message :: "Message \<Rightarrow> bool" where
  "proper_message msg \<longleftrightarrow> mRole msg \<noteq> RoleCustom ''tool'' \<and>
     (mRole msg \<in> {RoleSystem, RoleUser} \<longrightarrow> \<not> has_part PartToolCall (mContent msg))"

lemma wire_tool_call_event: "call_event (wire_tool_call p) = CallEvent (pToolCallID p) (pToolName p) (pToolInput p)"
  by (simp add: call_event_def wire_tool_call_def member_str_def get_str_def get_map_def)

lemma no_calls: "\<not> has_part t parts \<Longrightarrow> filter (\<lambda>p. pType p = t) parts = []"
  by (auto simp: has_part_def list_ex_iff filter_empty_conv)

lemma with_reasoning_lookup:
  "k \<notin> {''reasoning_content'', ''reasoning_details'', ''reasoning''} \<Longrightarrow>
     map_of (with_reasoning cfg msg m) k = map_of m k"
  by (simp add: with_reasoning_def Let_def update_conv' delete_conv' split: option.split)

lemma map_filter_id_Some: "List.map_filter id (map Some xs) = xs"
  by (induction xs) simp_all

lemma map_filter_Some_map: "List.map_filter id (map (\<lambda>x. Some (f x)) xs) = map f xs"
  by (induction xs) simp_all

lemma role_not_tool: "r \<noteq> RoleTool \<Longrightarrow> r \<noteq> RoleCustom ''tool'' \<Longrightarrow> role_name r \<noteq> ''tool''"
  by (cases r) simp_all

lemma plain_message_lookup:
  "map_of (plain_message cfg msg) ''role'' = Some (AStr (role_name (mRole msg)))"
  "map_of (plain_message cfg msg) ''tool_calls'' =
     (if has_part PartToolCall (mContent msg)
      then Some (AMapList (map Some (map wire_tool_call (filter (\<lambda>p. pType p = PartToolCall) (mContent msg))))) else None)"
  by (auto simp: plain_message_def Let_def update_conv' with_reasoning_lookup has_part_def list_ex_iff filter_empty_conv)

lemma plain_message_events:
  assumes "mRole msg \<noteq> RoleTool" "mRole msg \<noteq> RoleCustom ''tool''"
  shows "wire_events (plain_message cfg msg) = message_events msg"
  using assms role_not_tool [OF assms] no_calls [of PartToolCall "mContent msg"]
  by (simp add: wire_events_def get_str_def plain_message_lookup message_events_def
      map_filter_id_Some map_filter_Some_map wire_tool_call_event comp_def)

lemma convert_message_events:
  assumes "proper_message msg"
  shows "concat (map wire_events (convert_message cfg msg)) = message_events msg"
proof -
  let ?parts = "mContent msg"
  consider (sys) "mRole msg = RoleSystem" | (tool) "mRole msg = RoleTool"
    | (media) "mRole msg = RoleUser" "has_part PartImage ?parts \<or> has_part PartFile ?parts"
    | (plain) "mRole msg \<noteq> RoleSystem" "mRole msg \<noteq> RoleTool" "convert_message cfg msg = [plain_message cfg msg]"
    by (cases "has_part PartImage ?parts \<or> has_part PartFile ?parts"; cases "mRole msg")
       (simp_all add: convert_message_def Let_def)
  then show ?thesis
  proof cases
    case sys
    then show ?thesis
      using assms no_calls [of PartToolCall ?parts]
      by (simp add: convert_message_def wire_events_def get_str_def message_events_def proper_message_def)
  next
    case tool
    have "wire_events (tool_message p) = [ResultEvent (pToolCallID p) (pToolOutput p)]" for p
      by (simp add: wire_events_def tool_message_def get_str_def member_str_def)
    then show ?thesis
      using tool by (simp add: convert_message_def message_events_def comp_def)
  next
    case media
    then show ?thesis
      using assms no_calls [of PartToolCall ?parts]
      by (auto simp: convert_message_def wire_events_def get_str_def message_events_def proper_message_def
          update_conv' Let_def)
  next
    case plain
    then show ?thesis
      using plain_message_events [of msg cfg] assms by (simp add: proper_message_def)
  qed
qed

text \<open>
  C36: the tool history of a conversation survives the conversion to the OpenAI wire format: reading the
  calls (identifier, name, arguments) and the results (identifier, output) back from the wire messages gives
  those of the conversation, in order, whatever else the messages hold. As everywhere in the repository, results
  count in the messages of the tool role only; the conversion drops those anywhere else, and the calls in there.
\<close>

theorem conversation_tool_events:
  assumes "list_all proper_message msgs"
  shows "concat (map wire_events (ConvertMessagesWithConfig msgs system cfg)) = concat (map message_events msgs)"
proof -
  have "concat (map wire_events (concat (map (convert_message cfg) msgs))) = concat (map message_events msgs)"
    using assms by (induction msgs) (simp_all add: convert_message_events)
  then show ?thesis
    by (simp add: ConvertMessagesWithConfig_def wire_events_def get_str_def)
qed

definition sample_conversation :: "Message list" where
  "sample_conversation =
     [\<lparr>mRole = RoleUser, mContent = [zero_Part\<lparr>pType := PartImage, pURL := ''u''\<rparr>], mProviderOptions = []\<rparr>,
      \<lparr>mRole = RoleAssistant, mContent = [zero_Part\<lparr>pType := PartText, pText := ''t''\<rparr>,
         zero_Part\<lparr>pType := PartToolCall, pToolCallID := ''c'', pToolName := ''f'', pToolInput := ''{}''\<rparr>],
       mProviderOptions = []\<rparr>,
      \<lparr>mRole = RoleTool, mContent = [zero_Part\<lparr>pType := PartToolResult, pToolCallID := ''c'', pToolOutput := ''r''\<rparr>],
       mProviderOptions = []\<rparr>]"

theorem conversation_tool_events_witness:
  "concat (map wire_events (ConvertMessagesWithConfig sample_conversation ''s''
       \<lparr>mcIncludeReasoningContent = True, mcIncludeReasoningDetails = True, mcFlatInputFile = False\<rparr>)) =
     [CallEvent ''c'' ''f'' ''{}'', ResultEvent ''c'' ''r'']"
proof -
  have "list_all proper_message sample_conversation"
    by (simp add: sample_conversation_def proper_message_def has_part_def)
  from conversation_tool_events [OF this] show ?thesis
    by (simp add: sample_conversation_def message_events_def)
qed

section \<open>The protected fields\<close>

lemma put_all_other: "k \<notin> fst ` set kvs \<Longrightarrow> map_of (put_all m kvs) k = map_of m k"
  by (induction kvs arbitrary: m) (auto simp: update_conv')

lemma copy_option_other: "k \<noteq> wire \<Longrightarrow> map_of (copy_option opts okey wire m) k = map_of m k"
  by (simp add: copy_option_def update_conv' split: option.split)

lemma logprobs_option_other: "k \<noteq> ''logprobs'' \<Longrightarrow> k \<noteq> ''top_logprobs'' \<Longrightarrow> map_of (logprobs_option opts m) k = map_of m k"
  by (simp add: logprobs_option_def with_logprobs_def update_conv' split: option.split any.split)

lemma options_protected:
  assumes "k \<in> set openAIProtectedKeys"
  shows "map_of (applyProviderOptions opts m) k = map_of m k"
proof -
  have "k \<notin> {''service_tier'', ''store'', ''safety_identifier'', ''metadata'', ''logprobs'', ''top_logprobs'', ''user'',
      ''parallel_tool_calls''}"
    using assms by (auto simp: openAIProtectedKeys_def)
  moreover have "k \<notin> fst ` set (filter (\<lambda>(k, v). k \<notin> set openAIKnownKeys \<and> k \<notin> set openAIProtectedKeys) opts)"
    using assms by auto
  ultimately show ?thesis
    by (simp add: applyProviderOptions_def put_all_other copy_option_other logprobs_option_other)
qed

text \<open>Two bodies that agree on the protected fields.\<close>

definition same_protected :: "anymap \<Rightarrow> anymap \<Rightarrow> bool" where
  "same_protected a b \<longleftrightarrow> (\<forall>k\<in>set openAIProtectedKeys. map_of a k = map_of b k)"

lemma same_protected_options:
  "same_protected a b \<Longrightarrow> same_protected (applyProviderOptions o1 a) (applyProviderOptions o2 b)"
  by (simp add: same_protected_def options_protected)

lemma same_protected_update: "same_protected a b \<Longrightarrow> same_protected (AList.update k v a) (AList.update k v b)"
  by (simp add: same_protected_def update_conv')

lemma same_protected_rename: "same_protected a b \<Longrightarrow> same_protected (rename_max_tokens u a) (rename_max_tokens u b)"
proof -
  assume s: "same_protected a b"
  then have "map_of a ''max_tokens'' = map_of b ''max_tokens''"
    by (simp add: same_protected_def openAIProtectedKeys_def)
  with s show ?thesis
    by (auto simp: rename_max_tokens_def same_protected_def update_conv' delete_conv' split: option.split)
qed

definition with_options :: "GenerateParams \<Rightarrow> anymap \<Rightarrow> GenerateParams" where
  "with_options params opts = params\<lparr>gpProviderOptions := opts\<rparr>"

lemma base_body_options [simp]: "base_body env (with_options params opts) = base_body env params"
  by (intro ext) (simp add: base_body_def with_options_def Let_def)

lemma sampling_body_options [simp]: "sampling_body env (with_options params opts) = sampling_body env params"
  by (intro ext) (simp add: sampling_body_def with_options_def Let_def)

text \<open>
  C37: provider options cannot touch the protected fields of a request: model, stream flag, messages, token
  limits, sampling parameters, stop sequences, tools, tool choice and response format are the same for any
  two sets of options that agree on the two documented switches \<open>structuredOutputs\<close> and
  \<open>strictJsonSchema\<close>; and a model that takes \<open>max_completion_tokens\<close> is never sent \<open>max_tokens\<close>.
\<close>

theorem request_protected_fields:
  assumes "get_bool opts1 ''structuredOutputs'' = get_bool opts2 ''structuredOutputs''"
    and "get_bool opts1 ''strictJsonSchema'' = get_bool opts2 ''strictJsonSchema''"
    and "k \<in> set openAIProtectedKeys"
  shows "map_of (BuildRequest env (with_options params opts1) modelID streaming cfg) k =
      map_of (BuildRequest env (with_options params opts2) modelID streaming cfg) k \<and>
    (ocUseMaxCompletionTokens cfg = Some True \<longrightarrow>
      map_of (BuildRequest env (with_options params opts1) modelID streaming cfg) ''max_tokens'' = None)"
proof
  have refl: "same_protected m m" for m
    by (simp add: same_protected_def)
  have params: "gpTools (with_options params opts) = gpTools params" "gpToolChoice (with_options params opts) = gpToolChoice params"
      "gpHeaders (with_options params opts) = gpHeaders params" "gpResponseFormat (with_options params opts) = gpResponseFormat params"
      "gpProviderOptions (with_options params opts) = opts" for opts
    by (simp_all add: with_options_def)
  have "same_protected (BuildRequest env (with_options params opts1) modelID streaming cfg)
      (BuildRequest env (with_options params opts2) modelID streaming cfg)"
    unfolding BuildRequest_def Let_def params assms(1,2) base_body_options sampling_body_options
    by (intro same_protected_rename) (auto split: option.split intro!: same_protected_update same_protected_options refl)
  then show "map_of (BuildRequest env (with_options params opts1) modelID streaming cfg) k =
      map_of (BuildRequest env (with_options params opts2) modelID streaming cfg) k"
    using assms(3) by (simp add: same_protected_def)
  have "map_of (rename_max_tokens True m) ''max_tokens'' = None" for m
    by (simp add: rename_max_tokens_def delete_conv' split: option.split)
  then show "ocUseMaxCompletionTokens cfg = Some True \<longrightarrow>
      map_of (BuildRequest env (with_options params opts1) modelID streaming cfg) ''max_tokens'' = None"
    by (simp add: BuildRequest_def Let_def)
qed

definition sample_params :: GenerateParams where
  "sample_params = \<lparr>gpMessages = [], gpSystem = [], gpTools = [], gpMaxOutputTokens = 5, gpTemperature = None, gpTopP = None,
     gpTopK = None, gpFrequencyPenalty = None, gpPresencePenalty = None, gpSeed = None, gpStopSequences = [],
     gpHeaders = [], gpProviderOptions = [], gpPromptCaching = False, gpCacheTTL = [], gpToolChoice = [],
     gpResponseFormat = None\<rparr>"

definition sample_config :: OpenAiConfig where
  "sample_config = \<lparr>ocIncludeStreamOptions = True, ocExtraBody = [], ocIncludeReasoningContent = False,
     ocIncludeReasoningDetails = False, ocUseMaxCompletionTokens = Some True, ocJsonSchemaAsJsonObject = False,
     ocJsonObjectAsJsonSchema = False, ocSeedKey = [], ocFlatInputFile = False\<rparr>"

definition sample_request_env :: request_env where
  "sample_request_env = \<lparr>reJson = (\<lambda>_. None), reFloat = (\<lambda>_. ''0'')\<rparr>"

theorem request_protected_fields_witness:
  "let body = (\<lambda>opts. BuildRequest sample_request_env (with_options sample_params opts) ''m'' True sample_config)
   in map_of (body [(''model'', AStr ''other''), (''max_completion_tokens'', AInt 9)]) ''model'' = map_of (body []) ''model'' \<and>
      map_of (body [(''model'', AStr ''other''), (''max_completion_tokens'', AInt 9)]) ''max_tokens'' = None"
  using request_protected_fields [of "[(''model'', AStr ''other''), (''max_completion_tokens'', AInt 9)]" "[]" "''model''"
      sample_request_env sample_params "''m''" True sample_config]
  by (simp add: Let_def get_bool_def openAIProtectedKeys_def sample_config_def)

end
