(* ===== verification/OpenAiModel.thy ===== *)
theory OpenAiModel
  imports OpenAiRequest
begin

text \<open>
  The chat and embedding models all OpenAI-compatible providers share
  (\<open>src/internal/openaicompat/factory.go\<close>): token, request, HTTP call, bounded body, decoded answer. The HTTP
  client, JSON coding and the token source are parameters; the warning about prompt caching on standard error
  is not modelled.
\<close>

section \<open>Bounded bodies\<close>

definition maxResponseBodyBytes :: nat where "maxResponseBodyBytes = 64 * 2 ^ 20"

text \<open>
  \<open>io.ReadAll\<close> of an \<open>io.LimitReader\<close>. \<open>free n\<close> is the space, less one, left in the buffer after \<open>n\<close> bytes, which
  depends on how Go grows slices.
\<close>

lemma read_some_progress:
  "read_some k r = ((c, None), r') \<Longrightarrow> 0 < k \<Longrightarrow> length c \<le> n \<Longrightarrow> length r' + (n - length c) < length r + n"
  by (cases "(k, r)" rule: read_some.cases) (auto split: if_splits)

function read_all_loop :: "(nat \<Rightarrow> nat) \<Rightarrow> nat \<Rightarrow> string \<Rightarrow> reader \<Rightarrow> string \<times> go_error option" where
  "read_all_loop free limit got r =
     (if limit \<le> length got then (got, None)
      else case read_some (min (Suc (free (length got))) (limit - length got)) r of
        ((c, None), r') \<Rightarrow> read_all_loop free limit (got @ c) r'
      | ((c, Some e), r') \<Rightarrow> (got @ c, if e = ErrEOF then None else Some e))"
  by pat_completeness auto
termination
proof (relation "measure (\<lambda>(free, limit, got, r). length r + (limit - length got))", goal_cases)
  case 1
  show ?case by simp
next
  case (2 free limit got r p r' c e)
  then have rd: "read_some (min (Suc (free (length got))) (limit - length got)) r = ((c, None), r')"
    by simp
  have len: "length c \<le> limit - length got"
    using read_some_bytes(3) [OF rd] by simp
  show ?case
    using read_some_progress [OF rd _ len] 2(1) by (simp add: diff_diff_left)
qed

declare read_all_loop.simps [simp del]

definition ReadResponseBody :: "(nat \<Rightarrow> nat) \<Rightarrow> reader \<Rightarrow> go_error + string" where
  "ReadResponseBody free r =
     (case read_all_loop free (maxResponseBodyBytes + 1) [] r of
        (data, Some err) \<Rightarrow> Inl err
      | (data, None) \<Rightarrow>
          if maxResponseBodyBytes < length data
          then Inl (ErrMsg (''response body exceeds '' @ show_nat maxResponseBodyBytes @ '' byte limit''))
          else Inr data)"

section \<open>Chat models\<close>

record ChatModelConfig =
  cmProviderID :: string
  cmModelID :: string
  cmBaseURL :: string
  cmTokenSource :: "(go_error + string) option" \<comment> \<open>the source's answer to this call\<close>
  cmTokenRequired :: bool
  cmBaseURLRequired :: bool
  cmHeaders :: go_headers
  cmRequestConfig :: OpenAiConfig

record model_env =
  meRequest :: request_env
  meAnswer :: openai_env
  meMarshal :: "anymap \<Rightarrow> go_error + string"
  meNewRequest :: "string \<Rightarrow> string \<Rightarrow> go_error option"
  meDo :: "http_request \<Rightarrow> go_error + http_response"
  meParseError :: "string \<Rightarrow> int \<Rightarrow> string \<Rightarrow> http_header \<Rightarrow> go_error"
  meFree :: "nat \<Rightarrow> nat"

definition resolveToken :: "(go_error + string) option \<Rightarrow> bool \<Rightarrow> go_error + string" where
  "resolveToken ts required =
     (case ts of
        None \<Rightarrow> if required then Inl (ErrMsg ''goai: no API key or token source configured'') else Inr []
      | Some (Inl err) \<Rightarrow> Inl (ErrWrap (''resolving auth token: '' @ error_text err) err)
      | Some (Inr tok) \<Rightarrow> Inr tok)"

definition checkBaseURL :: "ChatModelConfig \<Rightarrow> go_error option" where
  "checkBaseURL cfg =
     (if cmBaseURLRequired cfg \<and> cmBaseURL cfg = []
      then Some (ErrMsg (cmProviderID cfg @ '': base URL is required'')) else None)"

definition http_config :: "ChatModelConfig \<Rightarrow> string \<Rightarrow> string \<Rightarrow> anymap \<Rightarrow> RequestConfig" where
  "http_config cfg token url body =
     \<lparr>cfgURL = url, cfgToken = token, cfgBody = body, cfgHeaders = cmHeaders cfg, cfgProviderID = cmProviderID cfg\<rparr>"

definition doHTTP :: "model_env \<Rightarrow> ChatModelConfig \<Rightarrow> string \<Rightarrow> anymap \<Rightarrow> go_panic + (go_error + http_response)" where
  "doHTTP env cfg url body =
     (case resolveToken (cmTokenSource cfg) (cmTokenRequired cfg) of
        Inl err \<Rightarrow> Inr (Inl err)
      | Inr token \<Rightarrow> DoJSONRequest (meMarshal env) (meNewRequest env) (meDo env) (meParseError env)
          (http_config cfg token url body))"

definition chat_url :: "ChatModelConfig \<Rightarrow> string" where
  "chat_url cfg = cmBaseURL cfg @ ''/chat/completions''"

definition chat_body :: "model_env \<Rightarrow> ChatModelConfig \<Rightarrow> bool \<Rightarrow> GenerateParams \<Rightarrow> anymap" where
  "chat_body env cfg streaming params = BuildRequest (meRequest env) params (cmModelID cfg) streaming (cmRequestConfig cfg)"

definition chat_DoGenerate :: "model_env \<Rightarrow> ChatModelConfig \<Rightarrow> GenerateParams \<Rightarrow> go_panic + (go_error + GenerateResult)" where
  "chat_DoGenerate env cfg params =
     (case checkBaseURL cfg of
        Some err \<Rightarrow> Inr (Inl err)
      | None \<Rightarrow>
          (case doHTTP env cfg (chat_url cfg) (chat_body env cfg False params) of
             Inl p \<Rightarrow> Inl p
           | Inr (Inl err) \<Rightarrow> Inr (Inl err)
           | Inr (Inr resp) \<Rightarrow> Inr
               (case ReadResponseBody (meFree env) (rsBody resp) of
                  Inl err \<Rightarrow> Inl (ErrWrap (''reading response: '' @ error_text err) err)
                | Inr respBody \<Rightarrow> ParseResponse (meAnswer env) respBody)))"

definition chat_DoStream :: "model_env \<Rightarrow> ChatModelConfig \<Rightarrow> GenerateParams \<Rightarrow> go_panic + (go_error + (sink \<Rightarrow> sink))" where
  "chat_DoStream env cfg params =
     (case checkBaseURL cfg of
        Some err \<Rightarrow> Inr (Inl err)
      | None \<Rightarrow>
          (case doHTTP env cfg (chat_url cfg) (chat_body env cfg True params) of
             Inl p \<Rightarrow> Inl p
           | Inr (Inl err) \<Rightarrow> Inr (Inl err)
           | Inr (Inr resp) \<Rightarrow> Inr (Inr (\<lambda>out. ParseStream (meAnswer env) (NewScanner (rsBody resp)) out))))"

section \<open>Embedding models\<close>

record EmbeddingModelConfig =
  emProviderID :: string
  emModelID :: string
  emBaseURL :: string
  emTokenSource :: "(go_error + string) option"
  emTokenRequired :: bool
  emBaseURLRequired :: bool
  emHeaders :: go_headers
  emMaxValuesPerCall :: int
  emProviderOptionsKeys :: "string list option"
  emEncodingFormat :: string

record embedding =
  edEmbedding :: "float64 list"
  edIndex :: int

record embed_answer =
  eaModel :: string
  eaData :: "embedding list"
  eaPromptTokens :: "64 word"
  eaTotalTokens :: "64 word"

definition MaxValuesPerCall :: "EmbeddingModelConfig \<Rightarrow> int" where
  "MaxValuesPerCall cfg = (if 0 < emMaxValuesPerCall cfg then emMaxValuesPerCall cfg else 2048)"

definition embed_body :: "EmbeddingModelConfig \<Rightarrow> string list \<Rightarrow> anymap \<Rightarrow> anymap" where
  "embed_body cfg vals opts =
     (let body = [(''model'', AStr (emModelID cfg)), (''input'', AStrList vals)];
          body = (if emEncodingFormat cfg \<noteq> ''-''
                  then AList.update ''encoding_format''
                         (AStr (if emEncodingFormat cfg = [] then ''float'' else emEncodingFormat cfg)) body
                  else body);
          keys = (case emProviderOptionsKeys cfg of Some ks \<Rightarrow> ks | None \<Rightarrow> [''dimensions'', ''user''])
      in foldl (\<lambda>m k. copy_option opts k k m) body keys)"

definition embed_http_request :: "model_env \<Rightarrow> EmbeddingModelConfig \<Rightarrow> string \<Rightarrow> anymap \<Rightarrow> go_panic + http_request" where
  "embed_http_request env cfg token body =
     (case MustMarshalJSON (meMarshal env) body of
        Inl p \<Rightarrow> Inl p
      | Inr jsonBody \<Rightarrow>
          (case MustNewRequest (meNewRequest env) ''POST'' (emBaseURL cfg @ ''/embeddings'') jsonBody of
             Inl p \<Rightarrow> Inl p
           | Inr req \<Rightarrow>
               let h = set_headers (emHeaders cfg) (Header_Set ''Content-Type'' ''application/json'' (rqHeader req));
                   h = (if token \<noteq> [] then Header_Set ''Authorization'' (''Bearer '' @ token) h else h)
               in Inr (req\<lparr>rqHeader := h\<rparr>)))"

text \<open>Vectors are stored at the index the provider gives; an index out of range is ignored.\<close>

definition place_embedding :: "float64 list list \<Rightarrow> embedding \<Rightarrow> float64 list list" where
  "place_embedding es d =
     (if 0 \<le> edIndex d \<and> edIndex d < int (length es) then es[nat (edIndex d) := edEmbedding d] else es)"

definition embed_result :: "embed_answer \<Rightarrow> EmbedResult" where
  "embed_result a =
     \<lparr>erEmbeddings = foldl place_embedding (replicate (length (eaData a)) []) (eaData a),
      erUsage = zero_Usage\<lparr>InputTokens := eaPromptTokens a, TotalTokens := eaTotalTokens a\<rparr>,
      erProviderMetadata = None,
      erResponse = zero_Response\<lparr>rModel := eaModel a\<rparr>\<rparr>"

definition embed_decode ::
    "(string \<Rightarrow> go_error + embed_answer) \<Rightarrow> model_env \<Rightarrow> EmbeddingModelConfig \<Rightarrow> http_response \<Rightarrow> go_error + EmbedResult" where
  "embed_decode decode env cfg resp =
     (case ReadResponseBody (meFree env) (rsBody resp) of
        Inl err \<Rightarrow> Inl (ErrWrap (''reading response: '' @ error_text err) err)
      | Inr respBody \<Rightarrow>
          if rsStatusCode resp \<noteq> 200
          then Inl (meParseError env (emProviderID cfg) (rsStatusCode resp) respBody (rsHeader resp))
          else (case decode respBody of
                  Inl err \<Rightarrow> Inl (ErrWrap (''parsing response: '' @ error_text err) err)
                | Inr a \<Rightarrow> Inr (embed_result a)))"

definition DoEmbed ::
    "(string \<Rightarrow> go_error + embed_answer) \<Rightarrow> model_env \<Rightarrow> EmbeddingModelConfig \<Rightarrow> string list \<Rightarrow> anymap \<Rightarrow>
     go_panic + (go_error + EmbedResult)" where
  "DoEmbed decode env cfg vals opts =
     (if emBaseURLRequired cfg \<and> emBaseURL cfg = []
      then Inr (Inl (ErrMsg (emProviderID cfg @ '': base URL is required'')))
      else
        case resolveToken (emTokenSource cfg) (emTokenRequired cfg) of
          Inl err \<Rightarrow> Inr (Inl err)
        | Inr token \<Rightarrow>
            (case embed_http_request env cfg token (embed_body cfg vals opts) of
               Inl p \<Rightarrow> Inl p
             | Inr req \<Rightarrow> Inr
                 (case meDo env req of
                    Inl err \<Rightarrow> Inl (ErrWrap (''sending request: '' @ error_text err) err)
                  | Inr resp \<Rightarrow> embed_decode decode env cfg resp)))"

section \<open>The body bound\<close>

lemma read_all_loop_spec:
  "length got + length (data_of r) < limit \<Longrightarrow>
     read_all_loop free limit got r = (got @ data_of r, if final_of r = ErrEOF then None else Some (final_of r))"
proof (induction free limit got r rule: read_all_loop.induct)
  case (1 free limit got r)
  let ?k = "min (Suc (free (length got))) (limit - length got)"
  obtain c e r' where rd: "read_some ?k r = ((c, e), r')" by (metis surj_pair)
  note b = read_some_bytes [OF rd]
  have open_limit: "\<not> limit \<le> length got"
    using 1(2) by simp
  show ?case
  proof (cases e)
    case None
    have "read_all_loop free limit got r = read_all_loop free limit (got @ c) r'"
      using rd None open_limit by (simp add: read_all_loop.simps [of free limit got])
    moreover have "read_all_loop free limit (got @ c) r' =
        ((got @ c) @ data_of r', if final_of r' = ErrEOF then None else Some (final_of r'))"
      using 1(1) [OF open_limit rd [symmetric] refl None] 1(2) b(1) by simp
    ultimately show ?thesis
      using b(1,2) by simp
  next
    case (Some x)
    then show ?thesis
      using rd open_limit b(1,4) by (simp add: read_all_loop.simps [of free limit got])
  qed
qed

lemma read_all_loop_long:
  "limit \<le> length got + length (data_of r) \<Longrightarrow> length got \<le> limit \<Longrightarrow> read_all_loop free limit got r = (data, err) \<Longrightarrow>
     err = None \<longrightarrow> length data = limit"
proof (induction free limit got r rule: read_all_loop.induct)
  case (1 free limit got r)
  let ?k = "min (Suc (free (length got))) (limit - length got)"
  show ?case
  proof (cases "limit \<le> length got")
    case True
    then show ?thesis
      using 1(3,4) unfolding read_all_loop.simps [of free limit got] by auto
  next
    case False
    obtain c e r' where rd: "read_some ?k r = ((c, e), r')" by (metis surj_pair)
    note b = read_some_bytes [OF rd]
    have len: "length (got @ c) \<le> limit"
      using b(3) False by auto
    show ?thesis
    proof (cases e)
      case None
      then have "read_all_loop free limit (got @ c) r' = (data, err)"
        using rd False 1(4) by (simp add: read_all_loop.simps [of free limit got])
      then show ?thesis
        using 1(1) [OF False rd [symmetric] refl None] 1(2) b(1) len by simp
    next
      case (Some x)
      then show ?thesis
        using rd False 1(2,4) b(1,4) len by (auto simp: read_all_loop.simps [of free limit got])
    qed
  qed
qed

text \<open>
  A body is accepted exactly when it is complete and within the bound, and then it is read whole, whatever
  the sizes of the reads.
\<close>

lemma ReadResponseBody_iff:
  "ReadResponseBody free r = Inr data \<longleftrightarrow>
     data = data_of r \<and> final_of r = ErrEOF \<and> length (data_of r) \<le> maxResponseBodyBytes"
proof (cases "length (data_of r) \<le> maxResponseBodyBytes")
  case True
  then show ?thesis
    using read_all_loop_spec [of "[]" r "maxResponseBodyBytes + 1" free] by (auto simp: ReadResponseBody_def)
next
  case False
  obtain d err where "read_all_loop free (maxResponseBodyBytes + 1) [] r = (d, err)" by fastforce
  then show ?thesis
    using read_all_loop_long [of "maxResponseBodyBytes + 1" "[]" r free d err] False
    by (cases err) (auto simp: ReadResponseBody_def)
qed

text \<open>
  C38: a response body is accepted exactly when it arrives complete and has at most 64 MiB, and then it is
  read whole, whatever the sizes of the reads and the growth of the buffer.
\<close>

theorem ReadResponseBody_accepts:
  "(\<exists>data. ReadResponseBody free r = Inr data) = (final_of r = ErrEOF \<and> length (data_of r) \<le> 64 * 2 ^ 20) \<and>
   ReadResponseBody free r \<in> Inl ` UNIV \<union> {Inr (data_of r)}"
proof
  have "maxResponseBodyBytes = 64 * 2 ^ 20"
    by (simp only: maxResponseBodyBytes_def)
  then show "(\<exists>data. ReadResponseBody free r = Inr data) = (final_of r = ErrEOF \<and> length (data_of r) \<le> 64 * 2 ^ 20)"
    by (simp only: ReadResponseBody_iff) blast
  show "ReadResponseBody free r \<in> Inl ` UNIV \<union> {Inr (data_of r)}"
    using ReadResponseBody_iff by (cases "ReadResponseBody free r") auto
qed

section \<open>Embeddings by index\<close>

lemma place_embedding_length [simp]: "length (place_embedding es d) = length es"
  by (simp add: place_embedding_def)

lemma place_all_length [simp]: "length (foldl place_embedding es ds) = length es"
  by (induction ds arbitrary: es) simp_all

lemma place_all_other:
  "i < length es \<Longrightarrow> \<forall>d\<in>set ds. edIndex d \<noteq> int i \<Longrightarrow> foldl place_embedding es ds ! i = es ! i"
  by (induction ds arbitrary: es) (auto simp: place_embedding_def nth_list_update)

lemma place_all_at:
  "d \<in> set ds \<Longrightarrow> distinct (map edIndex ds) \<Longrightarrow> 0 \<le> edIndex d \<Longrightarrow> edIndex d < int (length es) \<Longrightarrow>
     foldl place_embedding es ds ! nat (edIndex d) = edEmbedding d"
proof (induction ds arbitrary: es)
  case (Cons a ds)
  show ?case
  proof (cases "d = a")
    case True
    then have "\<forall>d'\<in>set ds. edIndex d' \<noteq> int (nat (edIndex d))"
      using Cons.prems(2,3) by (simp add: image_iff) metis
    then have "foldl place_embedding (place_embedding es a) ds ! nat (edIndex d) = place_embedding es a ! nat (edIndex d)"
      using Cons.prems(3,4) by (intro place_all_other) simp_all
    then show ?thesis
      using True Cons.prems by (simp add: place_embedding_def [of es a])
  next
    case False
    then show ?thesis
      using Cons by simp
  qed
qed simp

text \<open>
  C39: however the provider orders the vectors of an answer, the result lists them by index, one for every input,
  when the indices are those of the inputs.
\<close>

theorem embeddings_by_index:
  assumes "distinct (map edIndex (eaData a))" "edIndex ` set (eaData a) = int ` {..<length (eaData a)}"
  shows "erEmbeddings (embed_result a) = map edEmbedding (sort_key edIndex (eaData a))"
proof (rule nth_equalityI)
  let ?ds = "eaData a" and ?ss = "sort_key edIndex (eaData a)"
  show "length (erEmbeddings (embed_result a)) = length (map edEmbedding ?ss)"
    by (simp add: embed_result_def)
  fix i
  assume "i < length (erEmbeddings (embed_result a))"
  then have i: "i < length ?ds"
    by (simp add: embed_result_def)
  have "map edIndex ?ss = map int [0..<length ?ds]"
  proof (rule sorted_distinct_set_unique)
    show "sorted (map edIndex ?ss)" "distinct (map edIndex ?ss)"
      using assms(1) by (simp_all add: distinct_map inj_on_def)
    show "sorted (map int [0..<length ?ds])"
      by (simp add: sorted_map sorted_wrt_upt flip: sorted_wrt_map)
    show "distinct (map int [0..<length ?ds])"
      by (simp add: distinct_map)
    show "set (map edIndex ?ss) = set (map int [0..<length ?ds])"
      using assms(2) by (simp add: atLeast0LessThan)
  qed
  then have idx: "edIndex (?ss ! i) = int i"
    using i by (metis length_map length_sort map_nth nth_map nth_upt add_0 diff_zero length_upt)
  have "?ss ! i \<in> set ?ds"
    using i by (metis length_sort nth_mem set_sort)
  then have "foldl place_embedding (replicate (length ?ds) []) ?ds ! nat (edIndex (?ss ! i)) = edEmbedding (?ss ! i)"
    using assms(1) i idx by (intro place_all_at) simp_all
  then show "erEmbeddings (embed_result a) ! i = map edEmbedding ?ss ! i"
    using i idx by (simp add: embed_result_def)
qed

definition sample_embeddings :: embed_answer where
  "sample_embeddings = \<lparr>eaModel = ''m'', eaData = [\<lparr>edEmbedding = [7], edIndex = 1\<rparr>, \<lparr>edEmbedding = [9], edIndex = 0\<rparr>],
     eaPromptTokens = 2, eaTotalTokens = 2\<rparr>"

theorem embeddings_by_index_witness: "erEmbeddings (embed_result sample_embeddings) = [[9], [7]]"
proof -
  have "{..<Suc (Suc 0)} = {0, 1}"
    by auto
  then have "edIndex ` set (eaData sample_embeddings) = int ` {..<length (eaData sample_embeddings)}"
    by (auto simp: sample_embeddings_def)
  from embeddings_by_index [OF _ this] show ?thesis
    by (simp add: sample_embeddings_def)
qed

section \<open>Credentials\<close>

lemma of_char_char_of: "n < 256 \<Longrightarrow> of_char (char_of n) = (n :: nat)"
  by (simp add: of_char_of)

lemma lower_upper [simp]: "lower (upper c) = lower c" and lower_lower [simp]: "lower (lower c) = lower c"
proof -
  have big: "of_char c < (256 :: nat)"
    by simp
  then show "lower (upper c) = lower c"
    by (auto simp: lower_def upper_def Let_def of_char_char_of)
  from big show "lower (lower c) = lower c"
    by (auto simp: lower_def Let_def of_char_char_of)
qed

lemma lower_canonical: "map lower (canonical_loop up s) = map lower s"
  by (induction up s rule: canonical_loop.induct) simp_all

lemma authorization_key: "CanonicalHeaderKey k = ''Authorization'' \<Longrightarrow> lower_text k = ''authorization''"
proof -
  assume "CanonicalHeaderKey k = ''Authorization''"
  then have "map lower k = map lower ''Authorization''"
    using lower_canonical [of True k] by (auto simp: CanonicalHeaderKey_def split: if_splits)
  moreover have "map lower ''Authorization'' = ''authorization''"
    by code_simp
  ultimately show ?thesis
    by (simp add: lower_text_def)
qed

lemma set_headers_other:
  "list_all (\<lambda>(k, v). CanonicalHeaderKey k \<noteq> c) hs \<Longrightarrow> map_of (set_headers hs h) c = map_of h c"
  by (induction hs arbitrary: h) (auto simp: set_headers_def Header_Set_def update_conv')

lemma sanitized_headers: "list_all (\<lambda>(k, v). CanonicalHeaderKey k \<noteq> ''Authorization'') (sanitizeRequestHeaders headers)"
  using authorization_key by (fastforce simp: sanitizeRequestHeaders_def list_all_iff)

text \<open>The headers of a chat request are those of the call, without credentials, when nothing else claims their key.\<close>

lemma request_headers_update:
  "request_headers m = [] \<Longrightarrow> k \<noteq> ''_headers'' \<or> (\<forall>h. v \<noteq> AStrMap h) \<Longrightarrow> request_headers (AList.update k v m) = []"
  by (auto simp: request_headers_def update_conv' split: any.splits)

lemma request_headers_own: "request_headers (AList.update ''_headers'' (AStrMap h) m) = h"
  by (simp add: request_headers_def update_conv')

lemma request_headers_cong: "map_of m ''_headers'' = map_of n ''_headers'' \<Longrightarrow> request_headers m = request_headers n"
  by (simp add: request_headers_def)

lemma request_headers_sampling: "request_headers m = [] \<Longrightarrow> request_headers (sampling_body env params cfg m) = []"
  by (simp add: sampling_body_def Let_def put_option_def request_headers_update split: option.split)

lemma request_headers_base: "request_headers (base_body env params modelID streaming cfg) = []"
  by (simp add: base_body_def Let_def request_headers_def update_conv')

lemma request_headers_extra: "map_of kvs ''_headers'' = None \<Longrightarrow> request_headers (put_all m kvs) = request_headers m"
  by (intro request_headers_cong put_all_other) (simp add: map_of_eq_None_iff)

lemma request_headers_options:
  assumes "map_of opts ''_headers'' = None"
  shows "request_headers (applyProviderOptions opts m) = request_headers m"
proof (rule request_headers_cong)
  have "''_headers'' \<notin> fst ` set (filter (\<lambda>(k, v). k \<notin> set openAIKnownKeys \<and> k \<notin> set openAIProtectedKeys) opts)"
    using assms by (auto simp: map_of_eq_None_iff)
  then show "map_of (applyProviderOptions opts m) ''_headers'' = map_of m ''_headers''"
    by (simp add: applyProviderOptions_def put_all_other copy_option_other logprobs_option_other)
qed

lemma request_headers_rename: "request_headers (rename_max_tokens u m) = request_headers m"
  by (rule request_headers_cong) (simp add: rename_max_tokens_def update_conv' delete_conv' split: option.split)

lemma BuildRequest_headers:
  assumes "gpHeaders params \<noteq> [] \<or> map_of (gpProviderOptions params) ''_headers'' = None \<and> map_of (ocExtraBody cfg) ''_headers'' = None"
  shows "request_headers (BuildRequest env params modelID streaming cfg) = sanitizeRequestHeaders (gpHeaders params)"
proof (cases "gpHeaders params = []")
  case True
  then have o: "map_of (gpProviderOptions params) ''_headers'' = None" "map_of (ocExtraBody cfg) ''_headers'' = None"
    using assms by simp_all
  show ?thesis
    using True
    by (auto simp: BuildRequest_def Let_def request_headers_rename o request_headers_extra request_headers_options
        sanitizeRequestHeaders_def split: option.split
        intro!: request_headers_update request_headers_sampling request_headers_base)
next
  case False
  then show ?thesis
    by (simp add: BuildRequest_def Let_def request_headers_rename request_headers_own)
qed

definition authorized :: "string \<Rightarrow> http_request \<Rightarrow> bool" where
  "authorized token req \<longleftrightarrow>
     Header_Get (rqHeader req) ''Authorization'' = (if token = [] then [] else ''Bearer '' @ token)"

definition no_credential :: "go_headers \<Rightarrow> bool" where
  "no_credential hs \<longleftrightarrow> list_all (\<lambda>(k, v). CanonicalHeaderKey k \<noteq> ''Authorization'') hs"

lemma chat_request_authorized:
  assumes "build_http_request Marshal NewRequest (http_config cfg token url (chat_body env cfg streaming params)) = Inr req"
    and "token = [] \<Longrightarrow> no_credential (cmHeaders cfg)"
    and "token = [] \<Longrightarrow> gpHeaders params \<noteq> [] \<or> map_of (gpProviderOptions params) ''_headers'' = None \<and>
      map_of (ocExtraBody (cmRequestConfig cfg)) ''_headers'' = None"
  shows "authorized token req"
proof (cases "token = []")
  case False
  with assms(1) show ?thesis
    by (auto simp: build_http_request_def MustNewRequest_def http_config_def Let_def authorized_def Header_Get_def
        Header_Set_def [of "''Authorization''"] canonical_authorization split: sum.splits option.splits)
next
  case True
  have rh: "request_headers (chat_body env cfg streaming params) = sanitizeRequestHeaders (gpHeaders params)"
    unfolding chat_body_def by (rule BuildRequest_headers [OF assms(3) [OF True]])
  have ct: "CanonicalHeaderKey ''Content-Type'' = ''Content-Type''"
    by code_simp
  have "map_of (set_headers (sanitizeRequestHeaders (gpHeaders params))
      (set_headers (cmHeaders cfg) (Header_Set ''Content-Type'' ''application/json'' []))) ''Authorization'' = None"
    using assms(2) [OF True]
    by (simp add: set_headers_other [OF sanitized_headers] set_headers_other no_credential_def Header_Set_def ct)
  then show ?thesis
    using assms(1) rh True
    by (auto simp: build_http_request_def MustNewRequest_def http_config_def Let_def authorized_def Header_Get_def
        split: sum.splits option.splits)
qed


definition refusing_env :: model_env where
  "refusing_env = \<lparr>meRequest = sample_request_env,
     meAnswer = \<lparr>oeDecode = (\<lambda>_. Inl (ErrMsg ''json'')), oeError = (\<lambda>_. None), oeAny = (\<lambda>_. None), oeString = Some,
       oeTextParts = (\<lambda>_. None), oeMarshal = (\<lambda>_. Inr []), oeToolCallID = (\<lambda>_. [])\<rparr>,
     meMarshal = (\<lambda>_. Inr ''{}''), meNewRequest = (\<lambda>_ _. None), meDo = (\<lambda>_. Inl (ErrMsg ''refused'')),
     meParseError = (\<lambda>_ _ _ _. ErrMsg ''status''), meFree = (\<lambda>_. 511)\<rparr>"

definition sample_model :: ChatModelConfig where
  "sample_model = \<lparr>cmProviderID = ''p'', cmModelID = ''m'', cmBaseURL = ''u'', cmTokenSource = Some (Inr ''t''),
     cmTokenRequired = True, cmBaseURLRequired = False, cmHeaders = [], cmRequestConfig = sample_config\<rparr>"


text \<open>
  The exception is real: a provider option named \<open>_headers\<close> is passed through as the request's headers, so a
  model without a token then sends the caller's credential.
\<close>

lemma headers_option_passes_credential:
  "request_headers (BuildRequest sample_request_env
     (with_options sample_params [(''_headers'', AStrMap [(''Authorization'', ''Bearer x'')])]) ''m'' False sample_config) =
   [(''Authorization'', ''Bearer x'')]"
  by code_simp

text \<open>So does a credential among the configured headers, and only a configured token replaces it.\<close>

lemma configured_header_passes:
  "case build_http_request (\<lambda>_. Inr ''{}'') (\<lambda>_ _. None)
       (http_config (sample_model\<lparr>cmHeaders := [(''authorization'', ''Bearer x'')]\<rparr>) [] ''u'' []) of
     Inr req \<Rightarrow> rqHeader req = [(''Content-Type'', [''application/json'']), (''Authorization'', [''Bearer x''])]
   | Inl p \<Rightarrow> False"
  by code_simp

end
