(* ===== verification/Embeddings.thy ===== *)
theory Embeddings
  imports ToolLoopFacts OpenAiModel
begin

text \<open>
  \<open>Embed\<close> and \<open>EmbedMany\<close> of \<open>src/embed.go\<close>: the values are split into chunks of the size the model takes per
  call, the chunks are embedded one after the other or in goroutines, and the vectors are put together in the
  order of the values. A model call may depend on everything observable; in a goroutine that is the view the
  goroutine started with, an arbitrary parameter, so that every interleaving is covered. A panic in a
  goroutine ends the program.
\<close>

section \<open>Options and environment\<close>

record embed_options =
  eoMaxRetries :: int
  eoRetryObserver :: "(nat \<times> go_error \<times> int, unit) hook option"
  eoMaxParallelCalls :: int
  eoProviderOptions :: anymap

record embed_run = world +
  ecCalls :: nat

record embed_env =
  eeModel :: "(embed_run \<Rightarrow> string list \<Rightarrow> anymap \<Rightarrow> go_panic + (EmbedResult option \<times> go_error option)) option"
  eeMaxValuesPerCall :: int
  eeRetry :: retry_env
  eeView :: "nat \<Rightarrow> embed_run" \<comment> \<open>what the goroutine of a chunk sees when it starts\<close>
  eeDone :: "nat \<Rightarrow> go_error option" \<comment> \<open>\<open>ctx.Err()\<close> where a chunk checks it\<close>

record embed_one =
  eoneEmbedding :: "float64 list"
  eoneUsage :: Usage
  eoneProviderMetadata :: "metamap option"
  eoneResponse :: ResponseMetadata

record EmbedManyResult =
  emrEmbeddings :: "float64 list list"
  emrUsage :: Usage
  emrProviderMetadata :: "metamap option"
  emrResponse :: ResponseMetadata

type_synonym embed_outcome = "EmbedResult option \<times> go_error option"
type_synonym 'a embed_stmt = "(embed_run, go_error + EmbedManyResult, 'a) stmt"

section \<open>One call\<close>

definition embed_call :: "(embed_run \<Rightarrow> string list \<Rightarrow> anymap \<Rightarrow> go_panic + embed_outcome) \<Rightarrow> embed_options \<Rightarrow> string list \<Rightarrow>
    (embed_run, 'r, embed_outcome) stmt" where
  "embed_call model opts vals =
     andThen (modify (\<lambda>s. s\<lparr>ecCalls := Suc (ecCalls s)\<rparr>)) (\<lambda>_. reads_state (\<lambda>s.
       case model s vals (eoProviderOptions opts) of Inl p \<Rightarrow> go_panics p | Inr r \<Rightarrow> pure r))"

definition embed_values :: "(embed_run \<Rightarrow> string list \<Rightarrow> anymap \<Rightarrow> go_panic + embed_outcome) \<Rightarrow> embed_options \<Rightarrow> embed_env \<Rightarrow>
    string list \<Rightarrow> (embed_run, 'r, embed_outcome) stmt" where
  "embed_values model opts env vals =
     withRetry (eeRetry env) (eoMaxRetries opts) (eoRetryObserver opts) None (embed_call model opts vals)"

section \<open>Provider metadata\<close>

definition merge_namespace :: "string \<times> anymap \<Rightarrow> metamap \<Rightarrow> metamap" where
  "merge_namespace nskv acc =
     (case nskv of (ns, kv) \<Rightarrow>
        AList.update ns (put_all (case map_of acc ns of Some m \<Rightarrow> m | None \<Rightarrow> []) kv) acc)"

definition merge_metadata_step :: "metamap option \<Rightarrow> EmbedResult option \<Rightarrow> metamap option" where
  "merge_metadata_step acc result =
     (case result of
        None \<Rightarrow> acc
      | Some r \<Rightarrow>
          (case erProviderMetadata r of
             None \<Rightarrow> acc
           | Some pm \<Rightarrow> Some (fold merge_namespace pm (case acc of Some m \<Rightarrow> m | None \<Rightarrow> []))))"

definition mergeProviderMetadata :: "EmbedResult option list \<Rightarrow> metamap option" where
  "mergeProviderMetadata results = foldl merge_metadata_step None results"

section \<open>Embed\<close>

definition Embed :: "embed_options \<Rightarrow> embed_env \<Rightarrow> string \<Rightarrow> (embed_run, go_error + embed_one, unit) stmt" where
  "Embed opts env v =
     (case eeModel env of
        None \<Rightarrow> return_early (Inl (ErrMsg ''goai: model must not be nil''))
      | Some model \<Rightarrow>
          andThen (embed_values model opts env [v]) (\<lambda>(result, err).
            case err of
              Some e \<Rightarrow> return_early (Inl e)
            | None \<Rightarrow>
                (case result of
                   None \<Rightarrow> go_panics nil_dereference
                 | Some r \<Rightarrow>
                     (case erEmbeddings r of
                        [] \<Rightarrow> return_early (Inl (ErrMsg ''goai: no embedding returned''))
                      | e # _ \<Rightarrow> return_early (Inr
                          \<lparr>eoneEmbedding = e, eoneUsage = erUsage r,
                           eoneProviderMetadata = mergeProviderMetadata [Some r], eoneResponse = erResponse r\<rparr>)))))"

section \<open>EmbedMany\<close>

text \<open>\<open>slices.Chunk\<close>, for a positive size.\<close>

function chunk_values :: "nat \<Rightarrow> 'a list \<Rightarrow> 'a list list" where
  "chunk_values n xs = (if n = 0 \<or> xs = [] then [] else take n xs # chunk_values n (drop n xs))"
  by pat_completeness auto
termination
  by (relation "measure (\<lambda>(n, xs). length xs)") auto

declare chunk_values.simps [simp del]

definition count_mismatch :: "string \<Rightarrow> nat \<Rightarrow> nat \<Rightarrow> go_error" where
  "count_mismatch place got expected =
     ErrMsg (''goai: embedding count mismatch'' @ place @ '': got '' @ show_nat got @ '', expected '' @ show_nat expected)"

definition single_call :: "(embed_run \<Rightarrow> string list \<Rightarrow> anymap \<Rightarrow> go_panic + embed_outcome) \<Rightarrow> embed_options \<Rightarrow> embed_env \<Rightarrow>
    string list \<Rightarrow> unit embed_stmt" where
  "single_call model opts env vals =
     andThen (embed_values model opts env vals) (\<lambda>(result, err).
       case err of
         Some e \<Rightarrow> return_early (Inl e)
       | None \<Rightarrow>
           (case result of
              None \<Rightarrow> go_panics nil_dereference
            | Some r \<Rightarrow>
                if length (erEmbeddings r) \<noteq> length vals
                then return_early (Inl (count_mismatch [] (length (erEmbeddings r)) (length vals)))
                else return_early (Inr
                  \<lparr>emrEmbeddings = erEmbeddings r, emrUsage = erUsage r,
                   emrProviderMetadata = mergeProviderMetadata [Some r], emrResponse = erResponse r\<rparr>)))"

text \<open>The chunks one after the other, on the caller's goroutine.\<close>

fun embed_sequential :: "(embed_run \<Rightarrow> string list \<Rightarrow> anymap \<Rightarrow> go_panic + embed_outcome) \<Rightarrow> embed_options \<Rightarrow> embed_env \<Rightarrow>
    nat \<Rightarrow> string list list \<Rightarrow> (embed_run, 'r, embed_outcome list) stmt" where
  "embed_sequential model opts env i [] = pure []"
| "embed_sequential model opts env i (chunk # chunks) =
     andThen (case eeDone env i of
                Some err \<Rightarrow> pure (None, Some err)
              | None \<Rightarrow> embed_values model opts env chunk) (\<lambda>r.
     andThen (embed_sequential model opts env (Suc i) chunks) (\<lambda>rs. pure (r # rs)))"

text \<open>The goroutine of a chunk: it gets a slot of the semaphore or sees the context done.\<close>

definition embed_goroutine :: "(embed_run \<Rightarrow> string list \<Rightarrow> anymap \<Rightarrow> go_panic + embed_outcome) \<Rightarrow> embed_options \<Rightarrow> embed_env \<Rightarrow>
    nat \<Rightarrow> string list \<Rightarrow> go_panic + embed_outcome" where
  "embed_goroutine model opts env i chunk =
     (case eeDone env i of
        Some err \<Rightarrow> Inr (None, Some err)
      | None \<Rightarrow>
          (case embed_values model opts env chunk (eeView env i) of
             (Value r, _) \<Rightarrow> Inr r
           | (Returns r, _) \<Rightarrow> Inr r
           | (Panics p, _) \<Rightarrow> Inl p))"

fun embed_parallel :: "(embed_run \<Rightarrow> string list \<Rightarrow> anymap \<Rightarrow> go_panic + embed_outcome) \<Rightarrow> embed_options \<Rightarrow> embed_env \<Rightarrow>
    nat \<Rightarrow> string list list \<Rightarrow> (embed_run, 'r, embed_outcome list) stmt" where
  "embed_parallel model opts env i [] = pure []"
| "embed_parallel model opts env i (chunk # chunks) =
     (case embed_goroutine model opts env i chunk of
        Inl p \<Rightarrow> go_panics p
      | Inr r \<Rightarrow> andThen (embed_parallel model opts env (Suc i) chunks) (\<lambda>rs. pure (r # rs)))"

text \<open>Combining the results in order, with the count of every chunk checked.\<close>

fun combine_chunks :: "nat \<Rightarrow> nat \<Rightarrow> string list list \<Rightarrow> embed_outcome list \<Rightarrow> float64 list list \<Rightarrow> Usage \<Rightarrow>
    (embed_run, go_error + EmbedManyResult, float64 list list \<times> Usage) stmt" where
  "combine_chunks n i (chunk # chunks) ((result, err) # rs) es usage =
     (case err of
        Some e \<Rightarrow> return_early (Inl (ErrWrap
          (''goai: chunk '' @ show_nat (i + 1) @ ''/'' @ show_nat n @ '': '' @ error_text e) e))
      | None \<Rightarrow>
          (case result of
             None \<Rightarrow> go_panics nil_dereference
           | Some r \<Rightarrow>
               if length (erEmbeddings r) \<noteq> length chunk
               then return_early (Inl (count_mismatch ('' in chunk '' @ show_nat i) (length (erEmbeddings r)) (length chunk)))
               else combine_chunks n (Suc i) chunks rs (es @ erEmbeddings r) (addUsage usage (erUsage r))))"
| "combine_chunks n i chunks rs es usage = pure (es, usage)"

definition first_response :: "EmbedResult option list \<Rightarrow> ResponseMetadata" where
  "first_response results = (case List.map_filter (\<lambda>r. r) results of [] \<Rightarrow> zero_Response | r # _ \<Rightarrow> erResponse r)"

definition embed_chunked :: "(embed_run \<Rightarrow> string list \<Rightarrow> anymap \<Rightarrow> go_panic + embed_outcome) \<Rightarrow> embed_options \<Rightarrow> embed_env \<Rightarrow>
    string list list \<Rightarrow> unit embed_stmt" where
  "embed_chunked model opts env chunks =
     (let maxParallel = (if eoMaxParallelCalls opts \<le> 0 then 4 else eoMaxParallelCalls opts) in
      andThen (if maxParallel = 1 then embed_sequential model opts env 0 chunks
               else embed_parallel model opts env 0 chunks) (\<lambda>rs.
      andThen (combine_chunks (length chunks) 0 chunks rs [] zero_Usage) (\<lambda>(es, usage).
        return_early (Inr \<lparr>emrEmbeddings = es, emrUsage = usage,
          emrProviderMetadata = mergeProviderMetadata (map fst rs), emrResponse = first_response (map fst rs)\<rparr>))))"

definition EmbedMany_stmt :: "embed_options \<Rightarrow> embed_env \<Rightarrow> string list \<Rightarrow> unit embed_stmt" where
  "EmbedMany_stmt opts env vals =
     (case eeModel env of
        None \<Rightarrow> return_early (Inl (ErrMsg ''goai: model must not be nil''))
      | Some model \<Rightarrow>
          if vals = [] then return_early (Inr
            \<lparr>emrEmbeddings = [], emrUsage = zero_Usage, emrProviderMetadata = None, emrResponse = zero_Response\<rparr>)
          else
            let maxPerCall = eeMaxValuesPerCall env in
            if maxPerCall \<le> 0 \<or> int (length vals) \<le> maxPerCall then single_call model opts env vals
            else embed_chunked model opts env (chunk_values (nat maxPerCall) vals))"

text \<open>\<^const>\<open>None\<close> is a panic that reaches the caller or ends the program.\<close>

definition EmbedMany :: "embed_options \<Rightarrow> embed_env \<Rightarrow> string list \<Rightarrow> embed_run \<Rightarrow> (go_error + EmbedManyResult) option" where
  "EmbedMany opts env vals s =
     (case EmbedMany_stmt opts env vals s of (Returns r, _) \<Rightarrow> Some r | _ \<Rightarrow> None)"

section \<open>Chunks\<close>

lemma concat_chunk_values: "0 < n \<Longrightarrow> concat (chunk_values n xs) = xs"
  by (induction n xs rule: chunk_values.induct) (simp add: chunk_values.simps)

lemma chunk_values_sizes: "c \<in> set (chunk_values n xs) \<Longrightarrow> 0 < length c \<and> length c \<le> n"
proof (induction n xs rule: chunk_values.induct)
  case (1 n xs)
  then show ?case
    using chunk_values.simps [of n xs] by (auto split: if_splits)
qed

section \<open>A model that embeds value by value\<close>

text \<open>
  Whenever the model answers with as many vectors as it was given values, the vectors are those of the values,
  in order.
\<close>

definition embeds :: "embed_env \<Rightarrow> (string \<Rightarrow> float64 list) \<Rightarrow> bool" where
  "embeds env f \<longleftrightarrow> (\<forall>model s vals opts r. eeModel env = Some model \<longrightarrow> model s vals opts = Inr (Some r, None) \<longrightarrow>
     length (erEmbeddings r) = length vals \<longrightarrow> erEmbeddings r = map f vals)"

text \<open>The model answers every call that respects its limit, and the context is not done.\<close>

definition serves :: "embed_env \<Rightarrow> (string \<Rightarrow> float64 list) \<Rightarrow> bool" where
  "serves env f \<longleftrightarrow> (\<exists>model. eeModel env = Some model \<and>
     (\<forall>s vals opts. eeMaxValuesPerCall env \<le> 0 \<or> int (length vals) \<le> eeMaxValuesPerCall env \<longrightarrow>
        (\<exists>r. model s vals opts = Inr (Some r, None) \<and> erEmbeddings r = map f vals))) \<and> (\<forall>i. eeDone env i = None)"

definition good_answer :: "(string \<Rightarrow> float64 list) \<Rightarrow> string list \<Rightarrow> embed_outcome \<Rightarrow> bool" where
  "good_answer f vals re \<longleftrightarrow>
     (case re of (Some r, None) \<Rightarrow> length (erEmbeddings r) = length vals \<longrightarrow> erEmbeddings r = map f vals | _ \<Rightarrow> True)"

definition right_answer :: "(string \<Rightarrow> float64 list) \<Rightarrow> string list \<Rightarrow> embed_outcome \<Rightarrow> bool" where
  "right_answer f vals re \<longleftrightarrow> (\<exists>r. re = (Some r, None) \<and> erEmbeddings r = map f vals)"

lemma wp_embed_call:
  assumes "embeds env f" "eeModel env = Some model"
  shows "wp (embed_call model opts vals) (\<lambda>re _. good_answer f vals re) (\<lambda>_ _. True) (\<lambda>_ _. False) s"
  using assms by (auto simp: embed_call_def embeds_def good_answer_def split: sum.split option.split)

lemma wp_retry_answers:
  assumes "\<And>s. wp (fn :: ('z world_scheme, 'x option \<times> go_error option, 'x option \<times> go_error option) stmt)
      (\<lambda>r _. A r) (\<lambda>_ _. True) (\<lambda>_ _. False) s" "A r" "\<And>x e. A (x, Some e)"
  shows "wp (retry_loop re observer None fn left a r) (\<lambda>(_, r) _. A r) (\<lambda>_ _. True) (\<lambda>r _. A r) s"
  using assms(2)
proof (induction left arbitrary: a r s)
  case (Suc left)
  show ?case
  proof (cases "snd r")
    case (Some err)
    have rest: "wp (andThen fn (retry_loop re observer None fn left (Suc a))) (\<lambda>(_, r) _. A r) (\<lambda>_ _. True) (\<lambda>r _. A r) s1" for s1
      by (rule wp_seq [OF wp_mono [OF assms(1)]]) (use Suc.IH in auto)
    show ?thesis
      using Some Suc.prems rest assms(3)
      by (cases observer) (auto simp: Let_def simp del: wp_andThen split: option.split sum.split,
          auto simp: rest [simplified] split: option.split sum.split)
  qed (use Suc.prems in simp)
qed simp

lemma wp_withRetry_answers:
  assumes "\<And>s. wp (fn :: ('z world_scheme, 'x option \<times> go_error option, 'x option \<times> go_error option) stmt)
      (\<lambda>r _. A r) (\<lambda>_ _. True) (\<lambda>_ _. False) s" "\<And>x e. A (x, Some e)"
  shows "wp (withRetry re m observer None fn :: ('z world_scheme, 'r, _) stmt) (\<lambda>r _. A r) (\<lambda>_ _. True) (\<lambda>_ _. False) s"
  unfolding withRetry_def wp_call_body
proof (rule wp_seq [OF wp_mono [OF assms(1)]], assumption)
  fix r s1 assume "A r"
  show "wp (andThen (retry_loop re observer None fn (nat m) 0 r) (\<lambda>(attempt, result, err).
         case err of Some e \<Rightarrow>
             if int attempt = m \<and> 0 < m \<and> retryable (Some e)
             then pure (result, Some (retries_exhausted m e)) else pure (result, Some e)
         | None \<Rightarrow> pure (result, None))) (\<lambda>r _. A r) (\<lambda>_ _. True) (\<lambda>r _. A r) s1"
    by (rule wp_seq [OF wp_retry_answers [where A = A, OF assms(1) \<open>A r\<close> assms(2)]])
      (auto intro: assms(2) split: option.split)
qed auto

lemma wp_withRetry_success:
  assumes "\<And>s. wp (fn :: ('z world_scheme, 'x option \<times> go_error option, 'x option \<times> go_error option) stmt)
      (\<lambda>r _. A r) (\<lambda>_ _. False) (\<lambda>_ _. False) s" "\<And>r. A r \<Longrightarrow> snd r = None"
  shows "wp (withRetry re m observer None fn :: ('z world_scheme, 'r, _) stmt) (\<lambda>r _. A r) (\<lambda>_ _. False) (\<lambda>_ _. False) s"
  unfolding withRetry_def wp_call_body
proof (rule wp_seq [OF wp_mono [OF assms(1)]], assumption)
  fix r s1 assume r: "A r"
  then obtain x where x: "r = (x, None)" using assms(2) [OF r] by (cases r) simp
  have "retry_loop re observer None fn n 0 r = pure (0, r)" for n
    using x by (cases n) simp_all
  then show "wp (andThen (retry_loop re observer None fn (nat m) 0 r) (\<lambda>(attempt, result, err).
         case err of Some e \<Rightarrow>
             if int attempt = m \<and> 0 < m \<and> retryable (Some e)
             then pure (result, Some (retries_exhausted m e)) else pure (result, Some e)
         | None \<Rightarrow> pure (result, None))) (\<lambda>r _. A r) (\<lambda>_ _. False) (\<lambda>r _. A r) s1"
    using r x by simp
qed auto

lemma wp_embed_values:
  assumes "embeds env f" "eeModel env = Some model"
  shows "wp (embed_values model opts env vals) (\<lambda>re _. good_answer f vals re) (\<lambda>_ _. True) (\<lambda>_ _. False) s"
  unfolding embed_values_def
  by (rule wp_withRetry_answers [OF wp_embed_call [OF assms]]) (simp add: good_answer_def split: option.split)

lemma wp_embed_values_served:
  assumes "serves env f" "eeModel env = Some model"
    "eeMaxValuesPerCall env \<le> 0 \<or> int (length vals) \<le> eeMaxValuesPerCall env"
  shows "wp (embed_values model opts env vals) (\<lambda>re _. right_answer f vals re) (\<lambda>_ _. False) (\<lambda>_ _. False) s"
  unfolding embed_values_def
proof (rule wp_withRetry_success)
  have answers: "\<exists>r. model s' vals (eoProviderOptions opts) = Inr (Some r, None) \<and> erEmbeddings r = map f vals" for s'
    using assms unfolding serves_def by auto
  show "wp (embed_call model opts vals) (\<lambda>re _. right_answer f vals re) (\<lambda>_ _. False) (\<lambda>_ _. False) s" for s
    using answers [of "s\<lparr>ecCalls := Suc (ecCalls s)\<rparr>"]
    by (auto simp: embed_call_def right_answer_def)
qed (auto simp: right_answer_def)

section \<open>All chunks\<close>

lemma wp_embed_sequential:
  assumes "\<And>chunk s. chunk \<in> set chunks \<Longrightarrow>
      wp (embed_values model opts env chunk :: (embed_run, 'r, _) stmt) (\<lambda>re _. G chunk re) (\<lambda>_ _. E) (\<lambda>_ _. False) s"
    and "\<And>i e chunk. eeDone env i = Some e \<Longrightarrow> G chunk (None, Some e)"
  shows "wp (embed_sequential model opts env i chunks :: (embed_run, 'r, _) stmt)
     (\<lambda>rs _. list_all2 G chunks rs) (\<lambda>_ _. E) (\<lambda>_ _. False) s"
  using assms(1)
proof (induction chunks arbitrary: i s)
  case (Cons chunk chunks)
  have one: "wp (case eeDone env i of Some err \<Rightarrow> pure (None, Some err) | None \<Rightarrow> (embed_values model opts env chunk :: (embed_run, 'r, _) stmt))
      (\<lambda>re _. G chunk re) (\<lambda>_ _. E) (\<lambda>_ _. False) s1" for s1
    using Cons.prems [of chunk] assms(2) by (cases "eeDone env i") auto
  have "wp (embed_sequential model opts env (Suc i) chunks :: (embed_run, 'r, _) stmt)
      (\<lambda>rs _. list_all2 G chunks rs) (\<lambda>_ _. E) (\<lambda>_ _. False) s1" for s1
    using Cons.IH Cons.prems by simp
  then have "wp (andThen (embed_sequential model opts env (Suc i) chunks) (\<lambda>rs. pure (r # rs)) :: (embed_run, 'r, _) stmt)
      (\<lambda>rs _. list_all2 G (chunk # chunks) rs) (\<lambda>_ _. E) (\<lambda>_ _. False) s1" if "G chunk r" for r s1
    using that by (intro wp_seq) simp_all
  from wp_seq [OF one this] show ?case
    unfolding embed_sequential.simps .
qed simp

lemma wp_embed_parallel:
  assumes "\<And>chunk s. chunk \<in> set chunks \<Longrightarrow>
      wp (embed_values model opts env chunk :: (embed_run, embed_outcome, _) stmt) (\<lambda>re _. G chunk re) (\<lambda>_ _. E) (\<lambda>_ _. False) s"
    and "\<And>i e chunk. eeDone env i = Some e \<Longrightarrow> G chunk (None, Some e)"
  shows "wp (embed_parallel model opts env i chunks :: (embed_run, 'r, _) stmt)
     (\<lambda>rs _. list_all2 G chunks rs) (\<lambda>_ _. E) (\<lambda>_ _. False) s"
  using assms(1)
proof (induction chunks arbitrary: i s)
  case (Cons chunk chunks)
  have one: "case embed_goroutine model opts env i chunk of Inl p \<Rightarrow> E | Inr r \<Rightarrow> G chunk r"
    using Cons.prems [of chunk "eeView env i"] assms(2)
    by (auto simp: embed_goroutine_def wp_def split: option.splits outcome.splits prod.splits)
  have "wp (embed_parallel model opts env (Suc i) chunks :: (embed_run, 'r, _) stmt)
      (\<lambda>rs _. list_all2 G chunks rs) (\<lambda>_ _. E) (\<lambda>_ _. False) s1" for s1
    using Cons.IH Cons.prems by simp
  then have rest: "wp (andThen (embed_parallel model opts env (Suc i) chunks) (\<lambda>rs. pure (r # rs)) :: (embed_run, 'r, _) stmt)
      (\<lambda>rs _. list_all2 G (chunk # chunks) rs) (\<lambda>_ _. E) (\<lambda>_ _. False) s1" if "G chunk r" for r s1
    using that by (intro wp_seq) simp_all
  show ?case
    using one rest by (cases "embed_goroutine model opts env i chunk") (simp_all del: wp_andThen)
qed simp

lemma wp_combine_good:
  assumes "list_all2 (good_answer f) chunks rs"
  shows "wp (combine_chunks n i chunks rs es usage) (\<lambda>(es', _) _. es' = es @ map f (concat chunks))
     (\<lambda>_ _. True) (\<lambda>r _. \<exists>e. r = Inl e) s"
  using assms
proof (induction chunks rs arbitrary: i es usage rule: list_all2_induct)
  case (Cons chunk chunks r rs)
  have "wp (combine_chunks n (Suc i) chunks rs (es @ map f chunk) u) (\<lambda>(es', _) _. es' = es @ map f (concat (chunk # chunks)))
     (\<lambda>_ _. True) (\<lambda>r _. \<exists>e. r = Inl e) s" for u
    using Cons.IH [of "Suc i" "es @ map f chunk" u] by simp
  with Cons.hyps(1) show ?case
    by (cases r) (auto simp: good_answer_def split: option.splits)
qed simp

lemma wp_combine_right:
  assumes "list_all2 (right_answer f) chunks rs"
  shows "wp (combine_chunks n i chunks rs es usage) (\<lambda>(es', _) _. es' = es @ map f (concat chunks))
     (\<lambda>_ _. False) (\<lambda>_ _. False) s"
  using assms
proof (induction chunks rs arbitrary: i es usage rule: list_all2_induct)
  case (Cons chunk chunks r rs)
  have "wp (combine_chunks n (Suc i) chunks rs (es @ map f chunk) u) (\<lambda>(es', _) _. es' = es @ map f (concat (chunk # chunks)))
     (\<lambda>_ _. False) (\<lambda>_ _. False) s" for u
    using Cons.IH [of "Suc i" "es @ map f chunk" u] by simp
  with Cons.hyps(1) show ?case
    by (auto simp: right_answer_def)
qed simp

text \<open>Aligned: the vectors of a result are those of the values.\<close>

definition aligned :: "(string \<Rightarrow> float64 list) \<Rightarrow> string list \<Rightarrow> go_error + EmbedManyResult \<Rightarrow> bool" where
  "aligned f vals r \<longleftrightarrow> (case r of Inr res \<Rightarrow> emrEmbeddings res = map f vals | Inl _ \<Rightarrow> True)"

definition aligned_result :: "(string \<Rightarrow> float64 list) \<Rightarrow> string list \<Rightarrow> go_error + EmbedManyResult \<Rightarrow> bool" where
  "aligned_result f vals r \<longleftrightarrow> (\<exists>res. r = Inr res \<and> emrEmbeddings res = map f vals)"

lemma wp_embed_chunked:
  assumes "\<And>chunk s. chunk \<in> set chunks \<Longrightarrow>
      wp (embed_values model opts env chunk :: (embed_run, embed_outcome, _) stmt) (\<lambda>re _. G chunk re) (\<lambda>_ _. E) (\<lambda>_ _. False) s"
    and "\<And>chunk s. chunk \<in> set chunks \<Longrightarrow>
      wp (embed_values model opts env chunk :: embed_outcome embed_stmt) (\<lambda>re _. G chunk re) (\<lambda>_ _. E) (\<lambda>_ _. False) s"
    and stopped: "\<And>i e chunk. eeDone env i = Some e \<Longrightarrow> G chunk (None, Some e)"
    and combine: "\<And>rs n s. list_all2 G chunks rs \<Longrightarrow>
      wp (combine_chunks n 0 chunks rs [] zero_Usage) (\<lambda>(es', _) _. es' = map f (concat chunks)) (\<lambda>_ _. E) (\<lambda>r _. R r) s"
    and res: "\<And>res. emrEmbeddings res = map f (concat chunks) \<Longrightarrow> R (Inr res)"
  shows "wp (embed_chunked model opts env chunks) Q (\<lambda>_ _. E) (\<lambda>r _. R r) s"
proof -
  have all: "wp ((if b then embed_sequential model opts env 0 chunks else embed_parallel model opts env 0 chunks) :: _ embed_stmt)
      (\<lambda>rs _. list_all2 G chunks rs) (\<lambda>_ _. E) (\<lambda>r _. R r) s" for b s
  proof (cases b)
    case True
    show ?thesis
      unfolding if_P [OF True]
      by (rule wp_mono [OF wp_embed_sequential [where G = G and E = E, OF assms(2) stopped]]) simp_all
  next
    case False
    show ?thesis
      unfolding if_not_P [OF False]
      by (rule wp_mono [OF wp_embed_parallel [where G = G and E = E, OF assms(1) stopped]]) simp_all
  qed
  have rest: "wp (andThen (combine_chunks (length chunks) 0 chunks rs [] zero_Usage) (\<lambda>(es, usage).
        return_early (Inr \<lparr>emrEmbeddings = es, emrUsage = usage,
          emrProviderMetadata = mergeProviderMetadata (map fst rs), emrResponse = first_response (map fst rs)\<rparr>)))
      Q (\<lambda>_ _. E) (\<lambda>r _. R r) s" if "list_all2 G chunks rs" for rs s
    by (rule wp_seq [OF combine [OF that]], clarsimp, rule res, simp)
  show ?thesis
    unfolding embed_chunked_def Let_def by (rule wp_seq [OF all rest])
qed

lemma wp_EmbedMany:
  assumes "embeds env f"
  shows "wp (EmbedMany_stmt opts env vals) (\<lambda>_ _. False) (\<lambda>_ _. True) (\<lambda>r _. aligned f vals r) s"
proof (cases "eeModel env")
  case None
  then show ?thesis by (simp add: EmbedMany_stmt_def aligned_def)
next
  case (Some model)
  note vals = wp_embed_values [OF assms Some]
  have single: "wp (single_call model opts env vals) (\<lambda>_ _. False) (\<lambda>_ _. True) (\<lambda>r _. aligned f vals r) s"
    unfolding single_call_def
    by (rule wp_seq [OF wp_mono [OF vals]]) (auto simp: good_answer_def aligned_def split: option.splits)
  have chunked: "wp (embed_chunked model opts env (chunk_values n vals)) (\<lambda>_ _. False) (\<lambda>_ _. True) (\<lambda>r _. aligned f vals r) s"
    if "0 < n" for n
  proof (rule wp_embed_chunked [where G = "good_answer f"])
    show "wp (combine_chunks k 0 (chunk_values n vals) rs [] zero_Usage)
        (\<lambda>(es', _) _. es' = map f (concat (chunk_values n vals))) (\<lambda>_ _. True) (\<lambda>r _. aligned f vals r) s1"
      if "list_all2 (good_answer f) (chunk_values n vals) rs" for rs k s1
      by (rule wp_mono [OF wp_combine_good [OF that]]) (auto simp: aligned_def)
  qed (use vals that in \<open>auto simp: good_answer_def aligned_def concat_chunk_values\<close>)
  show ?thesis
    using Some single chunked by (simp add: EmbedMany_stmt_def aligned_def Let_def)
qed

lemma wp_EmbedMany_served:
  assumes "serves env f"
  shows "wp (EmbedMany_stmt opts env vals) (\<lambda>_ _. False) (\<lambda>_ _. False) (\<lambda>r _. aligned_result f vals r) s"
proof -
  obtain model where model: "eeModel env = Some model"
    using assms by (auto simp: serves_def)
  note served = wp_embed_values_served [OF assms model]
  have single: "wp (single_call model opts env vals) (\<lambda>_ _. False) (\<lambda>_ _. False) (\<lambda>r _. aligned_result f vals r) s"
    if "eeMaxValuesPerCall env \<le> 0 \<or> int (length vals) \<le> eeMaxValuesPerCall env"
    unfolding single_call_def
    by (rule wp_seq [OF wp_mono [OF served [OF that]]]) (auto simp: right_answer_def aligned_result_def)
  have chunked: "wp (embed_chunked model opts env (chunk_values (nat m) vals)) (\<lambda>_ _. False) (\<lambda>_ _. False) (\<lambda>r _. aligned_result f vals r) s"
    if m: "m = eeMaxValuesPerCall env" "0 < m" for m
  proof (rule wp_embed_chunked [where G = "right_answer f"])
    show "wp (combine_chunks k 0 (chunk_values (nat m) vals) rs [] zero_Usage)
        (\<lambda>(es', _) _. es' = map f (concat (chunk_values (nat m) vals))) (\<lambda>_ _. False) (\<lambda>r _. aligned_result f vals r) s1"
      if "list_all2 (right_answer f) (chunk_values (nat m) vals) rs" for rs k s1
      by (rule wp_mono [OF wp_combine_right [OF that]]) auto
    have fits: "int (length chunk) \<le> eeMaxValuesPerCall env" if "chunk \<in> set (chunk_values (nat m) vals)" for chunk
      using chunk_values_sizes [OF that] m by (simp add: le_nat_iff)
    show "wp (embed_values model opts env chunk) (\<lambda>re _. right_answer f chunk re) (\<lambda>_ _. False) (\<lambda>_ _. False) s1"
      if "chunk \<in> set (chunk_values (nat m) vals)" for chunk s1
      by (rule served) (simp add: fits [OF that])
    show "wp (embed_values model opts env chunk) (\<lambda>re _. right_answer f chunk re) (\<lambda>_ _. False) (\<lambda>_ _. False) s1"
      if "chunk \<in> set (chunk_values (nat m) vals)" for chunk s1
      by (rule served) (simp add: fits [OF that])
    show "aligned_result f vals (Inr res)" if "emrEmbeddings res = map f (concat (chunk_values (nat m) vals))" for res
      using that m by (simp add: aligned_result_def concat_chunk_values)
    show "right_answer f chunk (None, Some e)" if "eeDone env i = Some e" for i e chunk
      using assms that by (auto simp: serves_def)
  qed
  show ?thesis
    using model single chunked
    by (auto simp: EmbedMany_stmt_def aligned_result_def Let_def)
qed


definition length_vector :: "string \<Rightarrow> float64 list" where
  "length_vector v = [of_nat (length v)]"

definition sample_embed_env :: embed_env where
  "sample_embed_env = \<lparr>eeModel = Some (\<lambda>_ vals _. Inr (Some \<lparr>erEmbeddings = map length_vector vals,
       erUsage = zero_Usage, erProviderMetadata = None, erResponse = zero_Response\<rparr>, None)),
     eeMaxValuesPerCall = 2,
     eeRetry = \<lparr>jitter_ms = \<lambda>_ b. 1000 * int b, until = \<lambda>_ _. None, sleep_for = \<lambda>_ _. None\<rparr>,
     eeView = (\<lambda>_. \<lparr>hist = [], ecCalls = 0\<rparr>), eeDone = (\<lambda>_. None)\<rparr>"

definition sample_embed_options :: embed_options where
  "sample_embed_options = \<lparr>eoMaxRetries = 2, eoRetryObserver = None, eoMaxParallelCalls = 0, eoProviderOptions = []\<rparr>"


section \<open>With an OpenAI-compatible model\<close>

text \<open>\<open>DoEmbed\<close> as the model of \<open>EmbedMany\<close>.\<close>

definition openai_embedder :: "(string \<Rightarrow> go_error + embed_answer) \<Rightarrow> model_env \<Rightarrow> EmbeddingModelConfig \<Rightarrow>
    embed_run \<Rightarrow> string list \<Rightarrow> anymap \<Rightarrow> go_panic + embed_outcome" where
  "openai_embedder decode env cfg s vals opts =
     (case DoEmbed decode env cfg vals opts of
        Inl p \<Rightarrow> Inl p
      | Inr (Inl err) \<Rightarrow> Inr (None, Some err)
      | Inr (Inr r) \<Rightarrow> Inr (Some r, None))"

text \<open>
  What the provider promises: an answer with as many vectors as the request had values numbers them by the
  position of their value; the order in the answer is free.
\<close>

definition numbered_answer :: "(string \<Rightarrow> float64 list) \<Rightarrow> string list \<Rightarrow> embed_answer \<Rightarrow> bool" where
  "numbered_answer f vals a \<longleftrightarrow>
     distinct (map edIndex (eaData a)) \<and> edIndex ` set (eaData a) = int ` {..<length (eaData a)} \<and>
     (\<forall>d\<in>set (eaData a). edEmbedding d = f (vals ! nat (edIndex d)))"

definition numbers_vectors :: "(string \<Rightarrow> go_error + embed_answer) \<Rightarrow> model_env \<Rightarrow> EmbeddingModelConfig \<Rightarrow>
    (string \<Rightarrow> float64 list) \<Rightarrow> bool" where
  "numbers_vectors decode env cfg f \<longleftrightarrow> (\<forall>token vals opts req resp body a.
     embed_http_request env cfg token (embed_body cfg vals opts) = Inr req \<longrightarrow> meDo env req = Inr resp \<longrightarrow>
     ReadResponseBody (meFree env) (rsBody resp) = Inr body \<longrightarrow> decode body = Inr a \<longrightarrow>
     length (eaData a) = length vals \<longrightarrow> numbered_answer f vals a)"

lemma numbered_vectors:
  assumes "numbered_answer f vals a" "length (eaData a) = length vals"
  shows "erEmbeddings (embed_result a) = map f vals"
proof -
  let ?ds = "eaData a"
  have d: "distinct (map edIndex ?ds)" "edIndex ` set ?ds = int ` {..<length ?ds}"
    using assms(1) by (simp_all add: numbered_answer_def)
  show ?thesis
  proof (rule nth_equalityI)
    show "length (erEmbeddings (embed_result a)) = length (map f vals)"
      using assms(2) by (simp add: embed_result_def)
    fix i assume "i < length (erEmbeddings (embed_result a))"
    then have i: "i < length ?ds" by (simp add: embed_result_def)
    then have "int i \<in> edIndex ` set ?ds" using d(2) by simp
    then obtain x where x: "x \<in> set ?ds" "edIndex x = int i" by auto
    have "foldl place_embedding (replicate (length ?ds) []) ?ds ! nat (edIndex x) = edEmbedding x"
      using x d(1) i by (intro place_all_at) simp_all
    then show "erEmbeddings (embed_result a) ! i = map f vals ! i"
      using x assms i by (simp add: embed_result_def numbered_answer_def)
  qed
qed

lemma openai_embeds:
  assumes "numbers_vectors decode menv cfg f" "eeModel env = Some (openai_embedder decode menv cfg)"
  shows "embeds env f"
proof -
  have "erEmbeddings r = map f vals"
    if run: "DoEmbed decode menv cfg vals opts = Inr (Inr r)" and len: "length (erEmbeddings r) = length vals" for vals opts r
  proof -
    obtain token req resp body a where "embed_http_request menv cfg token (embed_body cfg vals opts) = Inr req"
        "meDo menv req = Inr resp" "ReadResponseBody (meFree menv) (rsBody resp) = Inr body" "decode body = Inr a"
        and r: "r = embed_result a"
      using run by (auto simp: DoEmbed_def embed_decode_def split: if_splits sum.splits)
    moreover have "length (eaData a) = length vals"
      using len r by (simp add: embed_result_def)
    ultimately show ?thesis
      using assms(1) numbered_vectors unfolding numbers_vectors_def by blast
  qed
  then show ?thesis
    using assms(2) by (auto simp: embeds_def openai_embedder_def split: sum.splits)
qed

end
