(* ===== verification/Spec2Isabelle.thy ===== *)
theory Spec2Isabelle
  imports PartialJson Sse StreamLoopFacts Normalize AnthropicMessages GeminiSchema OpenAiTools ObjectStream Embeddings
begin

text \<open>
  Verification of the core of the GoAI SDK (\<open>src/\<close>, the Go module at the root of the repository).

  \<^bold>\<open>The program.\<close> GoAI talks to language models. \<open>GenerateText\<close> and \<open>StreamText\<close> (\<open>src/generate.go\<close>) build
  a request from the caller's options, call a provider's model with retries (\<open>src/retry.go\<close>), execute the
  tools the model asks for, fold calls and results into the conversation and repeat; callbacks
  (\<open>src/hooks.go\<close>) observe and steer every stage, their panics are converted (\<open>src/panic.go\<close>), and the
  stage a call is in is published in an atomic word (\<open>src/agent_state.go\<close>). A provider turns the bytes of an
  HTTP answer into stream chunks: a server-sent-event scanner (\<open>src/internal/sse/sse.go\<close>) under a reader for
  the wire format (\<open>src/provider/anthropic\<close>, \<open>src/internal/openaicompat\<close>), on Bedrock on top of a binary
  event-stream decoder (\<open>src/provider/bedrock\<close>). HTTP and stream errors are classified in \<open>src/errors.go\<close>.
  Schemas are rewritten for Gemini (\<open>src/internal/gemini/schema.go\<close>); unfinished JSON in a stream is repaired
  (\<open>src/partial_json.go\<close>). \<open>GenerateObject\<close> and \<open>StreamObject\<close> (\<open>src/object.go\<close>) decode an answer into the caller's
  type, with a tool loop of their own; \<open>Embed\<close> and \<open>EmbedMany\<close> (\<open>src/embed.go\<close>) split values into chunks and
  embed them in parallel.

  \<^bold>\<open>The theories.\<close>
  \<^item> \<open>Prelude\<close>, \<open>GoValues\<close>, \<open>ProviderTypes\<close>, \<open>Utf8\<close>: Go's string functions, errors and panics as values,
    dynamic values, the structs of \<open>src/provider/types.go\<close>, runes.
  \<^item> \<open>Effects\<close>, \<open>Hooks\<close>: Go statements as state transformers that end normally, panic or return, with
    weakest preconditions; the info records, the event history, panic conversion: a panicking callback is
    reported once and becomes the returned error.
  \<^item> \<open>ByteReader\<close>, \<open>Refinement\<close>, \<open>Sse\<close>, \<open>SseScan\<close>: an \<open>io.Reader\<close> given as its read results, the scanner over
    it, its refinement to functions of the bytes read (the locale \<open>op_refinement\<close> is interpreted for both
    readers), and the loop every stream reader runs over it.
  \<^item> \<open>EventStream\<close>, \<open>BedrockSse\<close>: the frame decoder with its CRC-32 checksums, which accepts exactly the
    well-formed frames, and the bridge that re-emits frames as server-sent events.
  \<^item> \<open>PartialJson\<close>: \<open>repairJSON\<close>. \<open>AgentState\<close>: the packed word and its concurrent writers. \<open>Retry\<close>: delays
    and the retry loop. \<open>Messages\<close>: request building and transcripts.
  \<^item> \<open>HttpErrors\<close>: classification of HTTP and stream errors with the overflow expressions, the headers of a
    request, data URLs.
  \<^item> \<open>ToolExec\<close>: \<open>executeToolsParallel\<close>, a resumption per goroutine and an arbitrary schedule.
  \<^item> \<open>ToolLoop\<close>, \<open>ToolLoopFacts\<close>: \<open>GenerateText\<close> and its properties.
  \<^item> \<open>Accumulate\<close>, \<open>Drain\<close>, \<open>Consume\<close>, \<open>ConsumeFacts\<close>: the two readers of provider streams.
  \<^item> \<open>StreamLoop\<close>, \<open>StreamLoopFacts\<close>: \<open>StreamText\<close>, its goroutine, and the result its reader rebuilds.
  \<^item> \<open>ObjectLoop\<close>, \<open>ObjectStream\<close>: \<open>GenerateObject\<close>, and \<open>StreamObject\<close> with the partial objects of its reader.
  \<^item> \<open>Embeddings\<close>: \<open>Embed\<close> and \<open>EmbedMany\<close>, which keep every vector with its value.
  \<^item> \<open>StreamSteps\<close>: steps that send chunks, the shape of every provider's reader, with the rules for what they
    send. \<open>AnthropicStream\<close>, \<open>AnthropicFacts\<close>, \<open>AnthropicMessages\<close>: \<open>parseSSE\<close>, how its chunks end for every input, and the
    round trip of a streamed message. \<open>OpenAiStream\<close>, \<open>OpenAiFacts\<close>, \<open>OpenAiTools\<close>: \<open>ParseStream\<close> and
    \<open>ParseResponse\<close>, the lost finish reason, the reassembly of interleaved tool calls. \<open>OpenAiRequest\<close>,
    \<open>OpenAiModel\<close>: messages and requests on the wire, and the chat and embedding models around them, with the
    bound on bodies, the order of the vectors and the credential.
  \<^item> \<open>GeminiSchema\<close>: \<open>SanitizeSchema\<close> and the well-formedness of what it returns.
  \<^item> \<open>Normalize\<close>: the message normalisation strict providers share (\<open>src/provider/normalize.go\<close>).

  \<^bold>\<open>Correspondence.\<close> A struct is a record, a typed string constant a datatype, \<open>nil\<close> of a tested slice or
  pointer \<^const>\<open>None\<close>, a Go map an association list, a token count a 64-bit word. Callbacks, models and tools
  are functions of the whole observable history, so they may keep state; each may panic. Parameters of the
  model are \<open>encoding/json\<close> (into dynamic values and into structs), the order in which Go ranges over a map,
  the random and clock sources, \<open>http.NewRequestWithContext\<close> and the HTTP client, the decoder and schema of a
  caller's type, and \<open>fmt.Sprint\<close> on composite values.

  \<^bold>\<open>Bounds.\<close> The loops of \<open>GenerateText\<close>, \<open>StreamText\<close> and \<open>GenerateObject\<close> recurse on the remaining number of steps
  (\<open>MaxSteps\<close>), the retry loop on the remaining retries, the scanner and the frame decoder on the
  bytes still to come, reference inlining on the depth left (10, as in the code); no definition uses fuel
  that could run out.

  \<^bold>\<open>Not modelled.\<close> Clocks and latencies, contexts beyond the identity a callback sees, network I/O, stack
  traces, and the parts listed in the manifest with their reasons.
\<close>

end
